(* ===== verification/Go_Prelude.thy ===== *)
theory Go_Prelude
  imports Main "HOL-Library.Code_Target_Nat" "HOL-Library.Sublist" "HOL-Library.Char_ord" "HOL-Library.List_Lexorder"
begin

text \<open>
  The part of Go's language and standard library that the modelled packages use, and the
  generic lemmas their proofs share. A Go string is a sequence of bytes, so it is a HOL
  \<^typ>\<open>string\<close> (a list of 8-bit characters). \<open>strings.TrimSpace\<close> and
  \<open>strings.Fields\<close> look for Unicode white space; they are modelled on the UTF-8 bytes of
  the white-space runes, which is exact because the first byte of a multi-byte rune never
  occurs inside another rune. A call that can fail returns a sum, \<open>Inl\<close> for the error.
\<close>

named_theorems go_simps \<open>equations of the string library used as rewrite rules\<close>
named_theorems go_bytes \<open>facts about byte classes\<close>

section \<open>Results\<close>

type_synonym ('e, 'a) result = "'e + 'a"

definition is_ok :: "('e, 'a) result \<Rightarrow> bool" where
  "is_ok r = (case r of Inl _ \<Rightarrow> False | Inr _ \<Rightarrow> True)"

lemma is_ok_simps [simp]: "is_ok (Inr x)" "\<not> is_ok (Inl e)"
  by (simp_all add: is_ok_def)

section \<open>Bytes\<close>

abbreviation byte :: "char \<Rightarrow> nat" where
  "byte c \<equiv> of_char c"

abbreviation NL :: char where
  "NL \<equiv> CHR 0x0A"

abbreviation CR :: char where
  "CR \<equiv> CHR 0x0D"

abbreviation NUL :: char where
  "NUL \<equiv> CHR 0x00"

abbreviation TAB :: char where
  "TAB \<equiv> CHR 0x09"

abbreviation BSLASH :: char where
  "BSLASH \<equiv> CHR 0x5C"

abbreviation DQUOTE :: char where
  "DQUOTE \<equiv> CHR 0x22"

abbreviation SQUOTE :: char where
  "SQUOTE \<equiv> CHR 0x27"

lemma byte_less [go_bytes]: "byte c < 256"
  by simp

lemma byte_div16 [go_bytes]: "byte c div 16 < 16"
  by (rule less_mult_imp_div_less) simp

lemma byte_inject [go_bytes]: "byte c = byte d \<longleftrightarrow> c = d"
  by simp

lemma byte_char_of [go_bytes]: "n < 256 \<Longrightarrow> byte (char_of n) = n"
  by (simp add: of_char_of)

definition is_digit :: "char \<Rightarrow> bool" where
  "is_digit c \<longleftrightarrow> 48 \<le> byte c \<and> byte c \<le> 57"

text \<open>Printable ASCII other than the space: the bytes that can never be white space.\<close>

definition graphic :: "char \<Rightarrow> bool" where
  "graphic c \<longleftrightarrow> 0x20 < byte c \<and> byte c < 0x7F"

section \<open>White space\<close>

definition ascii_space :: "char \<Rightarrow> bool" where
  "ascii_space c \<longleftrightarrow> (9 \<le> byte c \<and> byte c \<le> 13) \<or> byte c = 32"

definition uspace2 :: "char \<Rightarrow> char \<Rightarrow> bool" where
  "uspace2 a b \<longleftrightarrow> byte a = 0xC2 \<and> (byte b = 0x85 \<or> byte b = 0xA0)"

definition uspace3 :: "char \<Rightarrow> char \<Rightarrow> char \<Rightarrow> bool" where
  "uspace3 a b c \<longleftrightarrow>
     (byte a = 0xE1 \<and> byte b = 0x9A \<and> byte c = 0x80)
   \<or> (byte a = 0xE2 \<and> byte b = 0x80 \<and>
       ((0x80 \<le> byte c \<and> byte c \<le> 0x8A) \<or> byte c = 0xA8 \<or> byte c = 0xA9 \<or> byte c = 0xAF))
   \<or> (byte a = 0xE2 \<and> byte b = 0x81 \<and> byte c = 0x9F)
   \<or> (byte a = 0xE3 \<and> byte b = 0x80 \<and> byte c = 0x80)"

text \<open>The width in bytes of the white-space rune at the head of a string, 0 for none.\<close>

fun space_len :: "string \<Rightarrow> nat" where
  "space_len [] = 0"
| "space_len [a] = (if ascii_space a then 1 else 0)"
| "space_len [a, b] = (if ascii_space a then 1 else if uspace2 a b then 2 else 0)"
| "space_len (a # b # c # s) =
     (if ascii_space a then 1 else if uspace2 a b then 2 else if uspace3 a b c then 3 else 0)"

text \<open>The same at the end of a string; the argument is the reversed string.\<close>

fun space_len_rev :: "string \<Rightarrow> nat" where
  "space_len_rev [] = 0"
| "space_len_rev [a] = (if ascii_space a then 1 else 0)"
| "space_len_rev [a, b] = (if ascii_space a then 1 else if uspace2 b a then 2 else 0)"
| "space_len_rev (a # b # c # s) =
     (if ascii_space a then 1 else if uspace2 b a then 2 else if uspace3 c b a then 3 else 0)"

lemma space_len_le: "space_len s \<le> length s"
  by (induction s rule: space_len.induct) auto

lemma space_len_rev_le: "space_len_rev s \<le> length s"
  by (induction s rule: space_len_rev.induct) auto

lemma space_len_ascii [simp]: "ascii_space a \<Longrightarrow> space_len (a # s) = 1"
  by (induction "a # s" rule: space_len.induct) auto

lemma space_len_rev_ascii [simp]: "ascii_space a \<Longrightarrow> space_len_rev (a # s) = 1"
  by (induction "a # s" rule: space_len_rev.induct) auto

lemma not_space_graphic [go_bytes]:
  "graphic a \<Longrightarrow> \<not> ascii_space a" "graphic a \<Longrightarrow> \<not> uspace2 a b" "graphic b \<Longrightarrow> \<not> uspace2 a b"
  "graphic a \<Longrightarrow> \<not> uspace3 a b c" "graphic c \<Longrightarrow> \<not> uspace3 a b c"
  by (auto simp: graphic_def ascii_space_def uspace2_def uspace3_def)

lemma space_len_graphic [simp]: "graphic a \<Longrightarrow> space_len (a # s) = 0"
  by (induction "a # s" rule: space_len.induct) (auto simp: not_space_graphic)

lemma space_len_rev_graphic [simp]: "graphic a \<Longrightarrow> space_len_rev (a # s) = 0"
  by (induction "a # s" rule: space_len_rev.induct) (auto simp: not_space_graphic)

function trim_left :: "string \<Rightarrow> string" where
  "trim_left s = (if space_len s = 0 then s else trim_left (drop (space_len s) s))"
  by pat_completeness auto
termination
proof (relation "measure length", goal_cases)
  case (2 s)
  then show ?case using space_len_le [of s] by (cases s) auto
qed simp

function trim_rev :: "string \<Rightarrow> string" where
  "trim_rev s = (if space_len_rev s = 0 then s else trim_rev (drop (space_len_rev s) s))"
  by pat_completeness auto
termination
proof (relation "measure length", goal_cases)
  case (2 s)
  then show ?case using space_len_rev_le [of s] by (cases s) auto
qed simp

declare trim_left.simps [simp del] trim_rev.simps [simp del]

definition TrimSpace :: "string \<Rightarrow> string" where
  "TrimSpace s = rev (trim_rev (rev (trim_left s)))"

lemma trim_left_Nil [simp]: "trim_left [] = []"
  by (simp add: trim_left.simps)

lemma trim_rev_Nil [simp]: "trim_rev [] = []"
  by (simp add: trim_rev.simps)

lemma trim_left_id: "space_len s = 0 \<Longrightarrow> trim_left s = s"
  by (simp add: trim_left.simps)

lemma trim_rev_id: "space_len_rev s = 0 \<Longrightarrow> trim_rev s = s"
  by (simp add: trim_rev.simps)

lemma trim_left_space [simp]: "ascii_space a \<Longrightarrow> trim_left (a # s) = trim_left s"
  by (subst trim_left.simps) simp

lemma trim_rev_space [simp]: "ascii_space a \<Longrightarrow> trim_rev (a # s) = trim_rev s"
  by (subst trim_rev.simps) simp

lemma space_len_trim_left [simp]: "space_len (trim_left s) = 0"
proof (induction s rule: trim_left.induct)
  case (1 s)
  then show ?case by (subst trim_left.simps) auto
qed

lemma space_len_rev_trim_rev [simp]: "space_len_rev (trim_rev s) = 0"
proof (induction s rule: trim_rev.induct)
  case (1 s)
  then show ?case by (subst trim_rev.simps) auto
qed

lemma suffix_trim_left: "suffix (trim_left s) s"
proof (induction s rule: trim_left.induct)
  case (1 s)
  show ?case
  proof (cases "space_len s = 0")
    case True
    then show ?thesis by (simp add: trim_left_id)
  next
    case False
    with 1 have "suffix (trim_left (drop (space_len s) s)) s"
      by (metis suffix_drop suffix_order.trans)
    with False show ?thesis by (subst trim_left.simps) simp
  qed
qed

lemma suffix_trim_rev: "suffix (trim_rev s) s"
proof (induction s rule: trim_rev.induct)
  case (1 s)
  show ?case
  proof (cases "space_len_rev s = 0")
    case True
    then show ?thesis by (simp add: trim_rev_id)
  next
    case False
    with 1 have "suffix (trim_rev (drop (space_len_rev s) s)) s"
      by (metis suffix_drop suffix_order.trans)
    with False show ?thesis by (subst trim_rev.simps) simp
  qed
qed

lemma TrimSpace_Nil [simp]: "TrimSpace [] = []"
  by (simp add: TrimSpace_def)

lemma length_TrimSpace: "length (TrimSpace s) \<le> length s"
  unfolding TrimSpace_def
  by (metis length_rev order.trans suffix_length_le suffix_trim_left suffix_trim_rev)

lemma set_TrimSpace: "set (TrimSpace s) \<subseteq> set s"
  unfolding TrimSpace_def
  by (metis set_mono_suffix set_rev subset_trans suffix_trim_left suffix_trim_rev)

text \<open>Text that starts and ends with a graphic byte is not changed.\<close>

lemma TrimSpace_id:
  assumes "s \<noteq> []" and "graphic (hd s)" and "graphic (last s)"
  shows "TrimSpace s = s"
proof -
  obtain a t where s: "s = a # t" using assms(1) by (cases s) auto
  have "trim_left s = s" using assms(2) s by (simp add: trim_left_id)
  moreover obtain b u where r: "rev s = b # u" using assms(1) by (cases "rev s") auto
  have "b = last s" using r by (metis last_rev list.sel(1) rev_rev_ident hd_rev)
  then have "space_len_rev (rev s) = 0" unfolding r using assms(3) by simp
  then have "trim_rev (rev s) = rev s" by (rule trim_rev_id)
  ultimately show ?thesis by (simp add: TrimSpace_def)
qed

lemma TrimSpace_graphic: "list_all graphic s \<Longrightarrow> TrimSpace s = s"
  by (cases "s = []") (auto simp: TrimSpace_id list_all_iff)

text \<open>Trimming is idempotent: what is left begins and ends with no white-space rune.\<close>

lemma space_len_take: "space_len s = 0 \<Longrightarrow> space_len (take n s) = 0"
proof (induction s rule: space_len.induct)
  case (2 a)
  then show ?case by (cases n) auto
next
  case (3 a b)
  then show ?case
    by (cases n; cases "n - 1") (auto split: if_splits)
next
  case (4 a b c s)
  then show ?case
    by (cases n; cases "n - 1"; cases "n - 2") (auto simp: numeral_2_eq_2 split: if_splits)
qed simp

lemma TrimSpace_idem [simp]: "TrimSpace (TrimSpace s) = TrimSpace s"
proof -
  obtain p where p: "rev (trim_left s) = p @ trim_rev (rev (trim_left s))"
    using suffix_trim_rev [of "rev (trim_left s)"] by (auto simp: suffix_def)
  then have "trim_left s = rev (trim_rev (rev (trim_left s))) @ rev p"
    by (metis rev_append rev_rev_ident)
  then have "space_len (rev (trim_rev (rev (trim_left s)))) = 0"
    by (metis append_eq_conv_conj space_len_take space_len_trim_left)
  then show ?thesis
    by (simp add: TrimSpace_def trim_left_id trim_rev_id)
qed

section \<open>strings.Fields\<close>

text \<open>\<open>cur\<close> is the field being read, reversed.\<close>

function fields_aux :: "string \<Rightarrow> string \<Rightarrow> string list" where
  "fields_aux cur [] = (if cur = [] then [] else [rev cur])"
| "fields_aux cur (a # t) =
     (if space_len (a # t) = 0 then fields_aux (a # cur) t
      else (if cur = [] then [] else [rev cur]) @ fields_aux [] (drop (space_len (a # t)) (a # t)))"
  by pat_completeness auto
termination
proof (relation "measure (\<lambda>(cur, s). length s)", goal_cases)
  case (3 cur a t)
  then show ?case using space_len_le [of "a # t"] by auto
qed auto

definition Fields :: "string \<Rightarrow> string list" where
  "Fields s = fields_aux [] s"

lemma fields_aux_graphic:
  "list_all graphic w \<Longrightarrow> fields_aux cur (w @ s) = fields_aux (rev w @ cur) s"
  by (induction w arbitrary: cur) auto

lemma fields_aux_space:
  "ascii_space a \<Longrightarrow>
   fields_aux cur (a # s) = (if cur = [] then [] else [rev cur]) @ fields_aux [] s"
  by simp

section \<open>strings.Split, strings.Join and strings.Cut for a one-byte separator\<close>

fun split_on :: "char \<Rightarrow> string \<Rightarrow> string list" where
  "split_on c [] = [[]]"
| "split_on c (x # xs) =
     (if x = c then [] # split_on c xs
      else (x # hd (split_on c xs)) # tl (split_on c xs))"

lemma split_on_code [code]:
  "split_on c [] = [[]]"
  "split_on c (x # xs) =
     (if x = c then [] # split_on c xs
      else case split_on c xs of [] \<Rightarrow> [x # hd []] | y # ys \<Rightarrow> (x # y) # ys)"
  by (simp_all split: list.split)

fun join :: "string \<Rightarrow> string list \<Rightarrow> string" where
  "join sep [] = []"
| "join sep [x] = x"
| "join sep (x # y # ys) = x @ sep @ join sep (y # ys)"

text \<open>\<open>cut c s\<close> is \<open>Some (before, after)\<close> when \<open>c\<close> occurs, at its first occurrence.\<close>

fun cut :: "char \<Rightarrow> string \<Rightarrow> (string \<times> string) option" where
  "cut c [] = None"
| "cut c (x # xs) =
     (if x = c then Some ([], xs)
      else map_option (\<lambda>(b, a). (x # b, a)) (cut c xs))"

lemma split_on_neq [simp]: "split_on c s \<noteq> []"
  by (induction s) auto

lemma split_on_append: "c \<notin> set w \<Longrightarrow> split_on c (w @ c # s) = w # split_on c s"
  by (induction w) auto

lemma split_on_fresh: "c \<notin> set w \<Longrightarrow> split_on c w = [w]"
  by (induction w) auto

lemma split_on_mid: "split_on c (x @ c # y) = split_on c x @ split_on c y"
  by (induction x) (auto simp: hd_append tl_append split: list.splits)

lemma split_on_no_sep: "w \<in> set (split_on c s) \<Longrightarrow> c \<notin> set w"
proof (induction s arbitrary: w)
  case (Cons x xs)
  then show ?case
    by (cases "split_on c xs") (auto split: if_splits)
qed simp

lemma join_split_on: "join [c] (split_on c s) = s"
proof (induction s)
  case (Cons x xs)
  then show ?case
    by (cases "split_on c xs"; cases "tl (split_on c xs)") auto
qed simp

lemma split_on_join:
  "ws \<noteq> [] \<Longrightarrow> \<forall>w\<in>set ws. c \<notin> set w \<Longrightarrow> split_on c (join [c] ws) = ws"
proof (induction "[c]" ws rule: join.induct)
  case (3 x y ys)
  then show ?case by (simp add: split_on_append)
qed (auto simp: split_on_fresh)

lemma join_inj:
  assumes "join [c] xs = join [c] ys" and "xs \<noteq> []" and "ys \<noteq> []"
    and "\<forall>w\<in>set xs. c \<notin> set w" and "\<forall>w\<in>set ys. c \<notin> set w"
  shows "xs = ys"
  using assms by (metis split_on_join)

lemma cut_append [simp]: "c \<notin> set w \<Longrightarrow> cut c (w @ c # s) = Some (w, s)"
  by (induction w) auto

lemma cut_None [simp]: "cut c s = None \<longleftrightarrow> c \<notin> set s"
  by (induction s) auto

lemma cut_SomeD: "cut c s = Some (b, a) \<Longrightarrow> s = b @ c # a \<and> c \<notin> set b"
  by (induction s arbitrary: b) (auto split: if_splits)

lemma cut_Some_iff: "cut c s = Some (b, a) \<longleftrightarrow> s = b @ c # a \<and> c \<notin> set b"
  by (metis cut_SomeD cut_append)

text \<open>Fields of graphic words joined by single spaces are the words.\<close>

lemma Fields_join:
  assumes "\<forall>w\<in>set ws. w \<noteq> [] \<and> list_all graphic w"
  shows "Fields (join '' '' ws) = ws"
proof -
  have sp: "ascii_space CHR '' ''" by (simp add: ascii_space_def)
  have "fields_aux [] (join '' '' ws) = ws"
    using assms
  proof (induction "'' ''" ws rule: join.induct)
    case (2 x)
    then show ?case using fields_aux_graphic [of x "[]" "[]"] by simp
  next
    case (3 x y ys)
    have "fields_aux [] (join '' '' (x # y # ys)) = fields_aux (rev x) (CHR '' '' # join '' '' (y # ys))"
      using "3.prems" fields_aux_graphic [of x "[]" "CHR '' '' # join '' '' (y # ys)"] by simp
    also have "\<dots> = x # fields_aux [] (join '' '' (y # ys))"
      using "3.prems" by (subst fields_aux_space [OF sp]) simp
    also have "\<dots> = x # y # ys"
      using "3.prems" "3.hyps" by simp
    finally show ?case .
  qed simp
  then show ?thesis by (simp add: Fields_def)
qed

lemma join_snoc: "ws \<noteq> [] \<Longrightarrow> join sep (ws @ [w]) = join sep ws @ sep @ w"
proof (induction sep ws rule: join.induct)
  case (3 sep x y ys)
  then show ?case by simp
qed simp_all

section \<open>Prefixes, suffixes, substrings\<close>

definition HasPrefix :: "string \<Rightarrow> string \<Rightarrow> bool" where
  "HasPrefix s p = prefix p s"

definition HasSuffix :: "string \<Rightarrow> string \<Rightarrow> bool" where
  "HasSuffix s p = prefix (rev p) (rev s)"

lemma HasSuffix_suffix: "HasSuffix s p = suffix p s"
  by (simp add: HasSuffix_def suffix_to_prefix)

definition TrimSuffix :: "string \<Rightarrow> string \<Rightarrow> string" where
  "TrimSuffix s x = (if HasSuffix s x then take (length s - length x) s else s)"

text \<open>\<open>strings.Index\<close>: the first position of \<open>sub\<close>, \<open>None\<close> for -1.\<close>

fun Index :: "string \<Rightarrow> string \<Rightarrow> nat option" where
  "Index [] sub = (if sub = [] then Some 0 else None)"
| "Index (x # xs) sub =
     (if HasPrefix (x # xs) sub then Some 0 else map_option Suc (Index xs sub))"

definition Contains :: "string \<Rightarrow> string \<Rightarrow> bool" where
  "Contains s sub = (Index s sub \<noteq> None)"

definition ContainsAny :: "string \<Rightarrow> string \<Rightarrow> bool" where
  "ContainsAny s cs = list_ex (\<lambda>c. List.member cs c) s"

lemma ContainsAny_iff: "ContainsAny s cs \<longleftrightarrow> (\<exists>c\<in>set s. c \<in> set cs)"
  by (auto simp: ContainsAny_def list_ex_iff)

lemma HasPrefix_simps [simp]:
  "HasPrefix s []" "\<not> HasPrefix [] (a # p)"
  "HasPrefix (b # s) (a # p) \<longleftrightarrow> a = b \<and> HasPrefix s p"
  by (auto simp: HasPrefix_def)

lemma HasPrefix_append: "HasPrefix s p \<longleftrightarrow> (\<exists>t. s = p @ t)"
  by (simp add: HasPrefix_def prefix_def)

lemma HasSuffix_append: "HasSuffix s p \<longleftrightarrow> (\<exists>t. s = t @ p)"
  by (simp add: HasSuffix_suffix suffix_def)

section \<open>strconv\<close>

definition digit_value :: "char \<Rightarrow> nat" where
  "digit_value c = byte c - 48"

fun digits_value :: "nat \<Rightarrow> string \<Rightarrow> nat" where
  "digits_value n [] = n"
| "digits_value n (c # cs) = digits_value (10 * n + digit_value c) cs"

text \<open>\<open>strconv.ParseUint(s, 10, bits)\<close>: digits only, in range.\<close>

definition ParseUint10 :: "string \<Rightarrow> nat \<Rightarrow> nat option" where
  "ParseUint10 s bits =
     (if s \<noteq> [] \<and> list_all is_digit s \<and> digits_value 0 s < 2 ^ bits
      then Some (digits_value 0 s) else None)"

text \<open>\<open>strconv.Atoi\<close> with a 64-bit \<open>int\<close>: an optional sign, digits, in range.\<close>

definition Atoi :: "string \<Rightarrow> int option" where
  "Atoi s =
     (let (neg, d) = (case s of [] \<Rightarrow> (False, [])
                      | c # cs \<Rightarrow> if c = CHR ''-'' then (True, cs)
                                 else if c = CHR ''+'' then (False, cs) else (False, c # cs));
          n = int (digits_value 0 d);
          v = (if neg then - n else n)
      in if d \<noteq> [] \<and> list_all is_digit d \<and> - (2 ^ 63) \<le> v \<and> v < 2 ^ 63 then Some v else None)"

text \<open>\<open>%d\<close> of a natural number.\<close>

fun dec :: "nat \<Rightarrow> string" where
  "dec n = (if n < 10 then [char_of (48 + n)] else dec (n div 10) @ [char_of (48 + n mod 10)])"

declare dec.simps [simp del]

text \<open>\<open>strconv.Itoa\<close>, and \<open>%d\<close> of an \<open>int\<close>.\<close>

definition Itoa :: "int \<Rightarrow> string" where
  "Itoa i = (if i < 0 then CHR ''-'' # dec (nat (- i)) else dec (nat i))"

lemma dec_neq [simp]: "dec n \<noteq> []"
  by (subst dec.simps) simp

lemma digits_value_append: "digits_value n (xs @ [c]) = 10 * digits_value n xs + digit_value c"
  by (induction xs arbitrary: n) auto

lemma dec_digits: "list_all is_digit (dec n)"
proof (induction n rule: dec.induct)
  case (1 n)
  then show ?case
    by (subst dec.simps) (auto simp: is_digit_def [of "char_of _"] of_char_of)
qed

lemma digits_value_dec: "digits_value 0 (dec n) = n"
proof (induction n rule: dec.induct)
  case (1 n)
  then show ?case
    by (subst dec.simps) (auto simp: digits_value_append digit_value_def of_char_of)
qed

lemma is_digit_graphic [go_bytes]: "is_digit c \<Longrightarrow> graphic c"
  by (simp add: is_digit_def graphic_def)

section \<open>Hexadecimal and octal digits\<close>

definition hex_lower :: "nat \<Rightarrow> char" where
  "hex_lower n = (if n < 10 then char_of (48 + n) else char_of (87 + n))"

definition hex_upper :: "nat \<Rightarrow> char" where
  "hex_upper n = (if n < 10 then char_of (48 + n) else char_of (55 + n))"

text \<open>\<open>hex.EncodeToString\<close>.\<close>

fun hex_encode :: "string \<Rightarrow> string" where
  "hex_encode [] = []"
| "hex_encode (c # cs) = hex_lower (byte c div 16) # hex_lower (byte c mod 16) # hex_encode cs"

lemma hex_encode_graphic: "list_all graphic (hex_encode s)"
proof (induction s)
  case (Cons c cs)
  have "byte c div 16 < 16" by (rule byte_div16)
  with Cons show ?case
    by (auto simp: graphic_def hex_lower_def of_char_of)
qed simp

lemma length_hex_encode [simp]: "length (hex_encode s) = 2 * length s"
  by (induction s) auto

lemma hex_lower_inj: "m < 16 \<Longrightarrow> n < 16 \<Longrightarrow> hex_lower m = hex_lower n \<Longrightarrow> m = n"
proof -
  assume *: "m < 16" "n < 16" "hex_lower m = hex_lower n"
  then have "byte (hex_lower m) = byte (hex_lower n)" by simp
  with * show "m = n"
    by (auto simp: hex_lower_def of_char_of split: if_splits)
qed

lemma hex_encode_inj: "hex_encode s = hex_encode t \<Longrightarrow> s = t"
proof (induction s arbitrary: t)
  case Nil
  then show ?case by (cases t) auto
next
  case (Cons c cs)
  then obtain d ds where t: "t = d # ds" by (cases t) auto
  have lt: "byte c div 16 < 16" "byte d div 16 < 16"
    by (rule byte_div16)+
  from Cons.prems t have "byte c div 16 = byte d div 16" "byte c mod 16 = byte d mod 16"
    using hex_lower_inj lt by auto
  then have "c = d" by (metis div_mult_mod_eq byte_inject)
  with Cons t show ?case by auto
qed

text \<open>Words of graphic bytes joined by spaces: the ends, and no line feed inside.\<close>

lemma join_graphic_ends:
  assumes "\<forall>w\<in>set ws. w \<noteq> [] \<and> list_all graphic w" and "ws \<noteq> []"
  shows "join '' '' ws \<noteq> [] \<and> graphic (hd (join '' '' ws)) \<and> graphic (last (join '' '' ws))"
  using assms
proof (induction "'' ''" ws rule: join.induct)
  case (2 x)
  then show ?case by (auto simp: list_all_iff)
next
  case (3 x y ys)
  then have "x \<noteq> []" "graphic (hd x)" by (auto simp: list_all_iff)
  with 3 show ?case by simp
qed simp

lemma join_graphic_NL:
  assumes "\<forall>w\<in>set ws. w \<noteq> [] \<and> list_all graphic w"
  shows "NL \<notin> set (join '' '' ws)"
  using assms
proof (induction "'' ''" ws rule: join.induct)
  case (2 x)
  then show ?case by (auto simp: list_all_iff graphic_def)
next
  case (3 x y ys)
  then have "NL \<notin> set x" by (auto simp: list_all_iff graphic_def)
  with 3 show ?case by simp
qed simp

lemma TrimSpace_snoc_space:
  assumes "s \<noteq> [] \<and> graphic (hd s) \<and> graphic (last s)" and "ascii_space c"
  shows "TrimSpace (s @ [c]) = TrimSpace s"
proof -
  obtain a t where "s = a # t" "graphic a" using assms(1) by (cases s) auto
  then have "trim_left (s @ [c]) = s @ [c]" "trim_left s = s" by (simp_all add: trim_left_id)
  with assms(2) show ?thesis by (simp add: TrimSpace_def)
qed

text \<open>The value of a hexadecimal digit, \<open>None\<close> for any other byte.\<close>

definition unhex :: "char \<Rightarrow> nat option" where
  "unhex c =
     (if is_digit c then Some (byte c - 48)
      else if 97 \<le> byte c \<and> byte c \<le> 102 then Some (byte c - 87)
      else if 65 \<le> byte c \<and> byte c \<le> 70 then Some (byte c - 55)
      else None)"

lemma unhex_hex_upper: "n < 16 \<Longrightarrow> unhex (hex_upper n) = Some n"
  by (auto simp: unhex_def hex_upper_def is_digit_def)

lemma unhex_hex_lower: "n < 16 \<Longrightarrow> unhex (hex_lower n) = Some n"
  by (auto simp: unhex_def hex_lower_def is_digit_def)

end
