(* ===== verification/Shellproto.thy ===== *)
theory Shellproto
  imports Go_Prelude
begin

text \<open>
  \<open>internal/shellproto/shellproto.go\<close>: the KEY=VALUE protocol in which the Go programs hand
  state to the bash launcher, and the bash reader \<open>shellproto_field\<close> of
  \<open>scripts/lib/shellproto.sh\<close>. An \<open>io.Writer\<close> is an interface, so its \<open>Write\<close> is an
  argument of the model: it returns an error, if any, and the writer's next state. The locale
  \<open>appending_writer\<close> states what the callers expect of it; \<open>bytes.Buffer\<close> interprets it.
\<close>

section \<open>Writers\<close>

locale appending_writer =
  fixes Write :: "'w \<Rightarrow> string \<Rightarrow> 'e option \<times> 'w"
    and contents :: "'w \<Rightarrow> string"
  assumes write_ok: "Write w s = (None, w') \<Longrightarrow> contents w' = contents w @ s"

text \<open>\<open>bytes.Buffer\<close>: the writes are collected and never fail.\<close>

definition buffer_Write :: "string \<Rightarrow> string \<Rightarrow> unit option \<times> string" where
  "buffer_Write w s = (None, w @ s)"

interpretation buffer: appending_writer buffer_Write id
  by unfold_locales (simp add: buffer_Write_def)

section \<open>The encoder\<close>

record Field =
  Key :: string
  Value :: string

datatype 'e shellproto_error =
    EmptyKey | BadKey string | BadValue string | WriteError 'e

definition validateKey :: "string \<Rightarrow> 'e shellproto_error option" where
  "validateKey key =
     (if key = [] then Some EmptyKey
      else if ContainsAny key [CHR ''='', NL, CR, NUL] then Some (BadKey key)
      else None)"

definition validateValue :: "string \<Rightarrow> 'e shellproto_error option" where
  "validateValue value =
     (if ContainsAny value [NL, CR, NUL] then Some (BadValue value) else None)"

definition WriteField ::
  "('w \<Rightarrow> string \<Rightarrow> 'e option \<times> 'w) \<Rightarrow> 'w \<Rightarrow> string \<Rightarrow> string \<Rightarrow> 'e shellproto_error option \<times> 'w" where
  "WriteField Write w key value =
     (case validateKey key of Some e \<Rightarrow> (Some e, w) | None \<Rightarrow>
       (case validateValue value of Some e \<Rightarrow> (Some e, w) | None \<Rightarrow>
         (case Write w (key @ ''='' @ value @ [NL]) of
            (None, w') \<Rightarrow> (None, w')
          | (Some e, w') \<Rightarrow> (Some (WriteError e), w'))))"

fun WriteFields ::
  "('w \<Rightarrow> string \<Rightarrow> 'e option \<times> 'w) \<Rightarrow> 'w \<Rightarrow> Field list \<Rightarrow> 'e shellproto_error option \<times> 'w" where
  "WriteFields Write w [] = (None, w)"
| "WriteFields Write w (f # fs) =
     (case WriteField Write w (Key f) (Value f) of
        (Some e, w') \<Rightarrow> (Some e, w')
      | (None, w') \<Rightarrow> WriteFields Write w' fs)"

section \<open>The reader\<close>

text \<open>
  \<open>shellproto_field plan key default\<close> reads \<open>plan\<close> line by line. The callers pass the
  output of a command substitution, which has its trailing newlines removed
  (\<open>strip_trailing_newlines\<close>).
\<close>

fun shellproto_lines :: "string list \<Rightarrow> string \<Rightarrow> string \<Rightarrow> string" where
  "shellproto_lines [] target_key default_value = default_value"
| "shellproto_lines (line # ls) target_key default_value =
     (case cut CHR ''='' line of
        None \<Rightarrow> shellproto_lines ls target_key default_value
      | Some (key, value) \<Rightarrow>
          if key = target_key then value else shellproto_lines ls target_key default_value)"

definition shellproto_field :: "string \<Rightarrow> string \<Rightarrow> string \<Rightarrow> string" where
  "shellproto_field plan target_key default_value =
     shellproto_lines (split_on NL plan) target_key default_value"

definition strip_trailing_newlines :: "string \<Rightarrow> string" where
  "strip_trailing_newlines s = rev (dropWhile (\<lambda>c. c = NL) (rev s))"

section \<open>Well-formed fields\<close>

definition ok_field :: "Field \<Rightarrow> bool" where
  "ok_field f \<longleftrightarrow> Key f \<noteq> [] \<and> set (Key f) \<inter> {CHR ''='', NL, CR, NUL} = {}
                 \<and> set (Value f) \<inter> {NL, CR, NUL} = {}"

definition field_line :: "Field \<Rightarrow> string" where
  "field_line f = Key f @ ''='' @ Value f"

lemma validateKey_None:
  "validateKey k = None \<longleftrightarrow> k \<noteq> [] \<and> set k \<inter> {CHR ''='', NL, CR, NUL} = {}"
  by (auto simp: validateKey_def ContainsAny_iff)

lemma validateValue_None: "validateValue v = None \<longleftrightarrow> set v \<inter> {NL, CR, NUL} = {}"
  by (auto simp: validateValue_def ContainsAny_iff)

text \<open>A rejected field leaves the writer as it was; an accepted one was well formed.\<close>

lemma WriteField_reject:
  fixes Write :: "'w \<Rightarrow> string \<Rightarrow> 'e option \<times> 'w"
  assumes "\<not> ok_field f"
  shows "\<exists>e. \<forall>w. WriteField Write w (Key f) (Value f) = (Some e, w)"
proof (cases "validateKey (Key f) :: 'e shellproto_error option")
  case None
  then obtain e where "validateValue (Value f) = Some (e :: 'e shellproto_error)"
    using assms validateKey_None [of "Key f"] validateValue_None [of "Value f"]
    unfolding ok_field_def by (metis option.exhaust)
  with None show ?thesis by (simp add: WriteField_def)
qed (simp add: WriteField_def)

lemma WriteField_ok:
  "ok_field f \<Longrightarrow> WriteField Write w (Key f) (Value f) =
     (case Write w (field_line f @ [NL]) of (None, w') \<Rightarrow> (None, w')
      | (Some e, w') \<Rightarrow> (Some (WriteError e), w'))"
  by (auto simp: WriteField_def field_line_def validateKey_def validateValue_def ContainsAny_iff
      ok_field_def)

lemma WriteField_buffer:
  "ok_field f \<Longrightarrow> WriteField buffer_Write w (Key f) (Value f) = (None, w @ field_line f @ [NL])"
  by (simp add: WriteField_ok buffer_Write_def [of w "field_line f @ [NL]"])

context appending_writer
begin

lemma WriteField_appends:
  "WriteField Write w (Key f) (Value f) = (None, w') \<Longrightarrow>
   ok_field f \<and> contents w' = contents w @ field_line f @ [NL]"
  using WriteField_reject [of f Write]
  by (cases "ok_field f") (auto simp: WriteField_ok split: prod.splits option.splits dest: write_ok)

lemma WriteFields_appends:
  "WriteFields Write w fs = (None, w') \<Longrightarrow>
   list_all ok_field fs \<and> contents w' = contents w @ concat (map (\<lambda>f. field_line f @ [NL]) fs)"
proof (induction fs arbitrary: w)
  case (Cons f fs)
  then obtain w1 where w1: "WriteField Write w (Key f) (Value f) = (None, w1)"
    and rest: "WriteFields Write w1 fs = (None, w')"
    by (auto split: prod.splits option.splits)
  from WriteField_appends [OF w1] Cons.IH [OF rest] show ?case by simp
qed simp

end

section \<open>What the reader sees\<close>

lemma field_line_cut: "ok_field f \<Longrightarrow> cut CHR ''='' (field_line f) = Some (Key f, Value f)"
  by (auto simp: ok_field_def field_line_def)

lemma field_line_no_NL: "ok_field f \<Longrightarrow> NL \<notin> set (field_line f)"
  by (auto simp: ok_field_def field_line_def)

lemma split_plan:
  "list_all ok_field fs \<Longrightarrow>
   split_on NL (concat (map (\<lambda>f. field_line f @ [NL]) fs)) = map field_line fs @ [[]]"
  by (induction fs) (auto simp: field_line_no_NL split_on_append)

lemma concat_lines_snoc:
  "concat (map (\<lambda>f. field_line f @ [NL]) (fs @ [f])) =
   join [NL] (map field_line (fs @ [f])) @ [NL]"
proof (induction fs)
  case (Cons g gs)
  then show ?case by (cases gs) auto
qed simp

lemma strip_plan:
  assumes "list_all ok_field fs"
  shows "strip_trailing_newlines (concat (map (\<lambda>f. field_line f @ [NL]) fs)) =
         join [NL] (map field_line fs)"
proof (cases fs rule: rev_cases)
  case (snoc gs g)
  have last: "field_line g \<noteq> []" "NL \<notin> set (field_line g)"
    using assms snoc by (auto simp: field_line_no_NL field_line_def ok_field_def)
  have j: "join [NL] (map field_line (gs @ [g])) =
      (if gs = [] then field_line g else join [NL] (map field_line gs) @ [NL] @ field_line g)"
    by (simp add: join_snoc)
  from last obtain c t where c: "rev (field_line g) = c # t" "c \<noteq> NL"
    by (cases "rev (field_line g)") (force, metis list.set_intros(1) set_rev)
  have "dropWhile (\<lambda>c. c = NL) (rev (join [NL] (map field_line (gs @ [g])))) =
        rev (join [NL] (map field_line (gs @ [g])))"
    unfolding j using c by simp
  then show ?thesis
    unfolding snoc concat_lines_snoc strip_trailing_newlines_def by simp
qed (simp add: strip_trailing_newlines_def)

lemma shellproto_lines_map_of:
  "list_all ok_field fs \<Longrightarrow>
   shellproto_lines (map field_line fs) k d =
   (case map_of (map (\<lambda>f. (Key f, Value f)) fs) k of Some v \<Rightarrow> v | None \<Rightarrow> d)"
  by (induction fs) (auto simp: field_line_cut)

lemma plan_lookup:
  assumes "list_all ok_field fs" and "fs \<noteq> []"
  shows "shellproto_field (join [NL] (map field_line fs)) k d =
         (case map_of (map (\<lambda>f. (Key f, Value f)) fs) k of Some v \<Rightarrow> v | None \<Rightarrow> d)"
proof -
  have "split_on NL (join [NL] (map field_line fs)) = map field_line fs"
    using assms by (intro split_on_join) (auto simp: list_all_iff field_line_no_NL)
  then show ?thesis
    using assms by (simp add: shellproto_field_def shellproto_lines_map_of)
qed

section \<open>Properties\<close>

text \<open>
  C16: the bash reader recovers exactly what the Go writer was given. When \<open>WriteFields\<close>
  succeeds on a buffer, \<open>shellproto_field\<close> over the captured output returns, for every key,
  the value of the first field with that key, and the default when there is none; no value
  can forge a second record.
\<close>

theorem shellproto_roundtrip:
  assumes "WriteFields buffer_Write [] fs = (None, out)"
  shows "shellproto_field (strip_trailing_newlines out) k d =
         (case map_of (map (\<lambda>f. (Key f, Value f)) fs) k of Some v \<Rightarrow> v | None \<Rightarrow> d)"
proof -
  from buffer.WriteFields_appends [OF assms]
  have ok: "list_all ok_field fs" and out: "out = concat (map (\<lambda>f. field_line f @ [NL]) fs)"
    by simp_all
  show ?thesis
  proof (cases "fs = []")
    case True
    with out show ?thesis
      by (simp add: strip_trailing_newlines_def shellproto_field_def)
  next
    case False
    with ok show ?thesis unfolding out strip_plan [OF ok] by (rule plan_lookup)
  qed
qed

theorem shellproto_roundtrip_witness:
  "shellproto_field (strip_trailing_newlines
     (snd (WriteFields buffer_Write [] [\<lparr>Key = ''force'', Value = ''a=b''\<rparr>]))) ''force'' ''0'' = ''a=b''"
proof -
  have "WriteFields buffer_Write [] [\<lparr>Key = ''force'', Value = ''a=b''\<rparr>] =
        (None, ''force=a=b'' @ [NL])"
    by (simp add: WriteField_def validateKey_def validateValue_def ContainsAny_def buffer_Write_def)
  from shellproto_roundtrip [OF this, of "''force''" "''0''"] this show ?thesis
    by simp
qed

text \<open>
  The writer is fail-closed. It writes a field only when key and value are free of the
  bytes the reader cannot survive; a field it refuses changes nothing, and whatever it did
  write before the refusal is whole records of the earlier fields.
\<close>

theorem WriteFields_fail_closed:
  "WriteFields buffer_Write w fs =
     (if list_all ok_field fs
      then (None, w @ concat (map (\<lambda>f. field_line f @ [NL]) fs))
      else (fst (WriteField buffer_Write [] (Key (hd (dropWhile ok_field fs)))
                                            (Value (hd (dropWhile ok_field fs)))),
            w @ concat (map (\<lambda>f. field_line f @ [NL]) (takeWhile ok_field fs))))"
proof (induction fs arbitrary: w)
  case (Cons f fs)
  show ?case
  proof (cases "ok_field f")
    case True
    then show ?thesis
      by (simp add: WriteField_buffer Cons.IH)
  next
    case False
    then obtain e where "\<forall>w. WriteField buffer_Write w (Key f) (Value f) = (Some e, w)"
      using WriteField_reject by blast
    with False show ?thesis by simp
  qed
qed simp

end
