(* ===== verification/Go_Runes.thy ===== *)
theory Go_Runes
  imports Go_Prelude
begin

text \<open>
  Runes and their UTF-8 encoding, as Go's \<open>range\<close> loops, \<open>[]rune\<close> conversions and
  \<open>strings.Builder.WriteRune\<close> use them. A rune is a natural number; an invalid byte decodes
  to U+FFFD with width one.
\<close>

type_synonym rune = nat

abbreviation RuneError :: rune where
  "RuneError \<equiv> 0xFFFD"

definition ValidRune :: "rune \<Rightarrow> bool" where
  "ValidRune r \<longleftrightarrow> r < 0xD800 \<or> (0xDFFF < r \<and> r \<le> 0x10FFFF)"

definition cont :: "char \<Rightarrow> bool" where
  "cont c \<longleftrightarrow> 0x80 \<le> byte c \<and> byte c \<le> 0xBF"

text \<open>The accepted second bytes for a given first byte of a three or four byte rune.\<close>

definition accept2 :: "nat \<Rightarrow> char \<Rightarrow> bool" where
  "accept2 b0 c =
     (if b0 = 0xE0 then 0xA0 \<le> byte c \<and> byte c \<le> 0xBF
      else if b0 = 0xED then 0x80 \<le> byte c \<and> byte c \<le> 0x9F
      else if b0 = 0xF0 then 0x90 \<le> byte c \<and> byte c \<le> 0xBF
      else if b0 = 0xF4 then 0x80 \<le> byte c \<and> byte c \<le> 0x8F
      else cont c)"

definition DecodeRune :: "string \<Rightarrow> rune \<times> nat" where
  "DecodeRune s =
     (case s of [] \<Rightarrow> (RuneError, 0)
      | a # t \<Rightarrow>
          let b0 = byte a in
          if b0 < 0x80 then (b0, 1)
          else if 0xC2 \<le> b0 \<and> b0 \<le> 0xDF then
            (case t of b # _ \<Rightarrow> if cont b then ((b0 - 0xC0) * 64 + (byte b - 0x80), 2)
                              else (RuneError, 1)
             | _ \<Rightarrow> (RuneError, 1))
          else if 0xE0 \<le> b0 \<and> b0 \<le> 0xEF then
            (case t of b # c # _ \<Rightarrow>
                if accept2 b0 b \<and> cont c
                then ((b0 - 0xE0) * 4096 + (byte b - 0x80) * 64 + (byte c - 0x80), 3)
                else (RuneError, 1)
             | _ \<Rightarrow> (RuneError, 1))
          else if 0xF0 \<le> b0 \<and> b0 \<le> 0xF4 then
            (case t of b # c # d # _ \<Rightarrow>
                if accept2 b0 b \<and> cont c \<and> cont d
                then ((b0 - 0xF0) * 262144 + (byte b - 0x80) * 4096
                       + (byte c - 0x80) * 64 + (byte d - 0x80), 4)
                else (RuneError, 1)
             | _ \<Rightarrow> (RuneError, 1))
          else (RuneError, 1))"

definition EncodeRune :: "rune \<Rightarrow> string" where
  "EncodeRune r =
     (if r < 0x80 then [char_of r]
      else if r < 0x800 then [char_of (0xC0 + r div 64), char_of (0x80 + r mod 64)]
      else if \<not> ValidRune r then [char_of (0xEF::nat), char_of (0xBF::nat), char_of (0xBD::nat)]
      else if r < 0x10000 then
        [char_of (0xE0 + r div 4096), char_of (0x80 + r div 64 mod 64), char_of (0x80 + r mod 64)]
      else
        [char_of (0xF0 + r div 262144), char_of (0x80 + r div 4096 mod 64),
         char_of (0x80 + r div 64 mod 64), char_of (0x80 + r mod 64)])"

lemma DecodeRune_pos: "s \<noteq> [] \<Longrightarrow> 0 < snd (DecodeRune s) \<and> snd (DecodeRune s) \<le> length s"
  by (auto simp: DecodeRune_def Let_def split: list.splits)

text \<open>\<open>[]rune(s)\<close>.\<close>

function runes :: "string \<Rightarrow> rune list" where
  "runes [] = []"
| "runes (a # t) = fst (DecodeRune (a # t)) # runes (drop (snd (DecodeRune (a # t))) (a # t))"
  by pat_completeness auto
termination
  using DecodeRune_pos by (relation "measure length") auto

text \<open>\<open>string(rs)\<close>, and a builder filled with \<open>WriteRune\<close>.\<close>

definition of_runes :: "rune list \<Rightarrow> string" where
  "of_runes rs = concat (map EncodeRune rs)"

lemma of_runes_simps [simp]:
  "of_runes [] = []" "of_runes (r # rs) = EncodeRune r @ of_runes rs"
  "of_runes (rs @ rs') = of_runes rs @ of_runes rs'"
  by (simp_all add: of_runes_def)

lemma EncodeRune_neq [simp]: "EncodeRune r \<noteq> []"
  by (simp add: EncodeRune_def)

lemma EncodeRune_ascii [simp]: "r < 0x80 \<Longrightarrow> EncodeRune r = [char_of r]"
  by (simp add: EncodeRune_def)

lemma byte_char_of_mod [simp]: "byte (char_of n) = n mod 256"
  by (simp add: of_char_of)

lemma base64_digits:
  fixes r :: nat
  shows "r div 4096 * 4096 + r div 64 mod 64 * 64 + r mod 64 = r"
    and "r div 262144 * 262144 + r div 4096 mod 64 * 4096 + r div 64 mod 64 * 64 + r mod 64 = r"
proof -
  have a: "r div 64 * 64 + r mod 64 = r" by simp
  have b: "r div 4096 * 64 + r div 64 mod 64 = r div 64"
    using div_mult_mod_eq [of "r div 64" 64] by (simp flip: div_mult2_eq)
  have c: "r div 262144 * 64 + r div 4096 mod 64 = r div 4096"
    using div_mult_mod_eq [of "r div 4096" 64] by (simp flip: div_mult2_eq)
  show "r div 4096 * 4096 + r div 64 mod 64 * 64 + r mod 64 = r"
    using a b by linarith
  show "r div 262144 * 262144 + r div 4096 mod 64 * 4096 + r div 64 mod 64 * 64 + r mod 64 = r"
    using a b c by linarith
qed

lemma DecodeRune_bytes2:
  "2 \<le> a \<Longrightarrow> a < 32 \<Longrightarrow> b < 64 \<Longrightarrow>
   DecodeRune (char_of (0xC0 + a) # char_of (0x80 + b) # s) = (a * 64 + b, 2)"
  by (simp add: DecodeRune_def cont_def Let_def)

lemma DecodeRune_bytes3:
  "a < 16 \<Longrightarrow> b < 64 \<Longrightarrow> c < 64 \<Longrightarrow> a = 0 \<longrightarrow> 0x20 \<le> b \<Longrightarrow> a = 13 \<longrightarrow> b < 0x20 \<Longrightarrow>
   DecodeRune (char_of (0xE0 + a) # char_of (0x80 + b) # char_of (0x80 + c) # s) =
     (a * 4096 + b * 64 + c, 3)"
  by (auto simp: DecodeRune_def cont_def accept2_def Let_def)

lemma DecodeRune_bytes4:
  "a < 5 \<Longrightarrow> b < 64 \<Longrightarrow> c < 64 \<Longrightarrow> d < 64 \<Longrightarrow> a = 0 \<longrightarrow> 0x10 \<le> b \<Longrightarrow> a = 4 \<longrightarrow> b < 0x10 \<Longrightarrow>
   DecodeRune (char_of (0xF0 + a) # char_of (0x80 + b) # char_of (0x80 + c) # char_of (0x80 + d) # s) =
     (a * 262144 + b * 4096 + c * 64 + d, 4)"
  by (auto simp: DecodeRune_def cont_def accept2_def Let_def)

lemma DecodeRune_EncodeRune:
  assumes "ValidRune r"
  shows "DecodeRune (EncodeRune r @ s) = (r, length (EncodeRune r))"
proof -
  consider "r < 0x80" | "0x80 \<le> r" "r < 0x800" | "0x800 \<le> r" "r < 0x10000" | "0x10000 \<le> r"
    by linarith
  then show ?thesis
  proof cases
    case 1
    then show ?thesis by (simp add: DecodeRune_def)
  next
    case 2
    then have "2 \<le> r div 64" "r div 64 < 32" "r mod 64 < 64" by simp_all
    moreover have "r div 64 * 64 + r mod 64 = r" by simp
    moreover have "EncodeRune r = [char_of (0xC0 + r div 64), char_of (0x80 + r mod 64)]"
      using 2 by (simp add: EncodeRune_def)
    ultimately show ?thesis using DecodeRune_bytes2 [of "r div 64" "r mod 64" s] by simp
  next
    case 3
    then have q: "r div 4096 < 16" by simp
    note e = base64_digits(1) [of r]
    have m: "r mod 64 < 64" "r div 64 mod 64 < 64" by simp_all
    have lo: "r div 4096 = 0 \<Longrightarrow> 0x20 \<le> r div 64 mod 64" using 3 e m by linarith
    have su: "r div 4096 = 13 \<Longrightarrow> r div 64 mod 64 < 0x20"
      using e m assms unfolding ValidRune_def by linarith
    have enc: "EncodeRune r = [char_of (0xE0 + r div 4096), char_of (0x80 + r div 64 mod 64),
                               char_of (0x80 + r mod 64)]"
      using 3 assms by (simp add: EncodeRune_def)
    show ?thesis unfolding enc
      using DecodeRune_bytes3 [OF q m(2) m(1)] lo su e by simp
  next
    case 4
    then have q: "r div 262144 < 5" using assms by (auto simp: ValidRune_def)
    note e = base64_digits(2) [of r]
    have m: "r mod 64 < 64" "r div 64 mod 64 < 64" "r div 4096 mod 64 < 64" by simp_all
    have lo: "r div 262144 = 0 \<Longrightarrow> 0x10 \<le> r div 4096 mod 64" using 4 e m by linarith
    have hi: "r div 262144 = 4 \<Longrightarrow> r div 4096 mod 64 < 0x10"
      using e m assms unfolding ValidRune_def by linarith
    have enc: "EncodeRune r = [char_of (0xF0 + r div 262144), char_of (0x80 + r div 4096 mod 64),
                               char_of (0x80 + r div 64 mod 64), char_of (0x80 + r mod 64)]"
      using 4 assms by (simp add: EncodeRune_def)
    show ?thesis unfolding enc
      using DecodeRune_bytes4 [OF q m(3) m(2) m(1)] lo hi e by simp
  qed
qed

lemma runes_EncodeRune: "ValidRune r \<Longrightarrow> runes (EncodeRune r @ s) = r # runes s"
proof -
  assume "ValidRune r"
  then have d: "DecodeRune (EncodeRune r @ s) = (r, length (EncodeRune r))"
    by (rule DecodeRune_EncodeRune)
  obtain a t where at: "EncodeRune r @ s = a # t" by (cases "EncodeRune r @ s") auto
  show ?thesis
    unfolding at runes.simps d [unfolded at] by (simp flip: at)
qed

lemma runes_of_runes: "list_all ValidRune rs \<Longrightarrow> runes (of_runes rs) = rs"
  by (induction rs) (auto simp: runes_EncodeRune)

text \<open>Valid UTF-8 text: re-encoding its runes gives it back (\<open>utf8.ValidString\<close>).\<close>

definition ValidString :: "string \<Rightarrow> bool" where
  "ValidString s \<longleftrightarrow> of_runes (runes s) = s"

lemma rune3_Valid:
  assumes "0xE0 \<le> a" "a \<le> 0xEF" "0x80 \<le> b" "b \<le> 0xBF" "0x80 \<le> c" "c \<le> (0xBF :: nat)"
    and "a = 0xED \<Longrightarrow> b \<le> 0x9F"
  shows "ValidRune ((a - 0xE0) * 4096 + (b - 0x80) * 64 + c - 0x80)"
proof -
  obtain x y z where x: "a = 0xE0 + x" "b = 0x80 + y" "c = 0x80 + z"
    using assms by (metis le_Suc_ex)
  consider "x < 13" | "x = 13" "y \<le> 31" | "13 < x" using assms x by fastforce
  then show ?thesis using assms(2,4,6) x unfolding ValidRune_def by cases auto
qed

lemma rune4_Valid:
  assumes "0xF0 \<le> a" "a \<le> 0xF4" "0x80 \<le> b" "b \<le> 0xBF" "0x80 \<le> c" "c \<le> (0xBF :: nat)"
    "0x80 \<le> d" "d \<le> (0xBF :: nat)" and "a = 0xF0 \<Longrightarrow> 0x90 \<le> b" "a = 0xF4 \<Longrightarrow> b \<le> 0x8F"
  shows "ValidRune ((a - 0xF0) * 262144 + (b - 0x80) * 4096 + (c - 0x80) * 64 + d - 0x80)"
proof -
  obtain x y z w where x: "a = 0xF0 + x" "b = 0x80 + y" "c = 0x80 + z" "d = 0x80 + w"
    using assms by (metis le_Suc_ex)
  consider "x = 0" "16 \<le> y" | "1 \<le> x" "x < 4" | "x = 4" "y \<le> 15" using assms x by fastforce
  then show ?thesis using assms(2,4,6,8) x unfolding ValidRune_def by cases auto
qed

lemma accept2_bounds:
  assumes "accept2 a b"
  shows "0x80 \<le> byte b" "byte b \<le> 0xBF" "a = 0xED \<Longrightarrow> byte b \<le> 0x9F"
    "a = 0xF0 \<Longrightarrow> 0x90 \<le> byte b" "a = 0xF4 \<Longrightarrow> byte b \<le> 0x8F"
  using assms by (auto simp: accept2_def cont_def split: if_splits)

lemma ValidRune_low: "r < 0xD800 \<Longrightarrow> ValidRune r" "ValidRune RuneError"
  by (simp_all add: ValidRune_def)

lemma DecodeRune_Valid: "s \<noteq> [] \<Longrightarrow> ValidRune (fst (DecodeRune s))"
proof (cases s)
  case (Cons a t)
  consider "byte a < 0x80" | "0xC2 \<le> byte a" "byte a \<le> 0xDF" | "0xE0 \<le> byte a" "byte a \<le> 0xEF"
    | "0xF0 \<le> byte a" "byte a \<le> 0xF4"
    | "0x80 \<le> byte a" "byte a < 0xC2 \<or> 0xF4 < byte a"
    by linarith
  then show ?thesis
  proof cases
    case 2
    then show ?thesis unfolding Cons DecodeRune_def Let_def
      by (auto simp: ValidRune_low cont_def split: list.split intro!: ValidRune_low)
  next
    case 3
    then show ?thesis unfolding Cons DecodeRune_def Let_def
      by (auto simp: ValidRune_low cont_def split: list.split
          intro!: rune3_Valid dest: accept2_bounds)
  next
    case 4
    then show ?thesis unfolding Cons DecodeRune_def Let_def
      by (auto simp: ValidRune_low cont_def split: list.split
          intro!: rune4_Valid dest: accept2_bounds)
  qed (auto simp: Cons DecodeRune_def Let_def ValidRune_low)
qed simp

lemma runes_Valid: "list_all ValidRune (runes s)"
  by (induction s rule: runes.induct) (auto simp: DecodeRune_Valid)

lemma runes_ascii: "list_all (\<lambda>c. byte c < 0x80) s \<Longrightarrow> runes s = map byte s"
  by (induction s) (auto simp: DecodeRune_def)

lemma of_runes_ascii: "list_all (\<lambda>c. byte c < 0x80) s \<Longrightarrow> of_runes (map byte s) = s"
  by (induction s) auto

lemma ValidString_ascii: "list_all (\<lambda>c. byte c < 0x80) s \<Longrightarrow> ValidString s"
  by (simp add: ValidString_def runes_ascii of_runes_ascii)

lemma ValidString_of_runes: "list_all ValidRune rs \<Longrightarrow> ValidString (of_runes rs)"
  by (simp add: ValidString_def runes_of_runes)

text \<open>A valid encoding is the one encoding of its rune.\<close>

lemma char_of_byte [simp]: "char_of (byte c) = c"
  by simp

lemma base64_split: "b < 64 \<Longrightarrow> (a * 64 + b) mod 64 = b \<and> (a * 64 + b) div 64 = (a :: nat)"
  by simp

lemma EncodeRune_bytes2:
  assumes "2 \<le> x" "x < 32" "y < (64::nat)"
  shows "EncodeRune (x * 64 + y) = [char_of (0xC0 + x), char_of (0x80 + y)]"
  using assms by (simp add: EncodeRune_def)

lemma EncodeRune_bytes3:
  assumes "x < 16" "y < 64" "z < (64::nat)" "ValidRune (x * 4096 + y * 64 + z)"
    "x = 0 \<Longrightarrow> 0x20 \<le> y"
  shows "EncodeRune (x * 4096 + y * 64 + z) = [char_of (0xE0 + x), char_of (0x80 + y), char_of (0x80 + z)]"
proof -
  let ?r = "x * 4096 + y * 64 + z"
  have "?r = (x * 64 + y) * 64 + z" by simp
  then have "?r mod 64 = z" "?r div 64 = x * 64 + y" using assms(3) by (metis base64_split)+
  then have "?r div 64 mod 64 = y" "?r div 4096 = x"
    using assms div_mult2_eq [of ?r 64 64] by simp_all
  moreover have "0x800 \<le> ?r" "?r < 0x10000" using assms by (cases "x = 0"; simp)+
  ultimately show ?thesis using assms(4) \<open>?r mod 64 = z\<close> by (simp add: EncodeRune_def)
qed

lemma EncodeRune_bytes4:
  assumes "x < 5" "y < 64" "z < 64" "w < (64::nat)"
    "ValidRune (x * 262144 + y * 4096 + z * 64 + w)" "x = 0 \<Longrightarrow> 0x10 \<le> y"
  shows "EncodeRune (x * 262144 + y * 4096 + z * 64 + w) =
    [char_of (0xF0 + x), char_of (0x80 + y), char_of (0x80 + z), char_of (0x80 + w)]"
proof -
  let ?r = "x * 262144 + y * 4096 + z * 64 + w"
  have "?r = (x * 4096 + y * 64 + z) * 64 + w" by simp
  then have a: "?r mod 64 = w" "?r div 64 = x * 4096 + y * 64 + z"
    using assms(4) by (metis base64_split)+
  have "x * 4096 + y * 64 + z = (x * 64 + y) * 64 + z" by simp
  then have "(x * 4096 + y * 64 + z) mod 64 = z \<and> (x * 4096 + y * 64 + z) div 64 = x * 64 + y"
    using assms(3) by (metis base64_split)
  then have b: "?r div 64 mod 64 = z" "?r div 4096 = x * 64 + y"
    using a div_mult2_eq [of ?r 64 64] by simp_all
  then have c: "?r div 4096 mod 64 = y" "?r div 262144 = x"
    using assms div_mult2_eq [of ?r 4096 64] by simp_all
  have "0x10000 \<le> ?r" using assms by (cases "x = 0"; simp)
  then show ?thesis using assms(5) a b c by (simp add: EncodeRune_def)
qed

lemma cont_obtain:
  assumes "0x80 \<le> byte b" "byte b \<le> 0xBF"
  obtains y where "byte b = 0x80 + y" "y < 64" "b = char_of (0x80 + y)"
proof -
  have "byte b = 0x80 + (byte b - 0x80)" "byte b - 0x80 < 64" using assms by auto
  with that show thesis by (metis char_of_byte)
qed

lemma lead_obtain:
  assumes "k \<le> byte a"
  obtains x where "byte a = k + x" "a = char_of (k + x)"
  using assms that by (metis char_of_byte le_Suc_ex)

lemma EncodeRune_DecodeRune:
  assumes "DecodeRune s = (r, n)" "s \<noteq> []" "\<not> (r = RuneError \<and> n = 1)"
  shows "EncodeRune r = take n s"
proof -
  obtain a t where s: "s = a # t" using assms(2) by (cases s) auto
  have v: "ValidRune r" using DecodeRune_Valid [OF assms(2)] assms(1) by simp
  consider "byte a < 0x80" | "0xC2 \<le> byte a" "byte a \<le> 0xDF" | "0xE0 \<le> byte a" "byte a \<le> 0xEF"
    | "0xF0 \<le> byte a" "byte a \<le> 0xF4"
    | "0x80 \<le> byte a" "byte a < 0xC2 \<or> 0xF4 < byte a"
    by linarith
  then show ?thesis
  proof cases
    case 1
    then show ?thesis using assms(1) s by (auto simp: DecodeRune_def Let_def)
  next
    case 2
    obtain b u where t: "t = b # u" "cont b"
      using assms 2 s by (cases t) (auto simp: DecodeRune_def Let_def split: if_splits)
    obtain y where y: "byte b = 0x80 + y" "y < 64" "b = char_of (0x80 + y)"
      using t(2) cont_obtain unfolding cont_def by blast
    obtain x where x: "byte a = 0xC0 + x" "a = char_of (0xC0 + x)"
      using lead_obtain [of "0xC0" a] 2 by auto
    have "r = x * 64 + y" "n = 2" using assms(1) 2 s t x(1) y(1)
      by (auto simp: DecodeRune_def Let_def)
    then show ?thesis using EncodeRune_bytes2 [of x y] 2 x y s t by simp
  next
    case 3
    obtain b c u where t: "t = b # c # u" "accept2 (byte a) b" "cont c"
      using assms 3 s by (cases t rule: list.exhaust; cases "tl t" rule: list.exhaust)
        (auto simp: DecodeRune_def Let_def split: if_splits)
    obtain y where y: "byte b = 0x80 + y" "y < 64" "b = char_of (0x80 + y)"
      using t(2) accept2_bounds(1,2) cont_obtain by metis
    obtain z where z: "byte c = 0x80 + z" "z < 64" "c = char_of (0x80 + z)"
      using t(3) cont_obtain unfolding cont_def by blast
    obtain x where x: "byte a = 0xE0 + x" "a = char_of (0xE0 + x)"
      using lead_obtain [of "0xE0" a] 3 by auto
    have r: "r = x * 4096 + y * 64 + z" "n = 3" using assms(1) 3 s t x(1) y(1) z(1)
      by (auto simp: DecodeRune_def Let_def)
    have "x = 0 \<Longrightarrow> 0x20 \<le> y" using t(2) x(1) y(1) by (simp add: accept2_def)
    then show ?thesis using EncodeRune_bytes3 [of x y z] 3 v r x y z s t(1) by simp
  next
    case 4
    obtain b c d u where t: "t = b # c # d # u" "accept2 (byte a) b" "cont c" "cont d"
      using assms 4 s
      by (cases t rule: list.exhaust; cases "tl t" rule: list.exhaust; cases "tl (tl t)" rule: list.exhaust)
        (auto simp: DecodeRune_def Let_def split: if_splits)
    obtain y where y: "byte b = 0x80 + y" "y < 64" "b = char_of (0x80 + y)"
      using t(2) accept2_bounds(1,2) cont_obtain by metis
    obtain z where z: "byte c = 0x80 + z" "z < 64" "c = char_of (0x80 + z)"
      using t(3) cont_obtain unfolding cont_def by blast
    obtain w where w: "byte d = 0x80 + w" "w < 64" "d = char_of (0x80 + w)"
      using t(4) cont_obtain unfolding cont_def by blast
    obtain x where x: "byte a = 0xF0 + x" "a = char_of (0xF0 + x)"
      using lead_obtain [of "0xF0" a] 4 by auto
    have r: "r = x * 262144 + y * 4096 + z * 64 + w" "n = 4"
      using assms(1) 4 s t x(1) y(1) z(1) w(1) by (auto simp: DecodeRune_def Let_def)
    have "x = 0 \<Longrightarrow> 0x10 \<le> y" using t(2) x(1) y(1) by (simp add: accept2_def)
    then show ?thesis using EncodeRune_bytes4 [of x y z w] 4 v r x y z w s t(1) by simp
  next
    case 5
    then show ?thesis using assms(1,3) s by (auto simp: DecodeRune_def Let_def)
  qed
qed

lemma EncodeRune_high:
  assumes "ValidRune r" "0x80 \<le> r" "c \<in> set (EncodeRune r)"
  shows "0x80 \<le> byte c"
proof -
  have *: "r div 262144 < 5" "0xF0 + r div 262144 < 256" "r < 0x800 \<Longrightarrow> 0xC0 + r div 64 < 256"
    "r < 0x10000 \<Longrightarrow> 0xE0 + r div 4096 < 256"
    using assms(1) by (auto simp: ValidRune_def)
  have m: "0x80 + r mod 64 < 256" "0x80 + r div 64 mod 64 < 256" "0x80 + r div 4096 mod 64 < 256"
    by (simp_all add: less_trans [OF mod_less_divisor])
  show ?thesis
    using assms * m by (auto simp: EncodeRune_def byte_char_of split: if_splits)
qed

end
