(* ===== verification/Tomlsubset.thy ===== *)
theory Tomlsubset
  imports Go_Runes "HOL-Library.AList"
begin

text \<open>
  \<open>internal/tomlsubset\<close>: the hardened TOML subset parser that every policy file of Workcell
  goes through. \<open>Parse\<close> builds a nested map; a map is an association list and the pointer
  \<open>current\<close> into the tree is the path of the table it points at. \<open>ParseDocument\<close> builds the
  ordered AST. The error of a branch is a constructor of \<open>toml_error\<close>, with the
  \<open>path:line\<close> prefix of the message. Go's \<open>any\<close> is the datatype \<open>tval\<close>.
\<close>

section \<open>Data\<close>

datatype tval =
    TBool bool
  | TString string
  | TInt int
  | TArr "tval list"
  | TTable "(string \<times> tval) list"

type_synonym table = "(string \<times> tval) list"

datatype toml_error =
    ExpectedValue string
  | InvalidQuotedString string
  | UnsupportedValue string
  | EmptyComponent string
  | UnsupportedComponent string string
  | NotATable string string
  | ArrayOfTable string
  | EmptyTableName string
  | DuplicateTable string string
  | ExpectedKeyValue string
  | EmptyKeyName string
  | DottedKey string
  | DuplicateKey string string
  | UnterminatedArray string
  | MultiLineString string
  | InlineTable string
  | Datetime string

definition at_line :: "string \<Rightarrow> nat \<Rightarrow> string" where
  "at_line sourcePath lineNo = sourcePath @ '':'' @ dec lineNo"

section \<open>Comments and quotes\<close>

definition toggle :: "char option \<Rightarrow> char \<Rightarrow> char option" where
  "toggle quoteChar c =
     (case quoteChar of None \<Rightarrow> Some c | Some d \<Rightarrow> if d = c then None else Some d)"

fun strip_aux :: "bool \<Rightarrow> char option \<Rightarrow> string \<Rightarrow> string" where
  "strip_aux escaped quoteChar [] = []"
| "strip_aux escaped quoteChar (c # cs) =
     (if escaped then c # strip_aux False quoteChar cs
      else if c = BSLASH \<and> quoteChar = Some DQUOTE then c # strip_aux True quoteChar cs
      else if c = SQUOTE \<or> c = DQUOTE then c # strip_aux False (toggle quoteChar c) cs
      else if c = CHR ''#'' \<and> quoteChar = None then []
      else c # strip_aux False quoteChar cs)"

definition StripComment :: "string \<Rightarrow> string" where
  "StripComment line = TrimSpace (strip_aux False None line)"

section \<open>strconv.Unquote for a double-quoted string\<close>

fun unhex_all :: "nat \<Rightarrow> string \<Rightarrow> nat option" where
  "unhex_all v [] = Some v"
| "unhex_all v (c # cs) = (case unhex c of None \<Rightarrow> None | Some x \<Rightarrow> unhex_all (16 * v + x) cs)"

definition octal_digit :: "char \<Rightarrow> bool" where
  "octal_digit c \<longleftrightarrow> 48 \<le> byte c \<and> byte c \<le> 55"

text \<open>
  \<open>strconv.UnquoteChar(s, '"')\<close>: the rune, whether it is multibyte, and the rest. The
  caller never passes the empty string or one that starts with the quote.
\<close>

definition UnquoteChar :: "string \<Rightarrow> (rune \<times> bool \<times> string) option" where
  "UnquoteChar s =
     (case s of [] \<Rightarrow> None
      | c # t \<Rightarrow>
          if c = DQUOTE then None
          else if 0x80 \<le> byte c then
            Some (fst (DecodeRune s), True, drop (snd (DecodeRune s)) s)
          else if c \<noteq> BSLASH then Some (byte c, False, t)
          else
            (case t of [] \<Rightarrow> None
             | e # u \<Rightarrow>
                 if e = CHR ''a'' then Some (7, False, u)
                 else if e = CHR ''b'' then Some (8, False, u)
                 else if e = CHR ''f'' then Some (12, False, u)
                 else if e = CHR ''n'' then Some (10, False, u)
                 else if e = CHR ''r'' then Some (13, False, u)
                 else if e = CHR ''t'' then Some (9, False, u)
                 else if e = CHR ''v'' then Some (11, False, u)
                 else if e = CHR ''x'' \<or> e = CHR ''u'' \<or> e = CHR ''U'' then
                   (let n = (if e = CHR ''x'' then 2 else if e = CHR ''u'' then 4 else 8) in
                    if length u < n then None
                    else (case unhex_all 0 (take n u) of None \<Rightarrow> None
                          | Some v \<Rightarrow>
                              if e = CHR ''x'' then Some (v, False, drop n u)
                              else if ValidRune v then Some (v, True, drop n u) else None))
                 else if octal_digit e then
                   (if length u < 2 \<or> \<not> octal_digit (u ! 0) \<or> \<not> octal_digit (u ! 1) then None
                    else
                      (let v = (byte e - 48) * 64 + (byte (u ! 0) - 48) * 8 + (byte (u ! 1) - 48)
                       in if 255 < v then None else Some (v, False, drop 2 u)))
                 else if e = BSLASH then Some (byte BSLASH, False, u)
                 else if e = DQUOTE then Some (byte DQUOTE, False, u)
                 else None))"

lemma UnquoteChar_shorter:
  assumes "UnquoteChar s = Some (r, m, rest)"
  shows "length rest < length s"
proof (cases s)
  case (Cons c t)
  have "length (drop (snd (DecodeRune s)) s) < length s"
    using DecodeRune_pos [of s] Cons by simp
  with Cons assms show ?thesis
    by (cases t) (auto simp: UnquoteChar_def Let_def split: if_splits option.splits)
qed (use assms in \<open>simp add: UnquoteChar_def\<close>)

text \<open>
  The decoding loop after the opening quote: the decoded bytes and what follows the closing
  quote. Go first tries a path without decoding for a quoted text that holds no escape and is
  valid UTF-8; on such a text the loop copies every rune, so one definition stands for both.
\<close>

function unquote_loop :: "string \<Rightarrow> (string \<times> string) option" where
  "unquote_loop [] = None"
| "unquote_loop (c # cs) =
     (if c = DQUOTE then Some ([], cs)
      else case UnquoteChar (c # cs) of None \<Rightarrow> None
      | Some (r, multibyte, rest) \<Rightarrow>
          if c = NL then None
          else map_option (\<lambda>(out, rem).
                 ((if r < 0x80 \<or> \<not> multibyte then [char_of r] else EncodeRune r) @ out, rem))
               (unquote_loop rest))"
  by pat_completeness auto
termination
  by (relation "measure length") (auto dest: UnquoteChar_shorter)

definition Unquote :: "string \<Rightarrow> string option" where
  "Unquote s =
     (case s of [] \<Rightarrow> None
      | c # cs \<Rightarrow> (case unquote_loop cs of
                    Some (out, []) \<Rightarrow> Some out
                  | _ \<Rightarrow> None))"

section \<open>Values\<close>

text \<open>\<open>strings.Trim(value, "'")\<close>.\<close>

definition TrimQuotes :: "string \<Rightarrow> string" where
  "TrimQuotes s = rev (dropWhile (\<lambda>c. c = SQUOTE) (rev (dropWhile (\<lambda>c. c = SQUOTE) s)))"

text \<open>\<open>cur\<close> is \<open>raw[start:i]\<close>, reversed.\<close>

definition emit_item :: "string \<Rightarrow> string list" where
  "emit_item cur = (let item = TrimSpace (rev cur) in if item = [] then [] else [item])"

fun split_aux :: "bool \<Rightarrow> char option \<Rightarrow> string \<Rightarrow> string \<Rightarrow> string list" where
  "split_aux escaped quoteChar cur [] = emit_item cur"
| "split_aux escaped quoteChar cur (c # cs) =
     (if escaped then split_aux False quoteChar (c # cur) cs
      else if c = BSLASH \<and> quoteChar = Some DQUOTE then split_aux True quoteChar (c # cur) cs
      else if c = SQUOTE \<or> c = DQUOTE then split_aux False (toggle quoteChar c) (c # cur) cs
      else if c = CHR '','' \<and> quoteChar = None
        then emit_item cur @ split_aux False quoteChar [] cs
      else split_aux False quoteChar (c # cur) cs)"

definition splitArray :: "string \<Rightarrow> string list" where
  "splitArray raw = split_aux False None [] raw"

fun closed_aux :: "bool \<Rightarrow> char option \<Rightarrow> nat \<Rightarrow> string \<Rightarrow> bool" where
  "closed_aux escaped quoteChar depth [] = (depth = 0)"
| "closed_aux escaped quoteChar depth (c # cs) =
     (if escaped then closed_aux False quoteChar depth cs
      else if c = BSLASH \<and> quoteChar = Some DQUOTE then closed_aux True quoteChar depth cs
      else if c = SQUOTE \<or> c = DQUOTE then closed_aux False (toggle quoteChar c) depth cs
      else if quoteChar \<noteq> None then closed_aux False quoteChar depth cs
      else if c = CHR ''['' then closed_aux False quoteChar (Suc depth) cs
      else if c = CHR '']'' then closed_aux False quoteChar (depth - 1) cs
      else closed_aux False quoteChar depth cs)"

definition ArrayClosed :: "string \<Rightarrow> bool" where
  "ArrayClosed raw = closed_aux False None 0 raw"

lemma emit_item_length: "item \<in> set (emit_item cur) \<Longrightarrow> length item \<le> length cur"
  using length_TrimSpace [of "rev cur"] by (auto simp: emit_item_def Let_def split: if_splits)

lemma split_aux_length:
  "item \<in> set (split_aux e q cur s) \<Longrightarrow> length item \<le> length cur + length s"
proof (induction e q cur s rule: split_aux.induct)
  case (2 e q cur c cs)
  then show ?case
    by (auto split: if_splits dest: emit_item_length)
qed (auto dest: emit_item_length)

lemma splitArray_length: "item \<in> set (splitArray s) \<Longrightarrow> length item \<le> length s"
  using split_aux_length [of item False None "[]" s] by (simp add: splitArray_def)

text \<open>The loop over the items of an array returns the first error.\<close>

fun collect :: "('e, 'a) result list \<Rightarrow> ('e, 'a list) result" where
  "collect [] = Inr []"
| "collect (Inl e # rs) = Inl e"
| "collect (Inr x # rs) = (case collect rs of Inl e \<Rightarrow> Inl e | Inr xs \<Rightarrow> Inr (x # xs))"

lemma collect_Inr: "collect (map Inr xs) = Inr xs"
  by (induction xs) auto

function ParseValue :: "string \<Rightarrow> string \<Rightarrow> (toml_error, tval) result"
  and parseArray :: "string \<Rightarrow> string \<Rightarrow> (toml_error, tval list) result" where
  "ParseValue raw context =
     (let value = TrimSpace raw in
      if value = [] then Inl (ExpectedValue context)
      else if value = ''true'' then Inr (TBool True)
      else if value = ''false'' then Inr (TBool False)
      else if HasPrefix value [DQUOTE] \<and> HasSuffix value [DQUOTE] then
        (case Unquote value of
           None \<Rightarrow> Inl (InvalidQuotedString context) | Some s \<Rightarrow> Inr (TString s))
      else if HasPrefix value [SQUOTE] \<and> HasSuffix value [SQUOTE] then
        Inr (TString (TrimQuotes value))
      else if HasPrefix value ''['' \<and> HasSuffix value '']'' then
        (case parseArray value context of Inl e \<Rightarrow> Inl e | Inr vs \<Rightarrow> Inr (TArr vs))
      else (case Atoi value of
              Some i \<Rightarrow> Inr (TInt i) | None \<Rightarrow> Inl (UnsupportedValue context)))"
| "parseArray raw context =
     (let inner = TrimSpace (butlast (tl raw)) in
      if inner = [] then Inr []
      else collect (map (\<lambda>item. ParseValue item context)
             (filter (\<lambda>item. TrimSpace item \<noteq> []) (splitArray inner))))"
  by pat_completeness auto
termination
proof (relation "measure (case_sum (\<lambda>(raw, _). 2 * length raw + 1) (\<lambda>(raw, _). 2 * length raw))",
    goal_cases)
  case (2 raw ctx v)
  then show ?case using length_TrimSpace [of raw] by simp
next
  case (3 raw ctx inner item)
  then have "length item \<le> length inner" using splitArray_length by simp
  moreover have "length inner \<le> length raw - 2" "0 < length inner"
    using 3 length_TrimSpace [of "butlast (tl raw)"] by auto
  ultimately have "2 * length item + 1 < 2 * length raw" by linarith
  then show ?case by simp
qed simp

declare ParseValue.simps [simp del] parseArray.simps [simp del]

section \<open>Tables\<close>

fun parse_components :: "string \<Rightarrow> string list \<Rightarrow> (toml_error, string list) result" where
  "parse_components context [] = Inr []"
| "parse_components context (part # parts) =
     (let name = TrimSpace part in
      if name = [] then Inl (EmptyComponent context)
      else if Contains name '' '' then Inl (UnsupportedComponent context name)
      else case parse_components context parts of
             Inl e \<Rightarrow> Inl e | Inr path \<Rightarrow> Inr (name # path))"

definition parsePath :: "string \<Rightarrow> string \<Rightarrow> (toml_error, string list) result" where
  "parsePath context raw = parse_components context (split_on CHR ''.'' raw)"

text \<open>
  \<open>ensureTable\<close> returns the root in which every table of the path exists, \<open>None\<close> where a
  component is not a table.
\<close>

fun ensureTable :: "table \<Rightarrow> string list \<Rightarrow> table option" where
  "ensureTable current [] = Some current"
| "ensureTable current (part # path) =
     (case map_of current part of
        None \<Rightarrow> map_option (\<lambda>child. (part, TTable child) # current) (ensureTable [] path)
      | Some (TTable child) \<Rightarrow>
          map_option (\<lambda>child'. AList.update part (TTable child') current) (ensureTable child path)
      | Some _ \<Rightarrow> None)"

text \<open>The table that a path points at, and a store into it (\<open>current[key] = value\<close>).\<close>

fun table_at :: "table \<Rightarrow> string list \<Rightarrow> table option" where
  "table_at t [] = Some t"
| "table_at t (part # path) =
     (case map_of t part of Some (TTable child) \<Rightarrow> table_at child path | _ \<Rightarrow> None)"

fun store_at :: "table \<Rightarrow> string list \<Rightarrow> string \<Rightarrow> tval \<Rightarrow> table" where
  "store_at t [] key value = AList.update key value t"
| "store_at t (part # path) key value =
     (case map_of t part of
        Some (TTable child) \<Rightarrow> AList.update part (TTable (store_at child path key value)) t
      | _ \<Rightarrow> t)"

section \<open>Multi-line arrays\<close>

text \<open>
  The inner loop that joins lines until the brackets balance: the joined text, the number of
  lines consumed and the lines left; \<open>None\<close> at the end of the input.
\<close>

fun continue_array :: "string \<Rightarrow> string list \<Rightarrow> (string \<times> nat \<times> string list) option" where
  "continue_array valueText [] = None"
| "continue_array valueText (l # ls) =
     (let nextLine = StripComment l in
      if nextLine = [] then map_option (\<lambda>(v, n, r). (v, Suc n, r)) (continue_array valueText ls)
      else
        (let valueText' = valueText @ [NL] @ nextLine in
         if ArrayClosed valueText' then Some (valueText', 1, ls)
         else map_option (\<lambda>(v, n, r). (v, Suc n, r)) (continue_array valueText' ls)))"

lemma continue_array_shorter:
  "continue_array v ls = Some (v', n, rest) \<Longrightarrow> length rest < length ls"
  by (induction v ls arbitrary: v' n rest rule: continue_array.induct)
    (fastforce simp: Let_def split: if_splits)+

definition value_text ::
  "string \<Rightarrow> string \<Rightarrow> string list \<Rightarrow> (toml_error, string \<times> nat \<times> string list) result" where
  "value_text context valueText ls =
     (if HasPrefix (TrimSpace valueText) ''['' \<and> \<not> ArrayClosed valueText then
        (case continue_array valueText ls of
           None \<Rightarrow> Inl (UnterminatedArray context) | Some r \<Rightarrow> Inr r)
      else Inr (valueText, 0, ls))"

lemma value_text_shorter:
  "value_text context v ls = Inr (v', n, rest) \<Longrightarrow> length rest \<le> length ls"
  by (auto simp: value_text_def split: if_splits option.splits dest!: continue_array_shorter)

section \<open>Parse\<close>

record pstate =
  ps_root :: table
  ps_current :: "string list"
  ps_seen :: "string list"

text \<open>A \<open>[table]\<close> header: the new state.\<close>

definition parse_header ::
  "string \<Rightarrow> pstate \<Rightarrow> string \<Rightarrow> (toml_error, pstate) result" where
  "parse_header context st line =
     (let tableName = TrimSpace (butlast (tl line)) in
      if tableName = [] then Inl (EmptyTableName context)
      else if tableName \<in> set (ps_seen st) then Inl (DuplicateTable context tableName)
      else case parsePath context tableName of
             Inl e \<Rightarrow> Inl e
           | Inr path \<Rightarrow>
               (case ensureTable (ps_root st) path of
                  None \<Rightarrow> Inl (NotATable context (join ''.'' path))
                | Some root \<Rightarrow>
                    Inr (st\<lparr>ps_root := root, ps_current := path, ps_seen := tableName # ps_seen st\<rparr>)))"

text \<open>The key of a pair line, checked against the current table.\<close>

definition parse_key ::
  "string \<Rightarrow> pstate \<Rightarrow> string \<Rightarrow> (toml_error, string \<times> string) result" where
  "parse_key context st line =
     (case cut CHR ''='' line of
        None \<Rightarrow> Inl (ExpectedKeyValue context)
      | Some (k, valueText) \<Rightarrow>
          let key = TrimSpace k in
          if key = [] then Inl (EmptyKeyName context)
          else if Contains key ''.'' then Inl (DottedKey context)
          else if (case table_at (ps_root st) (ps_current st) of
                     Some t \<Rightarrow> map_of t key \<noteq> None | None \<Rightarrow> False)
            then Inl (DuplicateKey context key)
          else Inr (key, valueText))"

function parse_lines ::
  "string \<Rightarrow> nat \<Rightarrow> pstate \<Rightarrow> string list \<Rightarrow> (toml_error, pstate) result" where
  "parse_lines sourcePath lineNo st [] = Inr st"
| "parse_lines sourcePath lineNo st (rawLine # ls) =
     (let line = StripComment rawLine; context = at_line sourcePath lineNo in
      if line = [] then parse_lines sourcePath (Suc lineNo) st ls
      else if HasPrefix line ''[['' \<and> HasSuffix line '']]'' then Inl (ArrayOfTable context)
      else if HasPrefix line ''['' \<and> HasSuffix line '']'' then
        (case parse_header context st line of
           Inl e \<Rightarrow> Inl e | Inr st' \<Rightarrow> parse_lines sourcePath (Suc lineNo) st' ls)
      else
        (case parse_key context st line of
           Inl e \<Rightarrow> Inl e
         | Inr (key, valueText) \<Rightarrow>
             (case value_text context valueText ls of
                Inl e \<Rightarrow> Inl e
              | Inr (joined, n, rest) \<Rightarrow>
                  (case ParseValue joined context of
                     Inl e \<Rightarrow> Inl e
                   | Inr value \<Rightarrow>
                       parse_lines sourcePath (Suc lineNo + n)
                         (st\<lparr>ps_root := store_at (ps_root st) (ps_current st) key value\<rparr>) rest))))"
  by pat_completeness auto
termination
proof (relation "measure (\<lambda>(sourcePath, lineNo, st, ls). length ls)", goal_cases)
  case (4 sourcePath lineNo st rawLine ls line ctx y key valueText z joined w n rest v)
  then show ?case using value_text_shorter by fastforce
qed auto

definition Parse :: "string \<Rightarrow> string \<Rightarrow> (toml_error, table) result" where
  "Parse content sourcePath =
     (case parse_lines sourcePath 1 \<lparr>ps_root = [], ps_current = [], ps_seen = []\<rparr>
             (split_on NL content) of
        Inl e \<Rightarrow> Inl e | Inr st \<Rightarrow> Inr (ps_root st))"

end
