(* ===== verification/Toml_Document.thy ===== *)
theory Toml_Document
  imports Tomlsubset
begin

text \<open>
  \<open>internal/tomlsubset/ast.go\<close>: \<open>ParseDocument\<close>, the ordered AST of a policy file.
  The pointer \<open>current\<close> always points at the last table of the document, or at \<open>TopLevel\<close>
  before the first header; \<open>seenTables\<close> and \<open>seenKeys[current]\<close> hold exactly the names of
  the tables and the keys of the current table, so they are read off the document. The
  invariant \<open>doc_ok\<close> says what a caller may rely on; the line numbers of a document show that
  the source order is kept.
\<close>

section \<open>The document\<close>

record Pair =
  pair_key :: string
  pair_raw :: string
  pair_value :: tval
  pair_line :: nat

record Table =
  table_name :: string
  table_line :: nat
  table_pairs :: "Pair list"

record Document =
  top_level :: Table
  doc_tables :: "Table list"

definition empty_document :: Document where
  "empty_document =
     \<lparr>top_level = \<lparr>table_name = [], table_line = 0, table_pairs = []\<rparr>, doc_tables = []\<rparr>"

definition LookupTable :: "Document \<Rightarrow> string \<Rightarrow> Table option" where
  "LookupTable doc name = find (\<lambda>t. table_name t = name) (doc_tables doc)"

definition Lookup :: "Table \<Rightarrow> string \<Rightarrow> Pair option" where
  "Lookup t key = find (\<lambda>p. pair_key p = key) (table_pairs t)"

definition current_table :: "Document \<Rightarrow> Table" where
  "current_table doc = (if doc_tables doc = [] then top_level doc else last (doc_tables doc))"

definition add_pair :: "Table \<Rightarrow> Pair \<Rightarrow> Table" where
  "add_pair t p = t\<lparr>table_pairs := table_pairs t @ [p]\<rparr>"

definition append_pair :: "Document \<Rightarrow> Pair \<Rightarrow> Document" where
  "append_pair doc p =
     (if doc_tables doc = [] then doc\<lparr>top_level := add_pair (top_level doc) p\<rparr>
      else doc\<lparr>doc_tables := butlast (doc_tables doc) @ [add_pair (last (doc_tables doc)) p]\<rparr>)"

section \<open>Rejected values\<close>

definition isASCIIDigits :: "string \<Rightarrow> bool" where
  "isASCIIDigits s \<longleftrightarrow> s \<noteq> [] \<and> list_all is_digit s"

definition slice :: "nat \<Rightarrow> nat \<Rightarrow> string \<Rightarrow> string" where
  "slice i j s = take (j - i) (drop i s)"

definition looksLikeDatetime :: "string \<Rightarrow> bool" where
  "looksLikeDatetime v \<longleftrightarrow>
     v \<noteq> [] \<and> hd v \<noteq> DQUOTE \<and> hd v \<noteq> SQUOTE \<and> hd v \<noteq> CHR ''['' \<and> hd v \<noteq> CHR ''{'' \<and>
     (10 \<le> length v \<and> v ! 4 = CHR ''-'' \<and> v ! 7 = CHR ''-'' \<and> isASCIIDigits (slice 0 4 v) \<and>
        isASCIIDigits (slice 5 7 v) \<and> isASCIIDigits (slice 8 10 v) \<or>
      8 \<le> length v \<and> v ! 2 = CHR '':'' \<and> v ! 5 = CHR '':'' \<and> isASCIIDigits (slice 0 2 v) \<and>
        isASCIIDigits (slice 3 5 v) \<and> isASCIIDigits (slice 6 8 v))"

definition rejectUnsupportedValue :: "string \<Rightarrow> string \<Rightarrow> toml_error option" where
  "rejectUnsupportedValue context v =
     (if HasPrefix v [DQUOTE, DQUOTE, DQUOTE] \<or> HasPrefix v [SQUOTE, SQUOTE, SQUOTE]
        then Some (MultiLineString context)
      else if HasPrefix v ''{'' then Some (InlineTable context)
      else if looksLikeDatetime v then Some (Datetime context)
      else None)"

section \<open>ParseDocument\<close>

definition doc_header ::
  "string \<Rightarrow> nat \<Rightarrow> Document \<Rightarrow> string \<Rightarrow> (toml_error, Document) result" where
  "doc_header context lineNo doc line =
     (let name = TrimSpace (butlast (tl line)) in
      if name = [] then Inl (EmptyTableName context)
      else case parsePath context name of
             Inl e \<Rightarrow> Inl e
           | Inr _ \<Rightarrow>
               if name \<in> set (map table_name (doc_tables doc))
                 then Inl (DuplicateTable context name)
               else Inr (doc\<lparr>doc_tables := doc_tables doc @
                       [\<lparr>table_name = name, table_line = lineNo, table_pairs = []\<rparr>]\<rparr>))"

definition doc_key ::
  "string \<Rightarrow> Document \<Rightarrow> string \<Rightarrow> (toml_error, string \<times> string) result" where
  "doc_key context doc line =
     (case cut CHR ''='' line of
        None \<Rightarrow> Inl (ExpectedKeyValue context)
      | Some (k, valueText) \<Rightarrow>
          let key = TrimSpace k in
          if key = [] then Inl (EmptyKeyName context)
          else if Contains key ''.'' then Inl (DottedKey context)
          else if key \<in> set (map pair_key (table_pairs (current_table doc)))
            then Inl (DuplicateKey context key)
          else case rejectUnsupportedValue context (TrimSpace valueText) of
                 Some e \<Rightarrow> Inl e
               | None \<Rightarrow> Inr (key, valueText))"

definition doc_pair ::
  "string \<Rightarrow> nat \<Rightarrow> Document \<Rightarrow> string \<Rightarrow> string list \<Rightarrow>
   (toml_error, Pair \<times> nat \<times> string list) result" where
  "doc_pair context lineNo doc line ls =
     (case doc_key context doc line of
        Inl e \<Rightarrow> Inl e
      | Inr (key, valueText) \<Rightarrow>
          (case value_text context valueText ls of
             Inl e \<Rightarrow> Inl e
           | Inr (raw, n, rest) \<Rightarrow>
               (case ParseValue raw context of
                  Inl e \<Rightarrow> Inl e
                | Inr parsed \<Rightarrow>
                    Inr (\<lparr>pair_key = key, pair_raw = raw, pair_value = parsed,
                          pair_line = lineNo\<rparr>, n, rest))))"

lemma doc_pair_shorter:
  "doc_pair context lineNo doc line ls = Inr (p, n, rest) \<Longrightarrow> length rest \<le> length ls"
  by (auto simp: doc_pair_def split: sum.splits prod.splits dest: value_text_shorter)

function doc_lines ::
  "string \<Rightarrow> nat \<Rightarrow> Document \<Rightarrow> string list \<Rightarrow> (toml_error, Document) result" where
  "doc_lines sourcePath lineNo doc [] = Inr doc"
| "doc_lines sourcePath lineNo doc (rawLine # ls) =
     (let line = StripComment rawLine; context = at_line sourcePath lineNo in
      if line = [] then doc_lines sourcePath (Suc lineNo) doc ls
      else if HasPrefix line ''[['' then Inl (ArrayOfTable context)
      else if HasPrefix line ''['' \<and> HasSuffix line '']'' then
        (case doc_header context lineNo doc line of
           Inl e \<Rightarrow> Inl e | Inr doc' \<Rightarrow> doc_lines sourcePath (Suc lineNo) doc' ls)
      else
        (case doc_pair context lineNo doc line ls of
           Inl e \<Rightarrow> Inl e
         | Inr (p, n, rest) \<Rightarrow>
             doc_lines sourcePath (Suc lineNo + n) (append_pair doc p) rest))"
  by pat_completeness auto
termination
  by (relation "measure (\<lambda>(sourcePath, lineNo, doc, ls). length ls)")
    (auto dest!: doc_pair_shorter)

definition ParseDocument :: "string \<Rightarrow> string \<Rightarrow> (toml_error, Document) result" where
  "ParseDocument content sourcePath =
     doc_lines sourcePath 1 empty_document (split_on NL content)"

section \<open>The invariant of a document\<close>

definition pair_ok :: "Pair \<Rightarrow> bool" where
  "pair_ok p \<longleftrightarrow>
     pair_key p \<noteq> [] \<and> TrimSpace (pair_key p) = pair_key p \<and> \<not> Contains (pair_key p) ''.'' \<and>
     ParseValue (pair_raw p) [] = Inr (pair_value p)"

definition table_ok :: "Table \<Rightarrow> bool" where
  "table_ok t \<longleftrightarrow> list_all pair_ok (table_pairs t) \<and> distinct (map pair_key (table_pairs t))"

definition doc_ok :: "Document \<Rightarrow> bool" where
  "doc_ok doc \<longleftrightarrow>
     table_ok (top_level doc) \<and> list_all table_ok (doc_tables doc) \<and>
     distinct (map table_name (doc_tables doc)) \<and>
     list_all (\<lambda>t. is_ok (parsePath [] (table_name t))) (doc_tables doc)"

text \<open>The line numbers of a document, in the order of the AST.\<close>

definition table_lines :: "Table \<Rightarrow> nat list" where
  "table_lines t = table_line t # map pair_line (table_pairs t)"

definition doc_line_numbers :: "Document \<Rightarrow> nat list" where
  "doc_line_numbers doc =
     map pair_line (table_pairs (top_level doc)) @ concat (map table_lines (doc_tables doc))"


lemma collect_Inr_iff:
  "collect rs = Inr vs \<longleftrightarrow> rs = map Inr vs"
proof (induction rs arbitrary: vs)
  case (Cons r rs)
  then show ?case by (cases r; cases vs) (auto simp: collect_Inr split: sum.splits)
qed auto

lemma map_Inr_transfer:
  assumes "map f xs = map Inr vs"
    and "\<And>x v. x \<in> set xs \<Longrightarrow> f x = Inr v \<Longrightarrow> g x = Inr v"
  shows "map g xs = map Inr vs"
  using assms by (induction xs arbitrary: vs) (auto simp: Cons_eq_map_conv)

lemma ParseValue_context:
  "ParseValue raw c = Inr v \<Longrightarrow> ParseValue raw c' = Inr v"
  "parseArray raw c = Inr vs \<Longrightarrow> parseArray raw c' = Inr vs"
proof (induction raw c and raw c arbitrary: v and vs rule: ParseValue_parseArray.induct)
  case (1 raw c)
  from "1.prems" show ?case
    by (auto simp: ParseValue.simps [of raw] Let_def split: if_splits option.splits sum.splits
        dest: "1.IH" [OF refl])
next
  case (2 raw c)
  let ?inner = "TrimSpace (butlast (tl raw))"
  let ?items = "filter (\<lambda>item. TrimSpace item \<noteq> []) (splitArray ?inner)"
  show ?case
  proof (cases "?inner = []")
    case False
    with "2.prems" have "map (\<lambda>item. ParseValue item c) ?items = map Inr vs"
      by (simp add: parseArray.simps [of raw] collect_Inr_iff)
    then have "map (\<lambda>item. ParseValue item c') ?items = map Inr vs"
      by (rule map_Inr_transfer) (rule "2.IH" [OF refl False])
    with False show ?thesis by (simp add: parseArray.simps [of raw] collect_Inr_iff)
  qed (use "2.prems" in \<open>simp add: parseArray.simps [of raw]\<close>)
qed

lemma parse_components_context:
  "is_ok (parse_components c parts) \<Longrightarrow> is_ok (parse_components c' parts)"
  by (induction parts) (auto simp: Let_def is_ok_def split: if_splits sum.splits)

lemma doc_header_line_numbers:
  "doc_header c n doc line = Inr doc' \<Longrightarrow> doc_line_numbers doc' = doc_line_numbers doc @ [n]"
  by (auto simp: doc_header_def doc_line_numbers_def table_lines_def Let_def
      split: if_splits sum.splits)

lemma append_pair_line_numbers:
  "doc_line_numbers (append_pair doc p) = doc_line_numbers doc @ [pair_line p]"
  by (cases "doc_tables doc" rule: rev_cases)
    (simp_all add: append_pair_def add_pair_def doc_line_numbers_def table_lines_def)

lemma doc_header_ok:
  assumes "doc_header c n doc line = Inr doc'" "doc_ok doc"
  shows "doc_ok doc'"
proof -
  let ?name = "TrimSpace (butlast (tl line))"
  from assms(1) obtain path where "parsePath c ?name = Inr path"
    and "?name \<notin> table_name ` set (doc_tables doc)"
    and "doc' = doc\<lparr>doc_tables := doc_tables doc @
          [\<lparr>table_name = ?name, table_line = n, table_pairs = []\<rparr>]\<rparr>"
    by (auto simp: doc_header_def Let_def split: if_splits sum.splits)
  moreover from this have "is_ok (parsePath [] ?name)"
    using parse_components_context [of c] by (simp add: parsePath_def)
  ultimately show ?thesis
    using assms(2) by (auto simp: doc_ok_def table_ok_def)
qed

lemma doc_key_Inr:
  assumes "doc_key c doc line = Inr (key, valueText)"
  obtains u where "cut CHR ''='' line = Some (u, valueText)" "key = TrimSpace u"
    "key \<noteq> []" "\<not> Contains key ''.''"
    "key \<notin> set (map pair_key (table_pairs (current_table doc)))"
proof (cases "cut CHR ''='' line")
  case (Some uv)
  obtain u v where "uv = (u, v)" by (cases uv)
  with Some have "cut CHR ''='' line = Some (u, v)" by simp
  with assms show ?thesis
    by (cases "rejectUnsupportedValue c (TrimSpace v)")
      (auto simp: doc_key_def Let_def intro!: that split: if_splits)
next
  case None
  with assms show ?thesis unfolding doc_key_def None by simp
qed

lemma doc_pair_ok:
  assumes "doc_pair c n doc line ls = Inr (p, k, rest)"
  shows "pair_ok p" "pair_key p \<notin> set (map pair_key (table_pairs (current_table doc)))"
    "pair_line p = n"
proof -
  from assms obtain key valueText where k: "doc_key c doc line = Inr (key, valueText)"
    and p: "pair_key p = key" "pair_line p = n" "ParseValue (pair_raw p) c = Inr (pair_value p)"
    by (auto simp: doc_pair_def split: sum.splits prod.splits)
  from k obtain u where "cut CHR ''='' line = Some (u, valueText)" and key: "key = TrimSpace u"
      "key \<noteq> []" "\<not> Contains key ''.''"
    and fresh: "key \<notin> set (map pair_key (table_pairs (current_table doc)))"
    by (rule doc_key_Inr)
  from key(1) have "TrimSpace key = key" by (simp only: TrimSpace_idem)
  moreover have "ParseValue (pair_raw p) [] = Inr (pair_value p)"
    using p(3) by (rule ParseValue_context)
  ultimately show "pair_ok p" using key(2,3) p(1) by (simp add: pair_ok_def)
  from fresh p show "pair_key p \<notin> set (map pair_key (table_pairs (current_table doc)))" by simp
  from p show "pair_line p = n" by simp
qed

lemma append_pair_ok:
  assumes "doc_ok doc" "pair_ok p" "pair_key p \<notin> set (map pair_key (table_pairs (current_table doc)))"
  shows "doc_ok (append_pair doc p)"
  using assms
  by (cases "doc_tables doc" rule: rev_cases)
    (auto simp: doc_ok_def append_pair_def add_pair_def table_ok_def current_table_def)

lemma doc_lines_inv:
  assumes "doc_lines src n doc ls = Inr doc'"
    and "doc_ok doc" "sorted_wrt (<) (doc_line_numbers doc)" "\<forall>k \<in> set (doc_line_numbers doc). k < n"
  shows "doc_ok doc' \<and> sorted_wrt (<) (doc_line_numbers doc')"
  using assms
proof (induction src n doc ls rule: doc_lines.induct)
  case (2 src n doc rawLine ls)
  let ?line = "StripComment rawLine" and ?c = "at_line src n"
  consider (blank) "?line = []"
    | (header) d where "doc_header ?c n doc ?line = Inr d" "?line \<noteq> []" "\<not> HasPrefix ?line ''[[''"
        "HasPrefix ?line ''['' \<and> HasSuffix ?line '']''"
    | (pair) p k rest where "doc_pair ?c n doc ?line ls = Inr (p, k, rest)" "?line \<noteq> []"
        "\<not> HasPrefix ?line ''[[''" "\<not> (HasPrefix ?line ''['' \<and> HasSuffix ?line '']'')"
    using "2.prems"(1) by (auto simp: Let_def split: if_splits sum.splits prod.splits)
  then show ?case
  proof cases
    case blank
    with 2 show ?thesis by (auto simp: less_Suc_eq)
  next
    case header
    from header(1) have "doc_line_numbers d = doc_line_numbers doc @ [n]" "doc_ok d"
      using "2.prems" doc_header_line_numbers doc_header_ok by blast+
    with header "2.prems" show ?thesis
      by (intro "2.IH"(2) [OF refl refl header(2,3,4,1)])
        (auto simp: sorted_wrt_append less_Suc_eq)
  next
    case pair
    from pair(1) have ok: "pair_ok p" "pair_line p = n"
      "pair_key p \<notin> set (map pair_key (table_pairs (current_table doc)))"
      by (rule doc_pair_ok)+
    with pair "2.prems" show ?thesis
      by (intro "2.IH"(3) [OF refl refl pair(2,3,4,1) refl refl])
        (auto simp: append_pair_line_numbers append_pair_ok sorted_wrt_append less_Suc_eq)
  qed
qed simp

lemma find_distinct:
  "distinct (map f xs) \<Longrightarrow> x \<in> set xs \<Longrightarrow> find (\<lambda>y. f y = f x) xs = Some x"
  by (induction xs) auto

lemma doc_ok_lookup:
  assumes "doc_ok doc" "t \<in> set (doc_tables doc)"
  shows "LookupTable doc (table_name t) = Some t"
    and "p \<in> set (table_pairs t) \<Longrightarrow> Lookup t (pair_key p) = Some p"
  using assms
  by (auto simp: doc_ok_def table_ok_def LookupTable_def Lookup_def list_all_iff
      intro!: find_distinct)

lemma ParseDocument_inv:
  assumes "ParseDocument content sourcePath = Inr doc"
  shows "doc_ok doc \<and> sorted_wrt (<) (doc_line_numbers doc)"
  using assms unfolding ParseDocument_def
  by (rule doc_lines_inv) (simp_all add: empty_document_def doc_ok_def table_ok_def doc_line_numbers_def)

section \<open>Properties\<close>

text \<open>
  C15: a document that \<open>ParseDocument\<close> accepts satisfies the invariant: table names and the keys
  of a table are distinct, every key is trimmed, non-empty and undotted, every table name is a
  dotted path, and every pair's value is the parse of its raw text. The line numbers, read in
  the order of the AST, strictly increase, so the source order of tables and pairs is kept, and
  a lookup finds each table and each of its pairs, so nothing is shadowed.
\<close>

theorem ParseDocument_ok:
  assumes "ParseDocument content sourcePath = Inr doc"
  shows "doc_ok doc \<and> sorted_wrt (<) (doc_line_numbers doc) \<and>
    (\<forall>t \<in> set (doc_tables doc). LookupTable doc (table_name t) = Some t \<and>
       (\<forall>p \<in> set (table_pairs t). Lookup t (pair_key p) = Some p))"
  using ParseDocument_inv [OF assms] doc_ok_lookup by blast

definition sample_policy :: string where
  "sample_policy = ''version = 1'' @ [NL] @ ''[credentials]'' @ [NL] @ ''codex = '' @
     [DQUOTE] @ ''/x#y'' @ [DQUOTE] @ '' # note''"

definition sample_document :: Document where
  "sample_document =
     \<lparr>top_level = \<lparr>table_name = [], table_line = 0, table_pairs =
        [\<lparr>pair_key = ''version'', pair_raw = '' 1'', pair_value = TInt 1, pair_line = 1\<rparr>]\<rparr>,
      doc_tables = [\<lparr>table_name = ''credentials'', table_line = 2, table_pairs =
        [\<lparr>pair_key = ''codex'', pair_raw = '' '' @ [DQUOTE] @ ''/x#y'' @ [DQUOTE],
          pair_value = TString ''/x#y'', pair_line = 3\<rparr>]\<rparr>]\<rparr>"

lemma sample_policy_document: "ParseDocument sample_policy ''p'' = Inr sample_document"
  by code_simp

theorem ParseDocument_ok_witness:
  "doc_ok sample_document \<and> sorted_wrt (<) (doc_line_numbers sample_document) \<and>
    list_all (\<lambda>t. LookupTable sample_document (table_name t) = Some t \<and>
       list_all (\<lambda>p. Lookup t (pair_key p) = Some p) (table_pairs t)) (doc_tables sample_document)"
  using ParseDocument_ok [OF sample_policy_document] by (simp add: list_all_iff)

end
