(* ===== verification/Go_Filepath.thy ===== *)
theory Go_Filepath
  imports Go_Prelude
begin

text \<open>
  Go's \<open>path/filepath\<close> on a Unix host, as far as the components use it: the lexical functions
  \<open>Clean\<close>, \<open>Join\<close>, \<open>Dir\<close>, \<open>IsAbs\<close> and \<open>Rel\<close>. A cleaned path is determined by
  whether it is rooted and by its elements.
\<close>

abbreviation SLASH :: char where
  "SLASH \<equiv> CHR ''/''"

definition IsAbs :: "string \<Rightarrow> bool" where
  "IsAbs path = HasPrefix path ''/''"

text \<open>
  The element stack of \<open>Clean\<close>, reversed: \<open>.\<close> and empty elements are dropped, \<open>..\<close>
  removes the element before it; with nothing to remove it is dropped in a rooted path and
  kept otherwise.
\<close>

fun clean_elems :: "bool \<Rightarrow> string list \<Rightarrow> string list \<Rightarrow> string list" where
  "clean_elems rooted stack [] = rev stack"
| "clean_elems rooted stack (e # es) =
     (if e = [] \<or> e = ''.'' then clean_elems rooted stack es
      else if e = ''..'' then
        (case stack of
           [] \<Rightarrow> clean_elems rooted (if rooted then [] else [''..'']) es
         | t # st \<Rightarrow>
             if t = ''..'' then clean_elems rooted (''..'' # stack) es
             else clean_elems rooted st es)
      else clean_elems rooted (e # stack) es)"

definition elems :: "string \<Rightarrow> string list" where
  "elems path = clean_elems (IsAbs path) [] (split_on SLASH path)"

definition of_elems :: "bool \<Rightarrow> string list \<Rightarrow> string" where
  "of_elems rooted es =
     (if rooted then ''/'' @ join ''/'' es else if es = [] then ''.'' else join ''/'' es)"

definition Clean :: "string \<Rightarrow> string" where
  "Clean path = of_elems (IsAbs path) (elems path)"

definition Join :: "string list \<Rightarrow> string" where
  "Join parts =
     (let ps = filter (\<lambda>p. p \<noteq> []) parts in if ps = [] then [] else Clean (join ''/'' ps))"

text \<open>\<open>Dir\<close>: the cleaned path up to and including the last slash.\<close>

definition upto_slash :: "string \<Rightarrow> string" where
  "upto_slash path = rev (dropWhile (\<lambda>c. c \<noteq> SLASH) (rev path))"

definition Dir :: "string \<Rightarrow> string" where
  "Dir path = Clean (upto_slash path)"

text \<open>\<open>Rel\<close> of two absolute paths: up from the base to the common prefix, then down.\<close>

fun strip_common :: "string list \<Rightarrow> string list \<Rightarrow> string list \<times> string list" where
  "strip_common (b # bs) (t # ts) = (if b = t then strip_common bs ts else (b # bs, t # ts))"
| "strip_common bs ts = (bs, ts)"

definition rel_abs :: "string \<Rightarrow> string \<Rightarrow> string" where
  "rel_abs base targ =
     (if Clean base = Clean targ then ''.''
      else case strip_common (elems base) (elems targ) of
             (bs, ts) \<Rightarrow> join ''/'' (replicate (length bs) ''..'' @ ts))"

section \<open>Cleaned elements\<close>

definition plain :: "string \<Rightarrow> bool" where
  "plain e \<longleftrightarrow> e \<noteq> [] \<and> e \<noteq> ''.'' \<and> e \<noteq> ''..'' \<and> SLASH \<notin> set e"

lemma clean_elems_plain:
  "list_all plain es \<Longrightarrow> clean_elems rooted stack es = rev stack @ es"
  by (induction es arbitrary: stack) (auto simp: plain_def)

lemma clean_elems_app:
  "list_all plain es \<Longrightarrow> clean_elems rooted stack (es @ [[]]) = rev stack @ es"
  by (induction es arbitrary: stack) (auto simp: plain_def)

lemma clean_elems_rooted:
  "list_all plain stack \<Longrightarrow> \<forall>e \<in> set es. SLASH \<notin> set e \<Longrightarrow> list_all plain (clean_elems True stack es)"
proof (induction True stack es rule: clean_elems.induct)
  case (1 stack)
  then show ?case by simp
next
  case (2 stack e es)
  then show ?case by (auto simp: plain_def split: list.split)
qed

lemma elems_plain: "IsAbs path \<Longrightarrow> list_all plain (elems path)"
  unfolding elems_def
  using clean_elems_rooted [of "[]" "split_on SLASH path"] split_on_no_sep [of _ SLASH path] by auto

lemma elems_of_elems:
  assumes "list_all plain es"
  shows "elems (of_elems True es) = es"
proof (cases es)
  case Nil
  then show ?thesis by (simp add: elems_def of_elems_def IsAbs_def)
next
  case (Cons e es')
  have "split_on SLASH (SLASH # join [SLASH] es) = [] # split_on SLASH (join [SLASH] es)" by simp
  moreover have "split_on SLASH (join [SLASH] es) = es"
    using assms Cons by (intro split_on_join) (auto simp: list_all_iff plain_def)
  ultimately show ?thesis
    using assms by (simp add: elems_def of_elems_def IsAbs_def clean_elems_plain)
qed

lemma Clean_idem: "IsAbs path \<Longrightarrow> Clean (Clean path) = Clean path"
proof -
  assume a: "IsAbs path"
  then have c: "Clean path = of_elems True (elems path)" by (simp add: Clean_def)
  then have "IsAbs (Clean path)" by (simp add: of_elems_def IsAbs_def)
  then show ?thesis using a elems_plain elems_of_elems by (simp add: c Clean_def [of "Clean path", folded c])
      (simp add: Clean_def c)
qed

section \<open>The parent of a cleaned path\<close>

lemma upto_slash_append: "SLASH \<notin> set e \<Longrightarrow> upto_slash (s @ SLASH # e) = s @ [SLASH]"
  unfolding upto_slash_def rev_append rev.simps append.assoc by (subst dropWhile_append2) auto

lemma of_elems_snoc:
  "of_elems True (es @ [e]) = (if es = [] then [] else of_elems True es) @ SLASH # e"
  by (simp add: of_elems_def join_snoc)

lemma Clean_trailing:
  assumes "list_all plain es" "es \<noteq> []"
  shows "Clean (of_elems True es @ [SLASH]) = of_elems True es"
proof -
  have "split_on SLASH (join [SLASH] es) = es"
    using assms by (intro split_on_join) (auto simp: list_all_iff plain_def)
  then have "split_on SLASH (of_elems True es @ [SLASH]) = [] # es @ [[]]"
    using split_on_mid [of SLASH "of_elems True es" "[]"] by (simp add: of_elems_def)
  moreover have "clean_elems True [] (es @ [[]]) = es"
    using assms(1) clean_elems_app by simp
  ultimately show ?thesis by (simp add: Clean_def elems_def of_elems_def IsAbs_def)
qed

lemma Dir_of_elems:
  assumes "list_all plain (es @ [e])"
  shows "Dir (of_elems True (es @ [e])) = of_elems True es"
proof -
  have e: "SLASH \<notin> set e" using assms by (simp add: plain_def)
  show ?thesis
  proof (cases "es = []")
    case True
    have "Clean [SLASH] = [SLASH]" by (simp add: Clean_def elems_def of_elems_def IsAbs_def)
    then show ?thesis
      using True upto_slash_append [OF e, of "[]"] by (simp add: Dir_def of_elems_snoc) (simp add: of_elems_def)
  next
    case False
    then show ?thesis
      using assms upto_slash_append [OF e, of "of_elems True es"] Clean_trailing [of es]
      by (simp add: Dir_def of_elems_snoc)
  qed
qed

lemma Dir_root: "Dir (of_elems True []) = of_elems True []"
  by (simp add: Dir_def of_elems_def upto_slash_def Clean_def elems_def IsAbs_def)

lemma of_elems_neq:
  assumes "list_all plain (es @ [e])"
  shows "of_elems True es \<noteq> of_elems True (es @ [e])"
proof -
  have "length (of_elems True (es @ [e])) \<noteq> length (of_elems True es)"
    by (cases "es = []") (simp_all add: of_elems_snoc, use assms in \<open>simp add: plain_def of_elems_def\<close>)
  then show ?thesis by metis
qed

lemma Clean_abs: "IsAbs path \<Longrightarrow> Clean path = of_elems True (elems path)"
  by (simp add: Clean_def)

lemma IsAbs_of_elems [simp]: "IsAbs (of_elems True es)"
  by (simp add: of_elems_def IsAbs_def)

lemma elems_Clean: "IsAbs path \<Longrightarrow> elems (Clean path) = elems path"
  by (simp add: Clean_abs elems_of_elems elems_plain)

text \<open>A relative path that does not lead up stays below its base.\<close>

lemma strip_common_prefix: "strip_common bs ts = ([], r) \<Longrightarrow> ts = bs @ r"
  by (induction bs ts rule: strip_common.induct) (auto split: if_splits)

lemma rel_abs_within:
  assumes "IsAbs base" "IsAbs targ" "rel_abs base targ \<noteq> ''..''" "\<not> HasPrefix (rel_abs base targ) ''../''"
  shows "prefix (elems base) (elems targ)"
proof (cases "Clean base = Clean targ")
  case True
  then show ?thesis using elems_Clean assms(1,2) by (metis prefix_order.refl)
next
  case False
  obtain bs ts where st: "strip_common (elems base) (elems targ) = (bs, ts)" by fastforce
  show ?thesis
  proof (cases bs)
    case Nil
    then show ?thesis using strip_common_prefix st by (auto simp: prefix_def)
  next
    case (Cons b bs')
    have "rel_abs base targ = join ''/'' (''..'' # replicate (length bs') ''..'' @ ts)"
      using False st Cons by (simp add: rel_abs_def)
    then show ?thesis using assms(3,4)
      by (cases "replicate (length bs') ''..'' @ ts") (auto simp: HasPrefix_append)
  qed
qed

end
