(* ===== verification/Policy_Reader.thy ===== *)
theory Policy_Reader
  imports Go_Filepath Go_Runes "HOL-Library.AList"
begin

unbundle bit_operations_syntax

text \<open>
  The reader of policy files, \<open>src/internal/injectionpolicy/reader.go\<close>: it opens a path one component at a
  time without following links, accepts only directories and files that no other user can change,
  reads the file three times and accounts for the size of the bundle. The descriptors of the operating
  system are the nodes of a \<open>policy_fs\<close>; what the file looks like at the three times is a parameter, so
  every interleaving with other processes is covered.
\<close>

section \<open>Files and directories\<close>

record Stat =
  st_dev :: nat
  st_ino :: nat
  st_mode :: nat
  st_uid :: nat
  st_gid :: nat
  st_nlink :: nat
  st_size :: int
  st_modTime :: int
  st_changeTime :: int

definition file_type :: "Stat \<Rightarrow> nat" where "file_type st = st_mode st AND 0xF000"
definition S_IFDIR :: nat where "S_IFDIR = 0x4000"
definition S_IFREG :: nat where "S_IFREG = 0x8000"

definition other_writable :: "Stat \<Rightarrow> bool" where
  "other_writable st \<longleftrightarrow> st_mode st AND 18 \<noteq> 0"

definition sticky :: "Stat \<Rightarrow> bool" where
  "sticky st \<longleftrightarrow> st_mode st AND 512 \<noteq> 0"

datatype open_error = ELOOP | ENOTDIR | OtherErrno

text \<open>
  A descriptor \<open>n\<close>: \<open>fs_openat n c dir\<close> opens its entry \<open>c\<close> with \<open>O_NOFOLLOW\<close>, as a directory or not. The status, the
  absence of an extended ACL, the rewinds and the content of a file are given per time: 0 is before the
  first read, 1 after it, 2 after the last. \<open>fs_no_acl t n lenient\<close> is whether \<open>rejectPolicyACL\<close> accepts.
\<close>

record 'n policy_fs =
  fs_cwd :: "string option"
  fs_darwin :: bool
  fs_euid :: nat
  fs_root :: "'n option"
  fs_openat :: "'n \<Rightarrow> string \<Rightarrow> bool \<Rightarrow> (open_error, 'n) result"
  fs_fstat :: "nat \<Rightarrow> 'n \<Rightarrow> Stat option"
  fs_no_acl :: "nat \<Rightarrow> 'n \<Rightarrow> bool \<Rightarrow> bool"
  fs_close :: "'n \<Rightarrow> bool"
  fs_seek :: "nat \<Rightarrow> 'n \<Rightarrow> bool"
  fs_content :: "nat \<Rightarrow> 'n \<Rightarrow> string option"

datatype reader_error =
    InvalidLimits
  | TooManyFiles nat
  | NoWorkingDirectory
  | NoFileName
  | OpenRoot
  | PolicyStatFailed
  | NonDirectory string
  | UnsafeDirectory string
  | UntrustedAncestor string
  | ExtendedACL string
  | UnsafeComponent
  | SymbolicLink
  | OpenFailed string
  | PolicyCloseFailed
  | NotAnchored
  | NotRegular
  | NotOwned
  | PolicyReadFailed
  | ChangedWhileRead
  | LimitExceeded bool int
  | SizeChanged
  | NotUtf8
  | SeekFailed

section \<open>Opening a file\<close>

definition validatePolicyDirectory ::
  "'n policy_fs \<Rightarrow> 'n \<Rightarrow> string \<Rightarrow> Stat \<Rightarrow> bool \<Rightarrow> (reader_error, bool) result" where
  "validatePolicyDirectory fs n path st anchored =
     (if file_type st \<noteq> S_IFDIR \<or> st_ino st = 0 then Inl (NonDirectory path)
      else
        (let ownedAndControlled = (st_uid st = fs_euid fs \<and> \<not> other_writable st);
             systemAncestor = (\<not> anchored \<and> st_uid st = 0 \<and> st_uid st \<noteq> fs_euid fs \<and> \<not> other_writable st) in
         if anchored then
           (if \<not> ownedAndControlled then Inl (UnsafeDirectory path)
            else if \<not> fs_no_acl fs 0 n False then Inl (ExtendedACL path)
            else Inr True)
         else if st_uid st = 0 \<and> (\<not> other_writable st \<or> sticky st) then
           (if \<not> fs_no_acl fs 0 n systemAncestor then Inl (ExtendedACL path)
            else Inr (fs_euid fs = 0 \<and> st_mode st AND 63 = 0 \<and> \<not> sticky st))
         else if ownedAndControlled then
           (if \<not> fs_no_acl fs 0 n systemAncestor then Inl (ExtendedACL path) else Inr True)
         else Inl (UntrustedAncestor path)))"

definition canonicalPolicySystemPath :: "bool \<Rightarrow> string \<Rightarrow> string" where
  "canonicalPolicySystemPath darwin path =
     (if darwin \<and> list_ex (\<lambda>p. path = p \<or> HasPrefix path (p @ ''/'')) [''/var'', ''/etc'', ''/tmp'']
      then Join [''/private'', tl path] else path)"

definition filepath_Abs :: "string option \<Rightarrow> string \<Rightarrow> string option" where
  "filepath_Abs cwd path =
     (if IsAbs path then Some (Clean path) else map_option (\<lambda>wd. Join [wd, path]) cwd)"

text \<open>
  The loop over the components. \<open>walked\<close> are the components behind it.
\<close>

fun open_components ::
  "'n policy_fs \<Rightarrow> 'n \<Rightarrow> bool \<Rightarrow> string list \<Rightarrow> string list \<Rightarrow> (reader_error, 'n) result" where
  "open_components fs fd anchored walked [] = Inr fd"
| "open_components fs fd anchored walked (component # components) =
     (if component \<in> {[], ''.'', ''..''} then Inl UnsafeComponent
      else
        (let leaf = (components = []) in
         case fs_openat fs fd component (\<not> leaf) of
           Inl e \<Rightarrow> if e = ELOOP \<or> e = ENOTDIR then Inl SymbolicLink else Inl (OpenFailed component)
         | Inr nextFD \<Rightarrow>
             if \<not> fs_close fs fd then Inl PolicyCloseFailed
             else if leaf then (if \<not> anchored then Inl NotAnchored else Inr nextFD)
             else
               (case fs_fstat fs 0 nextFD of
                  None \<Rightarrow> Inl PolicyStatFailed
                | Some st \<Rightarrow>
                    (case validatePolicyDirectory fs nextFD (''/'' @ join ''/'' (walked @ [component])) st anchored of
                       Inl e \<Rightarrow> Inl e
                     | Inr anchored' \<Rightarrow>
                         open_components fs nextFD anchored' (walked @ [component]) components))))"

definition openPolicyFileNoFollow :: "'n policy_fs \<Rightarrow> string \<Rightarrow> (reader_error, 'n) result" where
  "openPolicyFileNoFollow fs path =
     (case filepath_Abs (fs_cwd fs) path of
        None \<Rightarrow> Inl NoWorkingDirectory
      | Some abs0 \<Rightarrow>
          (let abs = canonicalPolicySystemPath (fs_darwin fs) (Clean abs0) in
           if \<not> IsAbs abs \<or> abs = ''/'' then Inl NoFileName
           else
             (case fs_root fs of
                None \<Rightarrow> Inl OpenRoot
              | Some root \<Rightarrow>
                  (case fs_fstat fs 0 root of
                     None \<Rightarrow> Inl PolicyStatFailed
                   | Some rootStat \<Rightarrow>
                       (case validatePolicyDirectory fs root ''/'' rootStat False of
                          Inl e \<Rightarrow> Inl e
                        | Inr anchored \<Rightarrow> open_components fs root anchored [] (split_on SLASH (tl abs)))))))"

section \<open>Reading it\<close>

definition statTrustedPolicyFile :: "'n policy_fs \<Rightarrow> nat \<Rightarrow> 'n \<Rightarrow> (reader_error, Stat) result" where
  "statTrustedPolicyFile fs t n =
     (case fs_fstat fs t n of
        None \<Rightarrow> Inl PolicyStatFailed
      | Some st \<Rightarrow>
          if file_type st \<noteq> S_IFREG \<or> st_ino st = 0 \<or> st_nlink st \<noteq> 1 then Inl NotRegular
          else if st_uid st \<noteq> fs_euid fs \<or> other_writable st then Inl NotOwned
          else if \<not> fs_no_acl fs t n False then Inl (ExtendedACL [])
          else Inr st)"

definition samePolicyFile :: "Stat \<Rightarrow> Stat \<Rightarrow> bool" where
  "samePolicyFile before after \<longleftrightarrow> before = after"

definition PolicyFileMaxBytes :: int where "PolicyFileMaxBytes = 16 * 2 ^ 20"
definition PolicyBundleMaxBytes :: int where "PolicyBundleMaxBytes = 64 * 2 ^ 20"
definition PolicyBundleMaxFiles :: nat where "PolicyBundleMaxFiles = 4096"

record PolicyFile =
  pf_Bytes :: string
  pf_Sha256 :: string

record BundleReader =
  br_bytes :: int
  br_files :: nat
  br_fileLimit :: int
  br_bundleLimit :: int
  br_fileLimitCount :: nat
  br_snapshots :: "(string \<times> PolicyFile) list"

definition NewBundleReaderWithLimits :: "int \<Rightarrow> int \<Rightarrow> nat \<Rightarrow> BundleReader" where
  "NewBundleReaderWithLimits fileLimit bundleLimit fileLimitCount =
     \<lparr>br_bytes = 0, br_files = 0, br_fileLimit = fileLimit, br_bundleLimit = bundleLimit,
      br_fileLimitCount = fileLimitCount, br_snapshots = []\<rparr>"

definition NewBundleReader :: BundleReader where
  "NewBundleReader = NewBundleReaderWithLimits PolicyFileMaxBytes PolicyBundleMaxBytes PolicyBundleMaxFiles"

text \<open>\<open>io.ReadAll(io.LimitReader(file, limit+1))\<close>.\<close>

definition read_limited :: "'n policy_fs \<Rightarrow> nat \<Rightarrow> 'n \<Rightarrow> int \<Rightarrow> string option" where
  "read_limited fs t n limit = map_option (take (nat (limit + 1))) (fs_content fs t n)"

definition same_digest :: "(string \<Rightarrow> string) \<Rightarrow> string \<Rightarrow> string \<Rightarrow> bool" where
  "same_digest H a b \<longleftrightarrow> length a = length b \<and> H a = H b"

text \<open>
  \<open>Read\<close> of an open file within \<open>limit\<close>: the accepted bytes. An error closes the file; the error of that close
  is only added to the message.
\<close>

definition read_open ::
  "(string \<Rightarrow> string) \<Rightarrow> 'n policy_fs \<Rightarrow> 'n \<Rightarrow> int \<Rightarrow> reader_error \<Rightarrow> (reader_error, string) result" where
  "read_open H fs n limit over =
     (case statTrustedPolicyFile fs 0 n of Inl e \<Rightarrow> Inl e
      | Inr before \<Rightarrow>
     (case read_limited fs 0 n limit of None \<Rightarrow> Inl PolicyReadFailed
      | Some data \<Rightarrow>
     (case statTrustedPolicyFile fs 1 n of Inl e \<Rightarrow> Inl e
      | Inr after \<Rightarrow>
     if \<not> samePolicyFile before after then Inl ChangedWhileRead
     else if limit < int (length data) then Inl over
     else if st_size after \<noteq> int (length data) then Inl SizeChanged
     else if \<not> ValidString data then Inl NotUtf8
     else if \<not> fs_seek fs 0 n then Inl SeekFailed
     else
     (case read_limited fs 1 n limit of None \<Rightarrow> Inl PolicyReadFailed
      | Some confirmed \<Rightarrow>
     if \<not> same_digest H confirmed data then Inl ChangedWhileRead
     else if \<not> fs_seek fs 1 n then Inl SeekFailed
     else
     (case read_limited fs 2 n limit of None \<Rightarrow> Inl PolicyReadFailed
      | Some accepted \<Rightarrow>
     if \<not> same_digest H accepted data then Inl ChangedWhileRead
     else
     (case statTrustedPolicyFile fs 2 n of Inl e \<Rightarrow> Inl e
      | Inr acceptedStat \<Rightarrow>
     if \<not> samePolicyFile before acceptedStat then Inl ChangedWhileRead
     else if \<not> fs_close fs n then Inl PolicyCloseFailed
     else Inr accepted))))))"

text \<open>The limit of the next read, the smaller of the two, and the error that names it.\<close>

definition remaining_bytes :: "BundleReader \<Rightarrow> int" where
  "remaining_bytes r = max 0 (br_bundleLimit r - br_bytes r)"

definition read_limit :: "BundleReader \<Rightarrow> int" where
  "read_limit r = (if remaining_bytes r < br_fileLimit r then remaining_bytes r else br_fileLimit r)"

definition limit_error :: "BundleReader \<Rightarrow> reader_error" where
  "limit_error r =
     LimitExceeded (remaining_bytes r < br_fileLimit r)
       (if remaining_bytes r < br_fileLimit r then br_bundleLimit r else read_limit r)"

definition Read ::
  "(string \<Rightarrow> string) \<Rightarrow> 'n policy_fs \<Rightarrow> BundleReader \<Rightarrow> string \<Rightarrow> (reader_error, PolicyFile) result \<times> BundleReader" where
  "Read H fs r path =
     (case map_of (br_snapshots r) path of
        Some snapshot \<Rightarrow> (Inr snapshot, r\<lparr>br_snapshots := AList.delete path (br_snapshots r)\<rparr>)
      | None \<Rightarrow>
          if br_fileLimit r \<le> 0 \<or> br_bundleLimit r \<le> 0 \<or> br_fileLimitCount r = 0 \<or>
             PolicyFileMaxBytes < br_fileLimit r \<or> PolicyBundleMaxBytes < br_bundleLimit r \<or>
             PolicyBundleMaxFiles < br_fileLimitCount r
          then (Inl InvalidLimits, r)
          else if br_fileLimitCount r \<le> br_files r then (Inl (TooManyFiles (br_fileLimitCount r)), r)
          else
            (case openPolicyFileNoFollow fs path of
               Inl e \<Rightarrow> (Inl e, r)
             | Inr n \<Rightarrow>
                 (case read_open H fs n (read_limit r) (limit_error r) of
                    Inl e \<Rightarrow> (Inl e, r)
                  | Inr accepted \<Rightarrow>
                      (Inr \<lparr>pf_Bytes = accepted, pf_Sha256 = ''sha256:'' @ hex_encode (H accepted)\<rparr>,
                       r\<lparr>br_bytes := br_bytes r + int (length accepted), br_files := Suc (br_files r)\<rparr>))))"

definition ReadAndPin ::
  "(string \<Rightarrow> string) \<Rightarrow> 'n policy_fs \<Rightarrow> BundleReader \<Rightarrow> string \<Rightarrow> (reader_error, PolicyFile) result \<times> BundleReader" where
  "ReadAndPin H fs r path =
     (case Read H fs r path of
        (Inl e, r') \<Rightarrow> (Inl e, r')
      | (Inr fl, r') \<Rightarrow> (Inr fl, r'\<lparr>br_snapshots := AList.update path fl (br_snapshots r')\<rparr>))"

definition ReadFile :: "(string \<Rightarrow> string) \<Rightarrow> 'n policy_fs \<Rightarrow> string \<Rightarrow> (reader_error, string) result" where
  "ReadFile H fs path = (case Read H fs NewBundleReader path of (Inl e, _) \<Rightarrow> Inl e | (Inr fl, _) \<Rightarrow> Inr (pf_Bytes fl))"

section \<open>No other user can change what is read\<close>









lemma read_open_Inr:
  assumes "read_open H fs n limit over = Inr accepted"
  shows "\<exists>st. statTrustedPolicyFile fs 0 n = Inr st \<and> statTrustedPolicyFile fs 2 n = Inr st \<and>
    int (length accepted) = st_size st \<and> int (length accepted) \<le> limit \<and>
    read_limited fs 2 n limit = Some accepted"
  using assms
  by (auto simp: read_open_def samePolicyFile_def same_digest_def split: if_splits option.splits sum.splits)



lemma Read_Inr:
  assumes "Read H fs r path = (Inr fl, r')" "map_of (br_snapshots r) path = None"
  shows "\<exists>n. openPolicyFileNoFollow fs path = Inr n \<and> read_open H fs n (read_limit r) (limit_error r) = Inr (pf_Bytes fl) \<and>
    br_files r < br_fileLimitCount r \<and> br_bundleLimit r \<le> PolicyBundleMaxBytes \<and>
    r' = r\<lparr>br_bytes := br_bytes r + int (length (pf_Bytes fl)), br_files := Suc (br_files r)\<rparr>"
  using assms by (auto simp: Read_def split: if_splits sum.splits)

lemma read_limit_le: "read_limit r \<le> br_fileLimit r" "read_limit r \<le> max 0 (br_bundleLimit r - br_bytes r)"
  by (auto simp: read_limit_def remaining_bytes_def)




section \<open>The bounds of a bundle\<close>

definition snapshot_bytes :: "(string \<times> PolicyFile) list \<Rightarrow> nat" where
  "snapshot_bytes s = sum_list (map (\<lambda>(_, fl). length (pf_Bytes fl)) s)"

definition file_bytes :: "PolicyFile list \<Rightarrow> nat" where
  "file_bytes fls = sum_list (map (\<lambda>fl. length (pf_Bytes fl)) fls)"

text \<open>
  A sequence of calls, each with the file system that it finds: \<open>True\<close> for \<open>ReadAndPin\<close>. The files that \<open>Read\<close>
  handed out.
\<close>

fun run_reads ::
  "(string \<Rightarrow> string) \<Rightarrow> ('n policy_fs \<times> bool \<times> string) list \<Rightarrow> BundleReader \<Rightarrow> PolicyFile list \<times> BundleReader" where
  "run_reads H [] r = ([], r)"
| "run_reads H ((fs, pin, path) # calls) r =
     (if pin then run_reads H calls (snd (ReadAndPin H fs r path))
      else case Read H fs r path of
        (Inl e, r') \<Rightarrow> run_reads H calls r'
      | (Inr fl, r') \<Rightarrow> (case run_reads H calls r' of (fls, r'') \<Rightarrow> (fl # fls, r'')))"

definition reader_inv :: "nat \<Rightarrow> nat \<Rightarrow> BundleReader \<Rightarrow> bool" where
  "reader_inv files bytes r \<longleftrightarrow>
     int (bytes + snapshot_bytes (br_snapshots r)) \<le> br_bytes r \<and> br_bytes r \<le> br_bundleLimit r \<and>
     files + length (br_snapshots r) \<le> br_files r \<and> br_files r \<le> br_fileLimitCount r \<and>
     distinct (map fst (br_snapshots r)) \<and>
     list_all (\<lambda>(_, fl). int (length (pf_Bytes fl)) \<le> br_fileLimit r) (br_snapshots r)"

lemma delete_snapshot:
  assumes "map_of s p = Some fl" "distinct (map fst s)"
  shows "snapshot_bytes (AList.delete p s) + length (pf_Bytes fl) = snapshot_bytes s"
    "Suc (length (AList.delete p s)) = length s"
proof -
  have d: "AList.delete p s = s" if "p \<notin> fst ` set s" for s :: "(string \<times> PolicyFile) list"
    using that by (auto simp: AList.delete_eq filter_id_conv image_iff)
  show "snapshot_bytes (AList.delete p s) + length (pf_Bytes fl) = snapshot_bytes s"
    "Suc (length (AList.delete p s)) = length s"
    using assms by (induction s) (auto simp: snapshot_bytes_def AList.delete_eq d [unfolded AList.delete_eq] split: if_splits)
qed

lemma Read_inv:
  assumes "reader_inv files bytes r" "Read H fs r path = (Inr fl, r')"
  shows "reader_inv (Suc files) (bytes + length (pf_Bytes fl)) r' \<and> int (length (pf_Bytes fl)) \<le> br_fileLimit r \<and>
    map_of (br_snapshots r') path = None \<and> br_fileLimit r' = br_fileLimit r \<and> br_bundleLimit r' = br_bundleLimit r \<and>
    br_fileLimitCount r' = br_fileLimitCount r"
proof (cases "map_of (br_snapshots r) path")
  case None
  from Read_Inr [OF assms(2) None] obtain n where n: "read_open H fs n (read_limit r) (limit_error r) = Inr (pf_Bytes fl)"
    "br_files r < br_fileLimitCount r"
    "r' = r\<lparr>br_bytes := br_bytes r + int (length (pf_Bytes fl)), br_files := Suc (br_files r)\<rparr>" by blast
  then have "int (length (pf_Bytes fl)) \<le> read_limit r" using read_open_Inr [OF n(1)] by auto
  then have "int (length (pf_Bytes fl)) \<le> br_fileLimit r" "int (length (pf_Bytes fl)) \<le> br_bundleLimit r - br_bytes r"
    using read_limit_le [of r] assms(1) by (auto simp: reader_inv_def)
  then show ?thesis using assms(1) n None by (auto simp: reader_inv_def)
next
  case (Some s)
  then have s: "fl = s" "r' = r\<lparr>br_snapshots := AList.delete path (br_snapshots r)\<rparr>" using assms(2) by (auto simp: Read_def)
  have d: "distinct (map fst (br_snapshots r))" using assms(1) by (simp add: reader_inv_def)
  have "int (length (pf_Bytes fl)) \<le> br_fileLimit r"
    using assms(1) map_of_SomeD [OF Some] s(1) by (auto simp: reader_inv_def list_all_iff)
  moreover have "list_all (\<lambda>(_, fl). int (length (pf_Bytes fl)) \<le> br_fileLimit r) (AList.delete path (br_snapshots r))"
    using assms(1) by (auto simp: reader_inv_def list_all_iff AList.delete_eq)
  ultimately show ?thesis using assms(1) s delete_snapshot [OF Some d] d
    by (auto simp: reader_inv_def distinct_delete delete_conv')
qed

lemma Read_Inl: "Read H fs r path = (Inl e, r') \<Longrightarrow> r' = r"
  by (auto simp: Read_def Let_def split: if_splits sum.splits option.splits)

lemma update_new: "map_of t k = None \<Longrightarrow> AList.update k v t = t @ [(k, v)]"
  by (induction t) (auto split: if_splits)

lemma ReadAndPin_inv:
  assumes "reader_inv files bytes r"
  shows "reader_inv files bytes (snd (ReadAndPin H fs r path)) \<and>
    br_fileLimit (snd (ReadAndPin H fs r path)) = br_fileLimit r \<and>
    br_bundleLimit (snd (ReadAndPin H fs r path)) = br_bundleLimit r \<and>
    br_fileLimitCount (snd (ReadAndPin H fs r path)) = br_fileLimitCount r"
proof (cases "Read H fs r path")
  case (Pair x r')
  show ?thesis
  proof (cases x)
    case (Inl e)
    then show ?thesis using Pair assms Read_Inl [OF Pair [unfolded Inl]] by (simp add: ReadAndPin_def)
  next
    case (Inr fl)
    then show ?thesis using Read_inv [OF assms, of H fs path fl r'] Pair
      by (auto simp: ReadAndPin_def reader_inv_def update_new snapshot_bytes_def map_of_eq_None_iff)
  qed
qed

lemma run_reads_inv:
  assumes "run_reads H calls r = (fls, r')" "reader_inv files bytes r"
  shows "reader_inv (files + length fls) (bytes + file_bytes fls) r' \<and>
    list_all (\<lambda>fl. int (length (pf_Bytes fl)) \<le> br_fileLimit r) fls \<and>
    br_bundleLimit r' = br_bundleLimit r \<and> br_fileLimitCount r' = br_fileLimitCount r"
  using assms
proof (induction H calls r arbitrary: files bytes fls rule: run_reads.induct)
  case (1 H r)
  then show ?case by (auto simp: file_bytes_def)
next
  case (2 H fs pin path calls r)
  show ?case
  proof (cases pin)
    case True
    then show ?thesis using "2.IH"(1) [OF True, of fls] "2.prems" ReadAndPin_inv [OF "2.prems"(2), of H fs path] by auto
  next
    case False
    obtain x r1 where rd: "Read H fs r path = (x, r1)" by fastforce
    show ?thesis
    proof (cases x)
      case (Inl e)
      then have "r1 = r" using rd Read_Inl by blast
      then show ?thesis using "2.IH"(2) [OF False rd [symmetric] Inl, of fls] "2.prems" rd Inl False by auto
    next
      case (Inr fl)
      obtain fls1 where f: "run_reads H calls r1 = (fls1, r')" "fls = fl # fls1"
        using "2.prems"(1) False rd Inr by (auto split: prod.splits)
      note inv = Read_inv [OF "2.prems"(2) rd [unfolded Inr]]
      then have "reader_inv (Suc files + length fls1) (bytes + length (pf_Bytes fl) + file_bytes fls1) r' \<and>
          list_all (\<lambda>fl. int (length (pf_Bytes fl)) \<le> br_fileLimit r1) fls1 \<and>
          br_bundleLimit r' = br_bundleLimit r1 \<and> br_fileLimitCount r' = br_fileLimitCount r1"
        using "2.IH"(3) [OF False rd [symmetric] Inr f(1)] by blast
      then show ?thesis using inv f(2) by (simp add: file_bytes_def add.assoc)
    qed
  qed
qed

text \<open>
  C38: a bundle is bounded. Over any sequence of reads and pinned reads with a new reader, whatever the
  file system does, the files handed out are at most 4096, none is above 16 MiB, and together they are
  at most 64 MiB. Handed out is what \<open>Read\<close> returns, a pinned file included; the result of \<open>ReadAndPin\<close> itself is not counted.
\<close>

theorem bundle_reads_bounded:
  "length (fst (run_reads H calls NewBundleReader)) \<le> 4096 \<and>
   int (file_bytes (fst (run_reads H calls NewBundleReader))) \<le> 64 * 2 ^ 20 \<and>
   list_all (\<lambda>fl. int (length (pf_Bytes fl)) \<le> 16 * 2 ^ 20) (fst (run_reads H calls NewBundleReader))"
proof -
  obtain fls r' where r: "run_reads H calls NewBundleReader = (fls, r')" by fastforce
  have "reader_inv 0 0 NewBundleReader"
    by (simp add: reader_inv_def NewBundleReader_def NewBundleReaderWithLimits_def snapshot_bytes_def PolicyBundleMaxBytes_def)
  from run_reads_inv [OF r this] show ?thesis unfolding r fst_conv
    by (auto simp: reader_inv_def NewBundleReader_def NewBundleReaderWithLimits_def PolicyFileMaxBytes_def
        PolicyBundleMaxBytes_def PolicyBundleMaxFiles_def)
qed

text \<open>What is left of the file count and the pinned files: every successful \<open>Read\<close> uses up a part of it.\<close>

definition reader_budget :: "BundleReader \<Rightarrow> nat" where
  "reader_budget r = length (br_snapshots r) + (br_fileLimitCount r - br_files r)"

lemma Read_budget:
  assumes "Read H fs r path = (Inr fl, r')"
  shows "reader_budget r' < reader_budget r"
proof (cases "map_of (br_snapshots r) path")
  case None
  then show ?thesis using Read_Inr [OF assms None] by (auto simp: reader_budget_def)
next
  case (Some s)
  then have "(path, s) \<in> set (br_snapshots r)" by (rule map_of_SomeD)
  then have "length (AList.delete path (br_snapshots r)) < length (br_snapshots r)"
    unfolding AList.delete_eq by (rule length_filter_less) simp
  then show ?thesis using assms Some by (auto simp: reader_budget_def Read_def)
qed

end
