(* ===== verification/Go_Sort.thy ===== *)
theory Go_Sort
  imports Go_Prelude "HOL-Library.Multiset"
begin

text \<open>
  \<open>sort.SliceStable\<close> and \<open>slices.SortedFunc\<close> for a strict weak order. The locale states what a
  comparison must satisfy; the interpretations are with the comparisons of the program.
\<close>

fun insert_stable :: "('a \<Rightarrow> 'a \<Rightarrow> bool) \<Rightarrow> 'a \<Rightarrow> 'a list \<Rightarrow> 'a list" where
  "insert_stable lt x [] = [x]"
| "insert_stable lt x (y # ys) = (if lt y x then y # insert_stable lt x ys else x # y # ys)"

definition sort_stable :: "('a \<Rightarrow> 'a \<Rightarrow> bool) \<Rightarrow> 'a list \<Rightarrow> 'a list" where
  "sort_stable lt xs = foldr (insert_stable lt) xs []"

lemma mset_insert_stable [simp]: "mset (insert_stable lt x ys) = add_mset x (mset ys)"
  by (induction ys) auto

lemma mset_sort_stable [simp]: "mset (sort_stable lt xs) = mset xs"
  by (induction xs) (simp_all add: sort_stable_def)

lemma set_insert_stable [simp]: "set (insert_stable lt x ys) = insert x (set ys)"
  using mset_insert_stable by (metis set_mset_add_mset_insert set_mset_mset)

lemma set_sort_stable [simp]: "set (sort_stable lt xs) = set xs"
  using mset_sort_stable by (metis set_mset_mset)

lemma length_sort_stable [simp]: "length (sort_stable lt xs) = length xs"
  using mset_sort_stable by (metis size_mset)

lemma distinct_sort_stable [simp]: "distinct (sort_stable lt xs) = distinct xs"
  using mset_sort_stable by (metis mset_eq_imp_distinct_iff)

locale weak_order =
  fixes lt :: "'a \<Rightarrow> 'a \<Rightarrow> bool"
  assumes asym: "lt a b \<Longrightarrow> \<not> lt b a"
    and not_trans: "\<not> lt a b \<Longrightarrow> \<not> lt b c \<Longrightarrow> \<not> lt a c"
begin

lemma sorted_insert: "sorted_wrt (\<lambda>a b. \<not> lt b a) ys \<Longrightarrow> sorted_wrt (\<lambda>a b. \<not> lt b a) (insert_stable lt x ys)"
proof (induction ys)
  case (Cons y ys)
  show ?case
  proof (cases "lt y x")
    case True
    then show ?thesis using Cons asym [OF True] by auto
  next
    case False
    then show ?thesis using Cons.prems not_trans [of _ y x] by auto
  qed
qed simp

lemma sorted_sort: "sorted_wrt (\<lambda>a b. \<not> lt b a) (sort_stable lt xs)"
  unfolding sort_stable_def by (induction xs) (simp_all add: sorted_insert)

end

end
