(* ===== verification/Policy_Bundle.thy ===== *)
theory Policy_Bundle
  imports Toml_Document Policy_Reader Go_Sort
begin

text \<open>
  The loader of injection policies, \<open>src/internal/injectionpolicy/bundle_load.go\<close>: the parser of one
  policy file with its \<open>[[copies]]\<close> blocks, the merge of a fragment into a policy, and the recursive walk
  over the includes. A \<open>map[string]any\<close> is an association list; none of its values is nil. Where the
  code ranges over a map to look for the first bad key, the order of the list decides which of the
  bad keys the error names.
\<close>

section \<open>Data\<close>

definition RootPolicyKeys :: "string list" where
  "RootPolicyKeys =
     [''version'', ''includes'', ''documents'', ''ssh'', ''copies'', ''credentials'', ''network'']"

datatype bundle_error =
    IncludeCycle "string list"
  | IncludedTwice string
  | UnsupportedKeys string "string list"
  | UnsupportedVersion tval
  | IncludesNotArray
  | KeepTable string string
  | DuplicateSetting string string string
  | KeepCopies string
  | ConflictingNetwork string string
  | UnsupportedArrayOfTable string string
  | UnsupportedCredentials string string
  | ScalarConflict string string
  | DuplicateCredential string string
  | UnsupportedTable string string
  | DuplicateAcrossForms string string string
  | TomlError toml_error
  | ReaderError reader_error
  | HookError string

record PolicySource =
  src_Path :: string
  src_Sha256 :: string
  src_Fragment :: table

text \<open>
  The hooks of a caller. \<open>Clone\<close> protects the loaded fragment from later stores; values of the model
  are not shared, so it has no counterpart.
\<close>

record LoadOptions =
  opt_Parse :: "string \<Rightarrow> string \<Rightarrow> (bundle_error, table) result"
  opt_ValidateInclude :: "tval \<Rightarrow> string \<Rightarrow> string \<Rightarrow> string \<Rightarrow> (bundle_error, string) result"
  opt_ValidateMerged :: "(table \<Rightarrow> bundle_error option) option"
  opt_RebasePath :: "tval \<Rightarrow> string \<Rightarrow> tval"
  opt_StrictVersion :: bool

section \<open>Checks of one fragment\<close>

definition unsupported_keys :: "string list \<Rightarrow> table \<Rightarrow> string list" where
  "unsupported_keys allowed t = sort_stable (<) (filter (\<lambda>k. k \<notin> set allowed) (map fst t))"

definition validateRootKeys :: "table \<Rightarrow> bundle_error option" where
  "validateRootKeys policy =
     (let unknown = unsupported_keys RootPolicyKeys policy in
      if unknown \<noteq> [] then Some (UnsupportedKeys ''root policy'' unknown) else None)"

definition fragmentVersionError :: "table \<Rightarrow> bool \<Rightarrow> bundle_error option" where
  "fragmentVersionError policy strict =
     (case map_of policy ''version'' of
        None \<Rightarrow> None
      | Some (TInt version) \<Rightarrow> if version \<noteq> 1 then Some (UnsupportedVersion (TInt version)) else None
      | Some raw \<Rightarrow> if strict then Some (UnsupportedVersion raw) else None)"

definition policy_includes :: "table \<Rightarrow> (bundle_error, tval list) result" where
  "policy_includes loaded =
     (case map_of loaded ''includes'' of
        None \<Rightarrow> Inr []
      | Some (TArr includes) \<Rightarrow> Inr includes
      | Some _ \<Rightarrow> Inl IncludesNotArray)"

section \<open>Merging a fragment\<close>

definition get_table :: "table \<Rightarrow> string \<Rightarrow> table" where
  "get_table p name = (case map_of p name of Some (TTable t) \<Rightarrow> t | _ \<Rightarrow> [])"

definition get_array :: "table \<Rightarrow> string \<Rightarrow> tval list" where
  "get_array p name = (case map_of p name of Some (TArr vs) \<Rightarrow> vs | _ \<Rightarrow> [])"

fun add_settings :: "string \<Rightarrow> string \<Rightarrow> table \<Rightarrow> table \<Rightarrow> (bundle_error, table) result" where
  "add_settings tableName sourcePath [] destination = Inr destination"
| "add_settings tableName sourcePath ((key, v) # settings) destination =
     (if map_of destination key \<noteq> None then Inl (DuplicateSetting tableName key sourcePath)
      else add_settings tableName sourcePath settings (AList.update key v destination))"

definition merge_table :: "string \<Rightarrow> table \<Rightarrow> string \<Rightarrow> table \<Rightarrow> (bundle_error, table) result" where
  "merge_table sourcePath addition tableName base =
     (case map_of addition tableName of
        None \<Rightarrow> Inr base
      | Some (TTable t) \<Rightarrow>
          (case add_settings tableName sourcePath t (get_table base tableName) of
             Inl e \<Rightarrow> Inl e
           | Inr destination \<Rightarrow> Inr (AList.update tableName (TTable destination) base))
      | Some _ \<Rightarrow> Inl (KeepTable tableName sourcePath))"

definition merge_copies :: "string \<Rightarrow> table \<Rightarrow> table \<Rightarrow> (bundle_error, table) result" where
  "merge_copies sourcePath addition base =
     (case map_of addition ''copies'' of
        None \<Rightarrow> Inr base
      | Some (TArr copies) \<Rightarrow> Inr (AList.update ''copies'' (TArr (get_array base ''copies'' @ copies)) base)
      | Some _ \<Rightarrow> Inl (KeepCopies sourcePath))"

fun add_network :: "string \<Rightarrow> table \<Rightarrow> table \<Rightarrow> (bundle_error, table) result" where
  "add_network sourcePath [] destination = Inr destination"
| "add_network sourcePath ((key, v) # settings) destination =
     (case map_of destination key of
        None \<Rightarrow> add_network sourcePath settings (AList.update key v destination)
      | Some existing \<Rightarrow>
          (case (existing, v) of
             (TArr existingList, TArr additionList) \<Rightarrow>
               add_network sourcePath settings (AList.update key (TArr (existingList @ additionList)) destination)
           | _ \<Rightarrow> Inl (ConflictingNetwork key sourcePath)))"

definition merge_network :: "string \<Rightarrow> table \<Rightarrow> table \<Rightarrow> (bundle_error, table) result" where
  "merge_network sourcePath addition base =
     (case map_of addition ''network'' of
        None \<Rightarrow> Inr base
      | Some (TTable network) \<Rightarrow>
          (case add_network sourcePath network (get_table base ''network'') of
             Inl e \<Rightarrow> Inl e
           | Inr destination \<Rightarrow> Inr (AList.update ''network'' (TTable destination) base))
      | Some _ \<Rightarrow> Inl (KeepTable ''network'' sourcePath))"

definition fragment_version :: "table \<Rightarrow> int" where
  "fragment_version p = (case map_of p ''version'' of Some (TInt v) \<Rightarrow> v | _ \<Rightarrow> 1)"

fun chain :: "('s \<Rightarrow> ('e, 's) result) list \<Rightarrow> 's \<Rightarrow> ('e, 's) result" where
  "chain [] s = Inr s"
| "chain (f # fs) s = (case f s of Inl e \<Rightarrow> Inl e | Inr s' \<Rightarrow> chain fs s')"

definition mergePolicyFragment :: "table \<Rightarrow> table \<Rightarrow> string \<Rightarrow> (bundle_error, table) result" where
  "mergePolicyFragment base addition sourcePath =
     (if fragment_version addition \<noteq> 1 then Inl (UnsupportedVersion (TInt (fragment_version addition)))
      else chain
        [merge_table sourcePath addition ''documents'', merge_table sourcePath addition ''ssh'',
         merge_table sourcePath addition ''credentials'', merge_copies sourcePath addition,
         merge_network sourcePath addition] base)"

section \<open>Rebasing\<close>

definition rebase_key :: "(tval \<Rightarrow> tval) \<Rightarrow> string \<Rightarrow> table \<Rightarrow> table" where
  "rebase_key f key t = (case map_of t key of None \<Rightarrow> t | Some v \<Rightarrow> AList.update key (f v) t)"

definition rebase_copy :: "(tval \<Rightarrow> tval) \<Rightarrow> tval \<Rightarrow> tval" where
  "rebase_copy f entry = (case entry of TTable t \<Rightarrow> TTable (rebase_key f ''source'' t) | _ \<Rightarrow> entry)"

definition rebase_identities :: "(tval \<Rightarrow> tval) \<Rightarrow> table \<Rightarrow> table" where
  "rebase_identities f t =
     (case map_of t ''identities'' of
        Some (TArr ids) \<Rightarrow> AList.update ''identities'' (TArr (map f ids)) t
      | _ \<Rightarrow> t)"

definition rebase_credential :: "(tval \<Rightarrow> tval) \<Rightarrow> tval \<Rightarrow> tval" where
  "rebase_credential f v = (case v of TTable t \<Rightarrow> TTable (rebase_key f ''source'' t) | _ \<Rightarrow> f v)"

definition rebase_value :: "(tval \<Rightarrow> tval) \<Rightarrow> string \<Rightarrow> tval \<Rightarrow> tval" where
  "rebase_value f key v =
     (case v of
        TTable t \<Rightarrow>
          if key = ''documents'' then TTable (map (\<lambda>(k, d). (k, f d)) t)
          else if key = ''ssh'' then
            TTable (rebase_identities f (rebase_key f ''known_hosts'' (rebase_key f ''config'' t)))
          else if key = ''credentials'' then TTable (map (\<lambda>(k, c). (k, rebase_credential f c)) t)
          else v
      | TArr vs \<Rightarrow> if key = ''copies'' then TArr (map (rebase_copy f) vs) else v
      | _ \<Rightarrow> v)"

definition RebasePolicyFragment :: "table \<Rightarrow> string \<Rightarrow> (tval \<Rightarrow> string \<Rightarrow> tval) \<Rightarrow> table" where
  "RebasePolicyFragment policy fragmentDir rebasePath =
     map (\<lambda>(key, v). (key, rebase_value (\<lambda>v. rebasePath v fragmentDir) key v)) policy"

section \<open>The walk over the includes\<close>

text \<open>
  \<open>filepath.Rel\<close> needs both paths absolute or both relative; the callers pass absolute paths.
\<close>

definition LogicalPolicyPath :: "string \<Rightarrow> string \<Rightarrow> string" where
  "LogicalPolicyPath policyPath entrypointRoot =
     (if IsAbs policyPath \<and> IsAbs entrypointRoot then rel_abs entrypointRoot policyPath else policyPath)"

definition include_label :: "nat \<Rightarrow> string" where
  "include_label i = ''includes['' @ dec i @ '']''"

definition merged_start :: table where
  "merged_start = [(''version'', TInt 1)]"

definition current_fragment :: "LoadOptions \<Rightarrow> bool \<Rightarrow> string \<Rightarrow> table \<Rightarrow> table" where
  "current_fragment opts nested policyPath loaded =
     (let current = AList.delete ''includes'' loaded in
      if nested then RebasePolicyFragment current (Dir policyPath) (opt_RebasePath opts) else current)"

definition finish_fragment ::
  "LoadOptions \<Rightarrow> bool \<Rightarrow> string \<Rightarrow> table \<Rightarrow> table \<Rightarrow> (bundle_error, table) result" where
  "finish_fragment opts nested policyPath loaded merged =
     (case mergePolicyFragment merged (current_fragment opts nested policyPath loaded) policyPath of
        Inl e \<Rightarrow> Inl e
      | Inr merged' \<Rightarrow>
          (case opt_ValidateMerged opts of
             None \<Rightarrow> Inr merged'
           | Some validate \<Rightarrow> (case validate merged' of Some e \<Rightarrow> Inl e | None \<Rightarrow> Inr merged')))"

text \<open>
  One file up to its includes: the read, the parse and the checks of the fragment.
\<close>

type_synonym 'r reader = "'r \<Rightarrow> string \<Rightarrow> (reader_error, PolicyFile) result \<times> 'r"

definition open_fragment ::
  "LoadOptions \<Rightarrow> 'r reader \<Rightarrow> string \<Rightarrow> 'r \<Rightarrow>
   (bundle_error, PolicyFile \<times> table \<times> tval list \<times> 'r) result" where
  "open_fragment opts read policyPath r =
     (case read r policyPath of
        (Inl e, _) \<Rightarrow> Inl (ReaderError e)
      | (Inr file, r') \<Rightarrow>
          (case opt_Parse opts (pf_Bytes file) policyPath of
             Inl e \<Rightarrow> Inl e
           | Inr loaded \<Rightarrow>
               (case validateRootKeys loaded of
                  Some e \<Rightarrow> Inl e
                | None \<Rightarrow>
                    (case fragmentVersionError loaded (opt_StrictVersion opts) of
                       Some e \<Rightarrow> Inl e
                     | None \<Rightarrow>
                         (case policy_includes loaded of
                            Inl e \<Rightarrow> Inl e
                          | Inr includes \<Rightarrow> Inr (file, loaded, includes, r'))))))"

text \<open>
  \<open>loadBundleRecursive\<close> and its loop over the includes. The state that the calls share is the set of
  loaded paths and the reader. The fuel bounds the depth of the recursion; \<open>None\<close> is a call that
  has not returned.
\<close>

type_synonym 'r loaded = "(bundle_error, table \<times> PolicySource list \<times> string list \<times> 'r) result option"

function loadBundleRecursive ::
  "nat \<Rightarrow> LoadOptions \<Rightarrow> 'r reader \<Rightarrow> string \<Rightarrow> string list \<Rightarrow> string \<Rightarrow> string list \<Rightarrow> 'r \<Rightarrow> 'r loaded"
and load_includes ::
  "nat \<Rightarrow> LoadOptions \<Rightarrow> 'r reader \<Rightarrow> string \<Rightarrow> string list \<Rightarrow> string \<Rightarrow> nat \<Rightarrow> tval list \<Rightarrow>
   table \<Rightarrow> PolicySource list \<Rightarrow> string list \<Rightarrow> 'r \<Rightarrow> 'r loaded"
where
  "loadBundleRecursive 0 opts read root activeStack policyPath loadedPaths r = None"
| "loadBundleRecursive (Suc fuel) opts read root activeStack policyPath loadedPaths r =
     (if policyPath \<in> set activeStack then Some (Inl (IncludeCycle (activeStack @ [policyPath])))
      else if policyPath \<in> set loadedPaths then Some (Inl (IncludedTwice policyPath))
      else
        (case open_fragment opts read policyPath r of
           Inl e \<Rightarrow> Some (Inl e)
         | Inr (file, loaded, includes, r') \<Rightarrow>
             (case load_includes fuel opts read root (activeStack @ [policyPath]) (Dir policyPath) 0 includes
                     merged_start [] (policyPath # loadedPaths) r' of
                None \<Rightarrow> None
              | Some (Inl e) \<Rightarrow> Some (Inl e)
              | Some (Inr (merged, sources, loadedPaths', r'')) \<Rightarrow>
                  (case finish_fragment opts (activeStack \<noteq> []) policyPath loaded merged of
                     Inl e \<Rightarrow> Some (Inl e)
                   | Inr merged' \<Rightarrow>
                       Some (Inr (merged', sources @ [\<lparr>src_Path = LogicalPolicyPath policyPath root,
                              src_Sha256 = pf_Sha256 file, src_Fragment = loaded\<rparr>], loadedPaths', r''))))))"
| "load_includes fuel opts read root stack dir i [] merged sources loadedPaths r =
     Some (Inr (merged, sources, loadedPaths, r))"
| "load_includes fuel opts read root stack dir i (include # includes) merged sources loadedPaths r =
     (case opt_ValidateInclude opts include (include_label i) dir root of
        Inl e \<Rightarrow> Some (Inl e)
      | Inr includePath \<Rightarrow>
          (case loadBundleRecursive fuel opts read root stack includePath loadedPaths r of
             None \<Rightarrow> None
           | Some (Inl e) \<Rightarrow> Some (Inl e)
           | Some (Inr (included, includedSources, loadedPaths', r')) \<Rightarrow>
               (case mergePolicyFragment merged included includePath of
                  Inl e \<Rightarrow> Some (Inl e)
                | Inr merged' \<Rightarrow>
                    load_includes fuel opts read root stack dir (Suc i) includes
                      merged' (sources @ includedSources) loadedPaths' r')))"
  by pat_completeness auto
termination
  by (relation "inv_image (less_than <*lex*> less_than)
      (case_sum (\<lambda>(fuel, _). (fuel, 0)) (\<lambda>(fuel, _, _, _, _, _, _, includes, _). (fuel, Suc (length includes))))")
    auto

definition LoadBundle ::
  "nat \<Rightarrow> string \<Rightarrow> string \<Rightarrow> 'r reader \<Rightarrow> 'r \<Rightarrow> LoadOptions \<Rightarrow> (bundle_error, table \<times> PolicySource list) result option" where
  "LoadBundle fuel policyPath entrypointRoot read r opts =
     (case loadBundleRecursive fuel opts read entrypointRoot [] policyPath [] r of
        None \<Rightarrow> None
      | Some (Inl e) \<Rightarrow> Some (Inl e)
      | Some (Inr (merged, sources, _)) \<Rightarrow> Some (Inr (merged, sources)))"

section \<open>Parsing one policy file\<close>

function extract_lines :: "string \<Rightarrow> nat \<Rightarrow> string list \<Rightarrow> (bundle_error, string list \<times> table list) result" where
  "extract_lines policyPath lineNo [] = Inr ([], [])"
| "extract_lines policyPath lineNo (rawLine # ls) =
     (let stripped = StripComment rawLine in
      if HasPrefix stripped ''[['' \<and> HasSuffix stripped '']]'' then
        (let tableName = TrimSpace (take (length stripped - 4) (drop 2 stripped)) in
         if tableName \<noteq> ''copies'' then Inl (UnsupportedArrayOfTable (at_line policyPath lineNo) tableName)
         else
           (let body = takeWhile (\<lambda>l. \<not> HasPrefix (StripComment l) ''['') ls in
            case Parse (concat (map (\<lambda>l. l @ [NL]) body)) policyPath of
              Inl e \<Rightarrow> Inl (TomlError e)
            | Inr block \<Rightarrow>
                (case extract_lines policyPath (Suc lineNo + length body)
                        (dropWhile (\<lambda>l. \<not> HasPrefix (StripComment l) ''['') ls) of
                   Inl e \<Rightarrow> Inl e
                 | Inr (kept, entries) \<Rightarrow> Inr ([] # kept, block # entries))))
      else
        (case extract_lines policyPath (Suc lineNo) ls of
           Inl e \<Rightarrow> Inl e
         | Inr (kept, entries) \<Rightarrow> Inr (rawLine # kept, entries)))"
  by pat_completeness auto
termination
  by (relation "measure (\<lambda>(_, _, ls). length ls)") (auto simp: less_Suc_eq_le length_dropWhile_le)

definition extractCopiesBlocks :: "string \<Rightarrow> string \<Rightarrow> (bundle_error, string \<times> table list) result" where
  "extractCopiesBlocks content policyPath =
     (case extract_lines policyPath 1 (split_on NL content) of
        Inl e \<Rightarrow> Inl e
      | Inr (kept, entries) \<Rightarrow> Inr (TrimSuffix (concat (map (\<lambda>l. l @ [NL]) kept)) [NL], entries))"

definition put_pairs :: "Pair list \<Rightarrow> table \<Rightarrow> table" where
  "put_pairs pairs t = fold (\<lambda>p. AList.update (pair_key p) (pair_value p)) pairs t"

fun put_new_pairs :: "string \<Rightarrow> string \<Rightarrow> Pair list \<Rightarrow> table \<Rightarrow> (bundle_error, table) result" where
  "put_new_pairs policyPath name [] target = Inr target"
| "put_new_pairs policyPath name (p # ps) target =
     (if map_of target (pair_key p) \<noteq> None
      then Inl (DuplicateAcrossForms (at_line policyPath (pair_line p)) name (pair_key p))
      else put_new_pairs policyPath name ps (AList.update (pair_key p) (pair_value p) target))"

definition credentials_prefix :: string where
  "credentials_prefix = ''credentials.''"

definition put_credential ::
  "string \<Rightarrow> string list \<Rightarrow> Table \<Rightarrow> table \<Rightarrow> (bundle_error, table) result" where
  "put_credential policyPath credentialTableKeys tab root =
     (let name = table_name tab; context = at_line policyPath (table_line tab);
          credentialKey = drop (length credentials_prefix) name;
          entry = TTable (put_pairs (table_pairs tab) []) in
      if credentialKey \<notin> set credentialTableKeys then Inl (UnsupportedCredentials context name)
      else
        (case map_of root ''credentials'' of
           None \<Rightarrow> Inr (AList.update ''credentials'' (TTable [(credentialKey, entry)]) root)
         | Some (TTable credentials) \<Rightarrow>
             if map_of credentials credentialKey \<noteq> None then Inl (DuplicateCredential context credentialKey)
             else Inr (AList.update ''credentials'' (TTable (AList.update credentialKey entry credentials)) root)
         | Some _ \<Rightarrow> Inl (ScalarConflict context ''credentials'')))"

definition put_table ::
  "string \<Rightarrow> string list \<Rightarrow> Table \<Rightarrow> table \<Rightarrow> (bundle_error, table) result" where
  "put_table policyPath credentialTableKeys tab root =
     (let name = table_name tab; context = at_line policyPath (table_line tab) in
      if HasPrefix name credentials_prefix then put_credential policyPath credentialTableKeys tab root
      else if name \<notin> {''documents'', ''ssh'', ''credentials'', ''network''} then Inl (UnsupportedTable context name)
      else
        (case map_of root name of
           None \<Rightarrow>
             (case put_new_pairs policyPath name (table_pairs tab) [] of
                Inl e \<Rightarrow> Inl e | Inr t \<Rightarrow> Inr (AList.update name (TTable t) root))
         | Some (TTable target) \<Rightarrow>
             (case put_new_pairs policyPath name (table_pairs tab) target of
                Inl e \<Rightarrow> Inl e | Inr t \<Rightarrow> Inr (AList.update name (TTable t) root))
         | Some _ \<Rightarrow> Inl (ScalarConflict context name)))"

definition documentToPolicyMap :: "Document \<Rightarrow> string \<Rightarrow> string list \<Rightarrow> (bundle_error, table) result" where
  "documentToPolicyMap doc policyPath credentialTableKeys =
     chain (map (put_table policyPath credentialTableKeys) (doc_tables doc))
       (put_pairs (table_pairs (top_level doc)) [])"

definition ParsePolicyTOML :: "string \<Rightarrow> string \<Rightarrow> string list \<Rightarrow> (bundle_error, table) result" where
  "ParsePolicyTOML content policyPath credentialTableKeys =
     (case extractCopiesBlocks content policyPath of
        Inl e \<Rightarrow> Inl e
      | Inr (subsetContent, copiesEntries) \<Rightarrow>
          (case ParseDocument subsetContent policyPath of
             Inl e \<Rightarrow> Inl (TomlError e)
           | Inr doc \<Rightarrow>
               (case documentToPolicyMap doc policyPath credentialTableKeys of
                  Inl e \<Rightarrow> Inl e
                | Inr root \<Rightarrow>
                    Inr (if copiesEntries \<noteq> [] then AList.update ''copies'' (TArr (map TTable copiesEntries)) root
                         else root))))"

end
