(* ===== verification/Bundle_Union.thy ===== *)
theory Bundle_Union
  imports Policy_Bundle
begin

text \<open>
  What the loader of injection policies does: the walk over the includes ends, and the policy that it
  returns is the union of the fragments of its files. The locale \<open>bundle_reader\<close> is what the walk needs of
  a reader to end; the reader of \<open>reader.go\<close> has it because of its limit on the number of files.
\<close>

section \<open>What a merged policy holds\<close>

definition merged_tables :: "string list" where
  "merged_tables = [''documents'', ''ssh'', ''credentials'']"

text \<open>The values that the fragments declare for one key of \<open>[network]\<close>, and their union.\<close>

definition network_values :: "table list \<Rightarrow> string \<Rightarrow> tval list" where
  "network_values fs k = concat (map (\<lambda>f. case map_of (get_table f ''network'') k of None \<Rightarrow> [] | Some v \<Rightarrow> [v]) fs)"

fun array_items :: "tval \<Rightarrow> tval list" where
  "array_items (TArr vs) = vs"
| "array_items _ = []"

fun is_array :: "tval \<Rightarrow> bool" where
  "is_array (TArr vs) = True"
| "is_array _ = False"

definition network_union :: "tval list \<Rightarrow> tval option" where
  "network_union vs =
     (case vs of [] \<Rightarrow> None | [v] \<Rightarrow> Some v | _ \<Rightarrow> Some (TArr (concat (map array_items vs))))"

definition network_of :: "table \<Rightarrow> table list \<Rightarrow> bool" where
  "network_of m fs \<longleftrightarrow>
     distinct (map fst (get_table m ''network'')) \<and>
     (\<forall>k. map_of (get_table m ''network'') k = network_union (network_values fs k) \<and>
       (1 < length (network_values fs k) \<longrightarrow> list_all is_array (network_values fs k)))"

definition settings_of :: "table \<Rightarrow> table list \<Rightarrow> bool" where
  "settings_of m fs \<longleftrightarrow>
     list_all (\<lambda>T. get_table m T = concat (map (\<lambda>f. get_table f T) fs)) merged_tables \<and>
     get_array m ''copies'' = concat (map (\<lambda>f. get_array f ''copies'') fs) \<and> network_of m fs"

text \<open>The shape of a merged policy.\<close>

definition entry_typed :: "string \<times> tval \<Rightarrow> bool" where
  "entry_typed kv =
     (case kv of (k, v) \<Rightarrow>
        (case v of
           TTable t \<Rightarrow> (k \<in> set merged_tables \<or> k = ''network'') \<and> distinct (map fst t)
         | TArr vs \<Rightarrow> k = ''copies''
         | _ \<Rightarrow> k = ''version''))"

definition policy_typed :: "table \<Rightarrow> bool" where
  "policy_typed m \<longleftrightarrow>
     distinct (map fst m) \<and> map_of m ''version'' = Some (TInt 1) \<and> list_all entry_typed m"

section \<open>Merging\<close>

lemma add_settings_append: "add_settings T p s d = Inr d' \<Longrightarrow> d' = d @ s"
  by (induction T p s d rule: add_settings.induct) (auto simp: update_new split: if_splits)

lemma add_settings_distinct:
  "add_settings T p s d = Inr d' \<Longrightarrow> distinct (map fst d) \<Longrightarrow> distinct (map fst d')"
  by (induction T p s d rule: add_settings.induct) (auto simp: distinct_update split: if_splits)

lemma network_union_append:
  assumes "network_union vs = x" "1 < length vs \<Longrightarrow> list_all is_array vs"
    and "network_union ws = y" "1 < length ws \<Longrightarrow> list_all is_array ws"
  shows "x = None \<Longrightarrow> network_union (vs @ ws) = y" "y = None \<Longrightarrow> network_union (vs @ ws) = x"
    "x = Some (TArr a) \<Longrightarrow> y = Some (TArr b) \<Longrightarrow>
       network_union (vs @ ws) = Some (TArr (a @ b)) \<and> list_all is_array (vs @ ws)"
    "x = None \<longleftrightarrow> vs = []" "y = None \<longleftrightarrow> ws = []"
proof -
  have nil: "network_union us = None \<longleftrightarrow> us = []" for us
    by (auto simp: network_union_def split: list.splits)
  have arr: "concat (map array_items us) = c \<and> list_all is_array us \<and> us \<noteq> []"
    if "network_union us = Some (TArr c)" "1 < length us \<Longrightarrow> list_all is_array us" for us c
    using that by (auto simp: network_union_def split: list.splits)
  show "x = None \<Longrightarrow> network_union (vs @ ws) = y" "y = None \<Longrightarrow> network_union (vs @ ws) = x"
    "x = None \<longleftrightarrow> vs = []" "y = None \<longleftrightarrow> ws = []"
    using assms nil by auto
  assume "x = Some (TArr a)" "y = Some (TArr b)"
  then have v: "concat (map array_items vs) = a" "list_all is_array vs" "vs \<noteq> []"
    and w: "concat (map array_items ws) = b" "list_all is_array ws" "ws \<noteq> []"
    using arr [of vs a] arr [of ws b] assms by auto
  then show "network_union (vs @ ws) = Some (TArr (a @ b)) \<and> list_all is_array (vs @ ws)"
    by (cases vs; cases ws) (auto simp: network_union_def split: list.splits)
qed

lemma add_network_union:
  assumes "add_network p s d = Inr d'" "distinct (map fst s)" "distinct (map fst d)"
  shows "distinct (map fst d') \<and>
    (case (map_of d k, map_of s k) of
       (None, y) \<Rightarrow> map_of d' k = y
     | (x, None) \<Rightarrow> map_of d' k = x
     | (Some v, Some w) \<Rightarrow> \<exists>a b. v = TArr a \<and> w = TArr b \<and> map_of d' k = Some (TArr (a @ b)))"
  using assms
proof (induction p s d rule: add_network.induct)
  case (1 p d)
  then show ?case by (auto split: option.splits)
next
  case (2 p key v s d)
  then have sk: "map_of s key = None" by (simp add: map_of_eq_None_iff)
  show ?case
  proof (cases "map_of d key")
    case None
    then have "add_network p s (AList.update key v d) = Inr d'" using 2(3) by simp
    then show ?thesis using 2(1) [OF None] 2(4,5) None sk
      by (cases "k = key") (auto simp: update_conv' distinct_update split: option.splits)
  next
    case (Some e)
    then obtain a b where ab: "e = TArr a" "v = TArr b"
      "add_network p s (AList.update key (TArr (a @ b)) d) = Inr d'"
      using 2(3) by (cases e; cases v) auto
    then show ?thesis using 2(2) [OF Some refl ab(1,2)] 2(4,5) Some sk
      by (cases "k = key") (auto simp: update_conv' distinct_update split: option.splits)
  qed
qed

lemma get_update [simp]:
  "get_table (AList.update k v p) T = (if T = k then (case v of TTable t \<Rightarrow> t | _ \<Rightarrow> []) else get_table p T)"
  "get_array (AList.update k v p) T = (if T = k then (case v of TArr t \<Rightarrow> t | _ \<Rightarrow> []) else get_array p T)"
  by (auto simp: get_table_def get_array_def update_conv')

lemma get_None [simp]: "map_of p T = None \<Longrightarrow> get_table p T = []" "map_of p T = None \<Longrightarrow> get_array p T = []"
  by (simp_all add: get_table_def get_array_def)

lemma network_values_append [simp]: "network_values (fs @ gs) k = network_values fs k @ network_values gs k"
  by (simp add: network_values_def)


lemmas merge_defs = merge_table_def merge_copies_def merge_network_def

lemma merge_table_ok:
  assumes "merge_table p add T base = Inr m"
  shows "get_table m T = get_table base T @ get_table add T \<and>
    (distinct (map fst (get_table base T)) \<longrightarrow> distinct (map fst (get_table m T))) \<and>
    (\<forall>k. k \<noteq> T \<longrightarrow> map_of m k = map_of base k) \<and>
    (m = base \<or> (\<exists>t. m = AList.update T (TTable t) base))"
proof (cases "map_of add T")
  case None
  then show ?thesis using assms by (simp add: merge_table_def)
next
  case (Some v)
  with assms obtain t d where t: "v = TTable t" "add_settings T p t (get_table base T) = Inr d"
    "m = AList.update T (TTable d) base"
    by (auto simp: merge_table_def split: tval.splits sum.splits)
  then have "get_table m T = d" "get_table add T = t" using Some by (simp_all add: get_table_def [of add])
  then show ?thesis using add_settings_append [OF t(2)] add_settings_distinct [OF t(2)] t(3)
    by (simp add: update_conv') blast
qed

lemma merge_copies_ok:
  assumes "merge_copies p add base = Inr m"
  shows "get_array m ''copies'' = get_array base ''copies'' @ get_array add ''copies'' \<and>
    (\<forall>k. k \<noteq> ''copies'' \<longrightarrow> map_of m k = map_of base k) \<and>
    (m = base \<or> (\<exists>t. m = AList.update ''copies'' (TArr t) base))"
  using assms by (auto simp: merge_copies_def update_conv' get_array_def [of add] split: option.splits tval.splits)

lemma merge_network_ok:
  assumes "merge_network p add base = Inr m" "network_of base fs" "network_of add gs"
  shows "network_of m (fs @ gs) \<and>
    (\<forall>k. k \<noteq> ''network'' \<longrightarrow> map_of m k = map_of base k) \<and>
    (m = base \<or> (\<exists>t. m = AList.update ''network'' (TTable t) base))"
proof -
  note u = network_union_append [OF refl _ refl, of "network_values fs k" "network_values gs k" for k]
  have b: "map_of (get_table base ''network'') k = network_union (network_values fs k)"
      "1 < length (network_values fs k) \<Longrightarrow> list_all is_array (network_values fs k)"
    and a: "map_of (get_table add ''network'') k = network_union (network_values gs k)"
      "1 < length (network_values gs k) \<Longrightarrow> list_all is_array (network_values gs k)"
    and d: "distinct (map fst (get_table base ''network''))" "distinct (map fst (get_table add ''network''))" for k
    using assms(2,3) by (auto simp: network_of_def)
  show ?thesis
  proof (cases "map_of add ''network''")
    case None
    then have "network_values gs k = []" for k
      using a(1) [of k] u(5) [of k] b(2) a(2) by simp
    then show ?thesis using None assms(1) b d by (simp add: merge_network_def network_of_def)
  next
    case (Some v)
    with assms(1) obtain t e where t: "v = TTable t" "add_network p t (get_table base ''network'') = Inr e"
      "m = AList.update ''network'' (TTable e) base"
      by (auto simp: merge_network_def split: tval.splits sum.splits)
    have gt: "get_table add ''network'' = t" using Some t by (simp add: get_table_def)
    have e: "map_of e k = network_union (network_values (fs @ gs) k) \<and>
       (1 < length (network_values (fs @ gs) k) \<longrightarrow> list_all is_array (network_values (fs @ gs) k))" for k
    proof -
      note n = add_network_union [OF t(2) _ d(1), of k] 
      consider "network_values fs k = []" | "network_values gs k = []"
        | x y where "network_union (network_values fs k) = Some x" "network_union (network_values gs k) = Some y"
        using u(4,5) [of k] b(2) a(2) by blast
      then show ?thesis
      proof cases
        case 1
        then have "map_of (get_table base ''network'') k = None" using b(1) [of k] by (simp add: network_union_def)
        then show ?thesis using n d(2) a [of k] 1 unfolding gt by simp
      next
        case 2
        then have "map_of t k = None" using a(1) [of k] gt by (simp add: network_union_def)
        then show ?thesis using n d(2) b [of k] 2 unfolding gt by (auto split: option.splits)
      next
        case 3
        then obtain v w where "x = TArr v" "y = TArr w" "map_of e k = Some (TArr (v @ w))"
          using n d(2) a(1) [of k] b(1) [of k] unfolding gt by auto
        then show ?thesis using u(3) [of k v w] 3 b(2) a(2) by simp
      qed
    qed
    then show ?thesis
      using add_network_union [OF t(2) _ d(1)] d(2) t(3) unfolding gt by (simp add: update_conv' network_of_def) blast
  qed
qed

lemma set_update: "set (AList.update k v t) \<subseteq> insert (k, v) (set t)"
  by (induction t) auto

lemma policy_typed_update:
  assumes "policy_typed m" "entry_typed (k, v)" "k \<noteq> ''version''"
  shows "policy_typed (AList.update k v m)"
  using assms set_update [of k v m]
  by (auto simp: policy_typed_def distinct_update update_conv' list_all_iff)

lemma policy_typed_table: "policy_typed m \<Longrightarrow> distinct (map fst (get_table m T))"
  by (auto simp: policy_typed_def get_table_def list_all_iff entry_typed_def split: option.splits tval.splits
      dest!: map_of_SomeD)

lemma chain_Inr_Cons: "chain (f # fs) s = Inr t \<longleftrightarrow> (\<exists>u. f s = Inr u \<and> chain fs u = Inr t)"
  by (auto split: sum.splits)

lemma get_cong: "map_of m k = map_of n k \<Longrightarrow> get_table m k = get_table n k \<and> get_array m k = get_array n k"
  by (simp add: get_table_def get_array_def)

lemma merge_table_typed:
  assumes "merge_table p add T base = Inr m" "T \<in> set merged_tables" "policy_typed base"
  shows "policy_typed m"
proof -
  from merge_table_ok [OF assms(1)] consider "m = base" | t where "m = AList.update T (TTable t) base" by blast
  then show ?thesis
  proof cases
    case 2
    then have "get_table m T = t" by simp
    then have "distinct (map fst t)" using merge_table_ok [OF assms(1)] policy_typed_table [OF assms(3)] by metis
    then show ?thesis unfolding 2
      using assms(2,3) by (intro policy_typed_update) (auto simp: entry_typed_def merged_tables_def)
  qed (use assms(3) in simp)
qed

lemma merge_table_get:
  assumes "merge_table p add T base = Inr m"
  shows "get_table m k = (if k = T then get_table base T @ get_table add T else get_table base k)"
    and "k \<noteq> T \<Longrightarrow> get_array m k = get_array base k"
  using merge_table_ok [OF assms] get_cong [of m k base] by (cases "k = T"; simp)+

lemma merge_copies_get:
  assumes "merge_copies p add base = Inr m"
  shows "k \<noteq> ''copies'' \<Longrightarrow> get_table m k = get_table base k"
    and "get_array m ''copies'' = get_array base ''copies'' @ get_array add ''copies''"
  using merge_copies_ok [OF assms] get_cong [of m k base] by (cases "k = ''copies''"; simp)+

lemma mergePolicyFragment_steps:
  assumes "mergePolicyFragment base add p = Inr m"
  obtains m1 m2 m3 m4 where "merge_table p add ''documents'' base = Inr m1" "merge_table p add ''ssh'' m1 = Inr m2"
      "merge_table p add ''credentials'' m2 = Inr m3" "merge_copies p add m3 = Inr m4" "merge_network p add m4 = Inr m"
  using assms unfolding mergePolicyFragment_def by (auto simp only: chain_Inr_Cons chain.simps(1) split: if_splits)

lemma merge_network_typed:
  assumes "merge_network p add base = Inr m" "network_of base fs" "network_of add gs" "policy_typed base"
  shows "policy_typed m"
proof -
  note n = merge_network_ok [OF assms(1-3)]
  then consider "m = base" | t where "m = AList.update ''network'' (TTable t) base" by blast
  then show ?thesis
  proof cases
    case 2
    then have "distinct (map fst t)" using n by (simp add: network_of_def)
    then show ?thesis unfolding 2 using assms(4) by (intro policy_typed_update) (auto simp: entry_typed_def)
  qed (use assms(4) in simp)
qed

lemma merge_network_get:
  assumes "merge_network p add base = Inr m" "network_of base fs" "network_of add gs" "k \<noteq> ''network''"
  shows "get_table m k = get_table base k" "get_array m k = get_array base k"
  using merge_network_ok [OF assms(1-3)] get_cong [of m k base] assms(4) by simp_all

lemma mergePolicyFragment_ok:
  assumes "mergePolicyFragment base add p = Inr m" "settings_of base fs" "settings_of add gs" "policy_typed base"
  shows "settings_of m (fs @ gs) \<and> policy_typed m"
proof -
  obtain m1 m2 m3 m4 where s: "merge_table p add ''documents'' base = Inr m1" "merge_table p add ''ssh'' m1 = Inr m2"
      "merge_table p add ''credentials'' m2 = Inr m3" "merge_copies p add m3 = Inr m4" "merge_network p add m4 = Inr m"
    using assms(1) by (rule mergePolicyFragment_steps)
  note tab = merge_table_get [OF s(1)] merge_table_get [OF s(2)] merge_table_get [OF s(3)] merge_copies_get [OF s(4)]
  have "policy_typed m3"
    using merge_table_typed [OF s(1) _ assms(4)] merge_table_typed [OF s(2)] merge_table_typed [OF s(3)]
    by (simp add: merged_tables_def)
  then have ty: "policy_typed m4"
    using merge_copies_ok [OF s(4)] policy_typed_update [of m3 "''copies''"] by (auto simp: entry_typed_def)
  have nb: "network_of m4 fs" using assms(2) by (simp add: settings_of_def network_of_def tab)
  have na: "network_of add gs" using assms(3) by (simp add: settings_of_def)
  note net = merge_network_get [OF s(5) nb na]
  have "get_table m T = get_table base T @ get_table add T" if "T \<in> set merged_tables" for T
    using that by (auto simp: merged_tables_def net tab)
  moreover have "get_array m ''copies'' = get_array base ''copies'' @ get_array add ''copies''"
    by (simp add: net tab)
  ultimately show ?thesis
    using assms(2,3) merge_network_ok [OF s(5) nb na] merge_network_typed [OF s(5) nb na ty]
    by (simp add: settings_of_def list_all_iff)
qed

section \<open>The walk\<close>

lemma map_of_rebase:
  "map_of (RebasePolicyFragment p d f) k = map_option (rebase_value (\<lambda>v. f v d) k) (map_of p k)"
  by (induction p) (auto simp: RebasePolicyFragment_def)

lemma current_fragment_network [simp]:
  "get_table (current_fragment opts nested path loaded) ''network'' = get_table loaded ''network''"
proof -
  have "get_table (RebasePolicyFragment p d f) ''network'' = get_table p ''network''" for p d f
    by (auto simp: get_table_def map_of_rebase rebase_value_def split: option.splits tval.splits)
  moreover have "get_table (AList.delete ''includes'' loaded) ''network'' = get_table loaded ''network''"
    by (simp add: get_table_def delete_conv')
  ultimately show ?thesis by (simp add: current_fragment_def Let_def)
qed

lemma settings_of_single: "distinct (map fst (get_table f ''network'')) \<Longrightarrow> settings_of f [f]"
  by (auto simp: settings_of_def network_of_def network_values_def network_union_def list_all_iff split: option.splits)

lemma settings_of_start: "settings_of merged_start [] \<and> policy_typed merged_start"
  by (simp add: settings_of_def network_of_def network_values_def network_union_def merged_start_def
      get_table_def get_array_def policy_typed_def entry_typed_def list_all_iff)

definition source_ok :: "LoadOptions \<Rightarrow> 'r reader \<Rightarrow> string \<Rightarrow> string \<Rightarrow> PolicySource \<Rightarrow> bool" where
  "source_ok opts read root path s \<longleftrightarrow>
     src_Path s = LogicalPolicyPath path root \<and>
     (\<exists>file r r'. read r path = (Inr file, r') \<and> src_Sha256 s = pf_Sha256 file \<and>
        opt_Parse opts (pf_Bytes file) path = Inr (src_Fragment s)) \<and>
     validateRootKeys (src_Fragment s) = None"

definition included :: "LoadOptions \<Rightarrow> string \<Rightarrow> string \<Rightarrow> bool" where
  "included opts root path \<longleftrightarrow> (\<exists>raw label dir. opt_ValidateInclude opts raw label dir root = Inr path)"

definition fragments :: "LoadOptions \<Rightarrow> (string \<Rightarrow> bool) \<Rightarrow> string list \<Rightarrow> PolicySource list \<Rightarrow> table list" where
  "fragments opts nested paths sources =
     map2 (\<lambda>p s. current_fragment opts (nested p) p (src_Fragment s)) paths sources"

lemma open_fragment_Inr:
  assumes "open_fragment opts read path r = Inr (file, loaded, includes, r')"
  shows "read r path = (Inr file, r') \<and> opt_Parse opts (pf_Bytes file) path = Inr loaded \<and>
    validateRootKeys loaded = None \<and> policy_includes loaded = Inr includes"
  using assms by (auto simp: open_fragment_def split: prod.splits sum.splits option.splits)

lemma finish_fragment_Inr:
  assumes "finish_fragment opts nested path loaded merged = Inr m"
  shows "mergePolicyFragment merged (current_fragment opts nested path loaded) path = Inr m"
    and "opt_ValidateMerged opts = Some v \<Longrightarrow> v m = None"
  using assms by (auto simp: finish_fragment_def split: sum.splits option.splits)

lemma fragments_append:
  "length ps = length ss \<Longrightarrow> fragments opts f (ps @ qs) (ss @ ts) = fragments opts f ps ss @ fragments opts f qs ts"
  by (simp add: fragments_def)

lemma fragments_cong:
  "(\<And>p. p \<in> set ps \<Longrightarrow> f p = g p) \<Longrightarrow> fragments opts f ps ss = fragments opts g ps ss"
  unfolding fragments_def by (induction ps ss rule: list_induct2') auto

definition parse_distinct :: "LoadOptions \<Rightarrow> bool" where
  "parse_distinct opts \<longleftrightarrow> (\<forall>c p t. opt_Parse opts c p = Inr t \<longrightarrow> distinct (map fst (get_table t ''network'')))"

lemma load_flat:
  "loadBundleRecursive fuel opts read root stack path lp r = Some (Inr (m, ss, lp', r')) \<Longrightarrow>
      parse_distinct opts \<Longrightarrow>
      \<exists>ps. list_all2 (source_ok opts read root) ps ss \<and> distinct ps \<and> ps \<noteq> [] \<and> last ps = path \<and>
        list_all (included opts root) (butlast ps) \<and> set ps \<inter> set lp = {} \<and> set lp' = set lp \<union> set ps \<and> policy_typed m \<and>
        settings_of m (fragments opts (\<lambda>p. stack \<noteq> [] \<or> p \<noteq> path) ps ss)"
  "load_includes fuel opts read root stack dir i incs m0 ss0 lp r = Some (Inr (m, ss, lp', r')) \<Longrightarrow>
      parse_distinct opts \<Longrightarrow> stack \<noteq> [] \<Longrightarrow> settings_of m0 fs0 \<Longrightarrow> policy_typed m0 \<Longrightarrow>
      \<exists>ps ss1. ss = ss0 @ ss1 \<and> list_all2 (source_ok opts read root) ps ss1 \<and> distinct ps \<and>
        list_all (included opts root) ps \<and> set ps \<inter> set lp = {} \<and> set lp' = set lp \<union> set ps \<and> policy_typed m \<and>
        settings_of m (fs0 @ fragments opts (\<lambda>_. True) ps ss1)"
proof (induction fuel opts read root stack path lp r and fuel opts read root stack dir i incs m0 ss0 lp r
    arbitrary: m ss lp' r' and m ss lp' r' fs0 rule: loadBundleRecursive_load_includes.induct)
  case (1 opts read root stack path lp r)
  then show ?case by simp
next
  case (2 fuel opts read root stack path lp r)
  obtain fl loaded incs r1 mi si where
    new: "path \<notin> set stack" "path \<notin> set lp" and
    op: "open_fragment opts read path r = Inr (fl, loaded, incs, r1)" and
    inc: "load_includes fuel opts read root (stack @ [path]) (Dir path) 0 incs merged_start [] (path # lp) r1 =
      Some (Inr (mi, si, lp', r'))" and
    fin: "finish_fragment opts (stack \<noteq> []) path loaded mi = Inr m" and
    ss: "ss = si @ [\<lparr>src_Path = LogicalPolicyPath path root, src_Sha256 = pf_Sha256 fl, src_Fragment = loaded\<rparr>]"
    using "2.prems"(1) by (auto split: if_splits sum.splits option.splits prod.splits)
  obtain ps where ps: "list_all2 (source_ok opts read root) ps si" "distinct ps" "set ps \<inter> set (path # lp) = {}"
    "set lp' = set (path # lp) \<union> set ps" "policy_typed mi" "settings_of mi (fragments opts (\<lambda>_. True) ps si)"
    "list_all (included opts root) ps"
    using "2.IH" [OF new op refl refl refl inc "2.prems"(2)] settings_of_start by force
  let ?f = "current_fragment opts (stack \<noteq> []) path loaded"
  have "settings_of ?f [?f]"
    using open_fragment_Inr [OF op] "2.prems"(2) by (intro settings_of_single) (auto simp: parse_distinct_def)
  then have m: "settings_of m (fragments opts (\<lambda>_. True) ps si @ [?f])" "policy_typed m"
    using mergePolicyFragment_ok [OF finish_fragment_Inr(1) [OF fin] ps(6) _ ps(5)] by auto
  have "source_ok opts read root path (last ss)"
    using open_fragment_Inr [OF op] ss by (auto simp: source_ok_def)
  then have "list_all2 (source_ok opts read root) (ps @ [path]) ss" using ps(1) ss by (simp add: list_all2_appendI)
  moreover have "fragments opts (\<lambda>p. stack \<noteq> [] \<or> p \<noteq> path) (ps @ [path]) ss = fragments opts (\<lambda>_. True) ps si @ [?f]"
  proof -
    have "fragments opts (\<lambda>p. stack \<noteq> [] \<or> p \<noteq> path) ps si = fragments opts (\<lambda>_. True) ps si"
      using ps(3) by (intro fragments_cong) auto
    then show ?thesis using list_all2_lengthD [OF ps(1)] by (simp add: ss fragments_append) (simp add: fragments_def)
  qed
  ultimately show ?case using m ps(2-4,7) new(2) by (intro exI [of _ "ps @ [path]"]) auto
next
  case (3 fuel opts read root stack dir i m0 ss0 lp r)
  then show ?case by (auto simp: fragments_def)
next
  case (4 fuel opts read root stack dir i inc incs m0 ss0 lp r)
  obtain ip mi si lp1 r1 m1 where
    v: "opt_ValidateInclude opts inc (include_label i) dir root = Inr ip" and
    rec: "loadBundleRecursive fuel opts read root stack ip lp r = Some (Inr (mi, si, lp1, r1))" and
    mrg: "mergePolicyFragment m0 mi ip = Inr m1" and
    rest: "load_includes fuel opts read root stack dir (Suc i) incs m1 (ss0 @ si) lp1 r1 = Some (Inr (m, ss, lp', r'))"
    using "4.prems"(1) by (auto split: sum.splits option.splits prod.splits)
  obtain ps where ps: "list_all2 (source_ok opts read root) ps si" "distinct ps" "set ps \<inter> set lp = {}"
    "set lp1 = set lp \<union> set ps" "policy_typed mi" "settings_of mi (fragments opts (\<lambda>_. True) ps si)"
    "ps \<noteq> []" "last ps = ip" "list_all (included opts root) (butlast ps)"
    using "4.IH"(1) [OF v rec "4.prems"(2)] "4.prems"(3) by auto
  have "included opts root ip" using v by (auto simp: included_def)
  then have inc: "list_all (included opts root) ps"
    using ps(7-9) append_butlast_last_id [of ps] list_all_append [of "included opts root" "butlast ps" "[last ps]"] by simp
  note m1 = mergePolicyFragment_ok [OF mrg "4.prems"(4) ps(6) "4.prems"(5)]
  obtain qs ss1 where qs: "ss = (ss0 @ si) @ ss1" "list_all2 (source_ok opts read root) qs ss1" "distinct qs"
    "set qs \<inter> set lp1 = {}" "set lp' = set lp1 \<union> set qs" "policy_typed m"
    "settings_of m ((fs0 @ fragments opts (\<lambda>_. True) ps si) @ fragments opts (\<lambda>_. True) qs ss1)"
    "list_all (included opts root) qs"
    using "4.IH"(2) [OF v rec refl refl refl refl mrg rest "4.prems"(2,3)] m1 by blast
  have "list_all2 (source_ok opts read root) (ps @ qs) (si @ ss1)" using ps(1) qs(2) by (rule list_all2_appendI)
  moreover have "fragments opts (\<lambda>_. True) (ps @ qs) (si @ ss1) = fragments opts (\<lambda>_. True) ps si @ fragments opts (\<lambda>_. True) qs ss1"
    using list_all2_lengthD [OF ps(1)] by (rule fragments_append)
  ultimately show ?case using ps qs inc
    by (intro exI [of _ "ps @ qs"] exI [of _ "si @ ss1"]) auto
qed

section \<open>Termination\<close>

text \<open>More fuel does not change a result.\<close>

lemma load_more_fuel:
  "loadBundleRecursive fuel opts read root stack path lp r = Some x \<Longrightarrow> fuel \<le> fuel' \<Longrightarrow>
    loadBundleRecursive fuel' opts read root stack path lp r = Some x"
  "load_includes fuel opts read root stack dir i incs m ss lp r = Some x \<Longrightarrow> fuel \<le> fuel' \<Longrightarrow>
    load_includes fuel' opts read root stack dir i incs m ss lp r = Some x"
proof (induction fuel opts read root stack path lp r and fuel opts read root stack dir i incs m ss lp r
    arbitrary: fuel' x and fuel' x rule: loadBundleRecursive_load_includes.induct)
  case (2 fuel opts read root stack path lp r)
  obtain fuel'' where f: "fuel' = Suc fuel''" "fuel \<le> fuel''" using "2.prems"(2) by (cases fuel') auto
  show ?case
  proof (cases "path \<in> set stack \<or> path \<in> set lp")
    case False
    then have new: "path \<notin> set stack" "path \<notin> set lp" by auto
    show ?thesis
    proof (cases "open_fragment opts read path r")
      case (Inr z)
      obtain fl loaded incs r1 where z: "z = (fl, loaded, incs, r1)" by (metis prod_cases4)
      obtain y where "load_includes fuel opts read root (stack @ [path]) (Dir path) 0 incs merged_start [] (path # lp) r1 = Some y"
        using "2.prems"(1) new Inr z by (auto split: option.splits)
      then show ?thesis
        using "2.IH" [OF new Inr z [symmetric] refl refl _ f(2)] "2.prems"(1) new Inr z f(1) by simp
    qed (use "2.prems"(1) new f(1) in simp)
  qed (use "2.prems"(1) f(1) in auto)
next
  case (4 fuel opts read root stack dir i inc incs m ss lp r)
  show ?case
  proof (cases "opt_ValidateInclude opts inc (include_label i) dir root")
    case (Inr ip)
    obtain y where y: "loadBundleRecursive fuel opts read root stack ip lp r = Some y"
      using "4.prems"(1) Inr by (auto split: option.splits)
    note y' = "4.IH"(1) [OF Inr y "4.prems"(2)]
    show ?thesis
    proof (cases y)
      case yr: (Inr z)
      obtain m1 s1 lp1 r1 where z: "z = (m1, s1, lp1, r1)" by (metis prod_cases4)
      show ?thesis using "4.prems"(1) Inr y y' yr z "4.IH"(2) [OF Inr y yr z [symmetric] refl refl _ _ "4.prems"(2)]
        by (cases "mergePolicyFragment m m1 ip") simp_all
    qed (use "4.prems"(1) Inr y y' in auto)
  qed (use "4.prems"(1) in simp)
qed simp_all

text \<open>
  A reader whose budget shrinks with every file that it hands out: the depth of the walk is at most
  the budget, so a fuel above the budget is enough.
\<close>

locale bundle_reader =
  fixes read :: "'r reader" and budget :: "'r \<Rightarrow> nat"
  assumes read_budget: "read r p = (Inr fl, r') \<Longrightarrow> budget r' < budget r"
begin

definition returns :: "'r loaded \<Rightarrow> 'r \<Rightarrow> bool" where
  "returns x r \<longleftrightarrow> (\<exists>y. x = Some y \<and> (\<forall>m ss lp r'. y = Inr (m, ss, lp, r') \<longrightarrow> budget r' \<le> budget r))"

lemma includes_return:
  assumes "\<And>path lp r. budget r < fuel \<Longrightarrow> returns (loadBundleRecursive fuel opts read root stack path lp r) r"
  shows "budget r < fuel \<Longrightarrow> returns (load_includes fuel opts read root stack dir i incs m ss lp r) r"
proof (induction incs arbitrary: i m ss lp r)
  case (Cons inc incs)
  show ?case
  proof (cases "opt_ValidateInclude opts inc (include_label i) dir root")
    case (Inr path)
    obtain y where y: "loadBundleRecursive fuel opts read root stack path lp r = Some y"
      and b: "\<And>m ss lp r'. y = Inr (m, ss, lp, r') \<Longrightarrow> budget r' \<le> budget r"
      using assms [OF Cons.prems, of path lp] by (auto simp: returns_def)
    show ?thesis
    proof (cases y)
      case yr: (Inr z)
      obtain m1 s1 lp1 r1 where z: "z = (m1, s1, lp1, r1)" by (metis prod_cases4)
      then have "budget r1 \<le> budget r" using b yr by blast
      then show ?thesis using Cons.IH [of r1] Cons.prems Inr y yr z
        by (auto simp: returns_def split: sum.splits) (meson order_trans order_le_less_trans)
    qed (use Inr y in \<open>simp add: returns_def\<close>)
  qed (simp add: returns_def)
qed (simp add: returns_def)

lemma load_returns: "budget r < fuel \<Longrightarrow> returns (loadBundleRecursive fuel opts read root stack path lp r) r"
proof (induction fuel arbitrary: stack path lp r)
  case (Suc fuel)
  show ?case
  proof (cases "open_fragment opts read path r")
    case (Inr z)
    obtain fl loaded incs r1 where z: "z = (fl, loaded, incs, r1)" by (metis prod_cases4)
    have "budget r1 < budget r" using open_fragment_Inr [OF Inr [unfolded z]] read_budget by blast
    moreover from this have "returns (load_includes fuel opts read root (stack @ [path]) (Dir path) 0 incs
        merged_start [] (path # lp) r1) r1"
      using Suc by (intro includes_return) auto
    ultimately show ?thesis using Inr z
      by (auto simp: returns_def split: sum.splits prod.splits)
  qed (simp add: returns_def)
qed simp

lemma LoadBundle_returns: "\<exists>res. \<forall>fuel. budget r < fuel \<longrightarrow> LoadBundle fuel path root read r opts = Some res"
proof -
  obtain x where x: "loadBundleRecursive (Suc (budget r)) opts read root [] path [] r = Some x"
    using load_returns [of r "Suc (budget r)" opts root "[]" path "[]"]
    by (auto simp: returns_def simp del: loadBundleRecursive.simps)
  have "LoadBundle fuel path root read r opts = LoadBundle (Suc (budget r)) path root read r opts" if "budget r < fuel" for fuel
    using load_more_fuel(1) [OF x, of fuel] x that by (simp add: LoadBundle_def Suc_le_eq)
  moreover have "\<exists>res. LoadBundle (Suc (budget r)) path root read r opts = Some res"
    using x by (cases x) (auto simp: LoadBundle_def)
  ultimately show ?thesis by metis
qed

end

section \<open>A parsed policy is a map of maps\<close>

lemma ParseValue_not_table: "ParseValue raw c = Inr v \<Longrightarrow> v \<noteq> TTable t"
  by (subst (asm) ParseValue.simps) (auto simp: Let_def split: if_splits option.splits sum.splits)

definition tables_distinct :: "table \<Rightarrow> bool" where
  "tables_distinct root \<longleftrightarrow> distinct (map fst root) \<and> (\<forall>k t. map_of root k = Some (TTable t) \<longrightarrow> distinct (map fst t))"

lemma tables_distinct_update:
  "tables_distinct root \<Longrightarrow> (\<And>t. v = TTable t \<Longrightarrow> distinct (map fst t)) \<Longrightarrow> tables_distinct (AList.update k v root)"
  by (auto simp: tables_distinct_def update_conv' distinct_update)

lemma put_pairs_distinct: "distinct (map fst t) \<Longrightarrow> distinct (map fst (put_pairs ps t))"
  unfolding put_pairs_def by (induction ps arbitrary: t) (simp_all add: distinct_update)

lemma put_pairs_tables:
  assumes "list_all pair_ok ps" "tables_distinct t"
  shows "tables_distinct (put_pairs ps t)"
  using assms
proof (induction ps arbitrary: t)
  case (Cons p ps)
  then have "pair_value p \<noteq> TTable u" for u
    using ParseValue_not_table [of "pair_raw p" "[]" "pair_value p"] by (auto simp: pair_ok_def)
  then have "tables_distinct (AList.update (pair_key p) (pair_value p) t)"
    using Cons.prems(2) by (intro tables_distinct_update) auto
  then show ?case using Cons by (simp add: put_pairs_def)
qed (simp add: put_pairs_def)

lemma put_new_pairs_distinct:
  "put_new_pairs path name ps t = Inr t' \<Longrightarrow> distinct (map fst t) \<Longrightarrow> distinct (map fst t')"
  by (induction path name ps t rule: put_new_pairs.induct) (auto simp: distinct_update split: if_splits)

lemma put_table_tables:
  assumes "put_table path keys tab root = Inr root'" "tables_distinct root"
  shows "tables_distinct root'"
proof (cases "HasPrefix (table_name tab) credentials_prefix")
  case True
  then have "put_credential path keys tab root = Inr root'" using assms(1) by (simp add: put_table_def Let_def)
  then show ?thesis using assms(2)
    by (auto simp: put_credential_def Let_def split: if_splits option.splits tval.splits intro!: tables_distinct_update distinct_update)
      (simp add: tables_distinct_def)
next
  case False
  let ?n = "table_name tab"
  have d: "distinct (map fst (get_table root ?n))"
    using assms(2) by (auto simp: tables_distinct_def get_table_def split: option.splits tval.splits)
  obtain t where "put_new_pairs path ?n (table_pairs tab) (get_table root ?n) = Inr t" "root' = AList.update ?n (TTable t) root"
    using assms(1) False by (auto simp: put_table_def get_table_def Let_def split: if_splits option.splits tval.splits sum.splits)
  then show ?thesis using put_new_pairs_distinct d assms(2) by (auto intro!: tables_distinct_update)
qed

lemma chain_inv: "chain fs s = Inr t \<Longrightarrow> P s \<Longrightarrow> (\<And>f s t. f \<in> set fs \<Longrightarrow> f s = Inr t \<Longrightarrow> P s \<Longrightarrow> P t) \<Longrightarrow> P t"
  by (induction fs s rule: chain.induct) (auto split: sum.splits)

lemma documentToPolicyMap_tables:
  assumes "documentToPolicyMap doc path keys = Inr root" "doc_ok doc"
  shows "tables_distinct root"
proof -
  have "tables_distinct (put_pairs (table_pairs (top_level doc)) [])"
    using assms(2) by (intro put_pairs_tables) (auto simp: doc_ok_def table_ok_def tables_distinct_def)
  with assms(1) show ?thesis unfolding documentToPolicyMap_def
    by (rule chain_inv [where P = tables_distinct]) (auto dest: put_table_tables)
qed

lemma ParsePolicyTOML_tables:
  assumes "ParsePolicyTOML content path keys = Inr root"
  shows "tables_distinct root"
  using assms documentToPolicyMap_tables ParseDocument_inv
  by (fastforce simp: ParsePolicyTOML_def split: sum.splits prod.splits if_splits intro: tables_distinct_update)

lemma parse_distinctI:
  assumes "\<And>content p t. opt_Parse opts content p = Inr t \<Longrightarrow> \<exists>keys. ParsePolicyTOML content p keys = Inr t"
  shows "parse_distinct opts"
  unfolding parse_distinct_def
proof (intro allI impI)
  fix c p t assume "opt_Parse opts c p = Inr t"
  then have "tables_distinct t" using assms ParsePolicyTOML_tables by blast
  then show "distinct (map fst (get_table t ''network''))"
    by (auto simp: get_table_def tables_distinct_def split: option.splits tval.splits)
qed

lemma LoadBundle_flat:
  assumes "LoadBundle fuel path root read r opts = Some (Inr (m, sources))" "parse_distinct opts"
  shows "\<exists>ps. list_all2 (source_ok opts read root) ps sources \<and> distinct ps \<and> ps \<noteq> [] \<and> last ps = path \<and>
      list_all (included opts root) (butlast ps) \<and> policy_typed m \<and>
      settings_of m (fragments opts (\<lambda>p. p \<noteq> path) ps sources)"
    and "opt_ValidateMerged opts = Some v \<Longrightarrow> v m = None"
proof -
  obtain lp r' where load: "loadBundleRecursive fuel opts read root [] path [] r = Some (Inr (m, sources, lp, r'))"
    using assms(1) by (auto simp: LoadBundle_def split: option.splits sum.splits prod.splits)
  then show "\<exists>ps. list_all2 (source_ok opts read root) ps sources \<and> distinct ps \<and> ps \<noteq> [] \<and> last ps = path \<and>
      list_all (included opts root) (butlast ps) \<and> policy_typed m \<and>
      settings_of m (fragments opts (\<lambda>p. p \<noteq> path) ps sources)"
    using load_flat(1) [of fuel opts read root "[]" path "[]" r m sources lp r'] assms(2) by auto
  show "opt_ValidateMerged opts = Some v \<Longrightarrow> v m = None"
    using load finish_fragment_Inr(2)
    by (cases fuel) (auto split: if_splits sum.splits option.splits prod.splits)
qed

section \<open>Properties\<close>

interpretation policy_reader: bundle_reader "Read H fs" reader_budget for H fs
  by unfold_locales (rule Read_budget)

text \<open>
  C36: loading a policy bundle ends. Whatever the files include, cycles and repetitions too, and whatever
  the hooks answer, the walk over the includes returns within a depth that the reader's file limit
  bounds, 4097 for a new reader, and any larger bound gives the same answer.
\<close>

theorem LoadBundle_terminates:
  "\<exists>res. \<forall>n. LoadBundle (4097 + n) path root (Read H fs) NewBundleReader opts = Some res"
proof -
  have "reader_budget NewBundleReader = 4096"
    by (simp add: reader_budget_def NewBundleReader_def NewBundleReaderWithLimits_def PolicyBundleMaxFiles_def)
  then obtain res where "\<forall>fuel. 4096 < fuel \<longrightarrow> LoadBundle fuel path root (Read H fs) NewBundleReader opts = Some res"
    using policy_reader.LoadBundle_returns [where r = NewBundleReader] by metis
  then show ?thesis by auto
qed

text \<open>
  C35: a loaded bundle is the union of its files. Where every fragment comes from \<open>ParsePolicyTOML\<close>, a policy
  that loads comes from a list of different files, the root last, each read and parsed once, all but
  the root returned by the check of an include, whose fragments are stripped of \<open>includes\<close> and, except for the root's, rebased on their directory. The tables
  \<open>documents\<close>, \<open>ssh\<close> and \<open>credentials\<close> are the concatenation of the fragments' tables without a key twice,
  \<open>copies\<close> is the concatenation in file order, and each key of \<open>network\<close> has the value that one fragment
  declares or the concatenation of arrays that several declare. The result is well-formed.
\<close>

theorem LoadBundle_union:
  assumes "LoadBundle fuel path root read r opts = Some (Inr (m, sources))"
    and "\<forall>content p t. opt_Parse opts content p = Inr t \<longrightarrow> (\<exists>keys. ParsePolicyTOML content p keys = Inr t)"
  shows "\<exists>ps. list_all2 (source_ok opts read root) ps sources \<and> distinct ps \<and> ps \<noteq> [] \<and> last ps = path \<and>
    list_all (included opts root) (butlast ps) \<and> policy_typed m \<and> settings_of m (fragments opts (\<lambda>p. p \<noteq> path) ps sources)"
  using LoadBundle_flat(1) [OF assms(1) parse_distinctI] assms(2) by blast

text \<open>A root file that includes another one, read from a map of paths to contents.\<close>

definition sample_files :: "(string \<times> string) list" where
  "sample_files =
     [(''/p/root.toml'', ''includes = ['' @ [DQUOTE] @ ''inc.toml'' @ [DQUOTE] @ '']'' @ [NL] @ ''[ssh]'' @ [NL] @ ''enabled = true''),
      (''/p/inc.toml'', ''[documents]'' @ [NL] @ ''codex = 1'' @ [NL] @ ''[[copies]]'' @ [NL] @ ''source = 2'')]"

definition sample_read :: "unit reader" where
  "sample_read u p =
     (case map_of sample_files p of
        None \<Rightarrow> (Inl NoFileName, u) | Some c \<Rightarrow> (Inr \<lparr>pf_Bytes = c, pf_Sha256 = []\<rparr>, u))"

definition sample_opts :: LoadOptions where
  "sample_opts =
     \<lparr>opt_Parse = (\<lambda>content p. ParsePolicyTOML content p []),
      opt_ValidateInclude = (\<lambda>raw label dir root. case raw of TString s \<Rightarrow> Inr (Join [dir, s]) | _ \<Rightarrow> Inl (HookError label)),
      opt_ValidateMerged = None, opt_RebasePath = (\<lambda>v dir. TString dir), opt_StrictVersion = True\<rparr>"

definition sample_merged :: table where
  "sample_merged =
     [(''version'', TInt 1), (''documents'', TTable [(''codex'', TString ''/p'')]),
      (''copies'', TArr [TTable [(''source'', TString ''/p'')]]), (''ssh'', TTable [(''enabled'', TBool True)])]"

definition sample_sources :: "PolicySource list" where
  "sample_sources =
     [\<lparr>src_Path = ''inc.toml'', src_Sha256 = [], src_Fragment =
         [(''documents'', TTable [(''codex'', TInt 1)]), (''copies'', TArr [TTable [(''source'', TInt 2)]])]\<rparr>,
      \<lparr>src_Path = ''root.toml'', src_Sha256 = [], src_Fragment =
         [(''includes'', TArr [TString ''inc.toml'']), (''ssh'', TTable [(''enabled'', TBool True)])]\<rparr>]"

theorem LoadBundle_union_witness:
  "\<exists>ps. list_all2 (source_ok sample_opts sample_read ''/p'') ps sample_sources \<and> distinct ps \<and> ps \<noteq> [] \<and>
    last ps = ''/p/root.toml'' \<and>
    list_all (included sample_opts ''/p'') (butlast ps) \<and> policy_typed sample_merged \<and>
    settings_of sample_merged (fragments sample_opts (\<lambda>p. p \<noteq> ''/p/root.toml'') ps sample_sources)"
proof (rule LoadBundle_union)
  show "LoadBundle 3 ''/p/root.toml'' ''/p'' sample_read () sample_opts = Some (Inr (sample_merged, sample_sources))"
    by code_simp
qed (auto simp: sample_opts_def)

end
