(* ===== verification/Policy_Value.thy ===== *)
theory Policy_Value
  imports Tomlsubset
begin

text \<open>
  The value renderer of \<open>internal/authpolicy/policy.go\<close> (\<open>renderTOMLValue\<close>, \<open>jsonQuote\<close>)
  and its round trip through the parser of \<open>internal/tomlsubset\<close>. The three byte scanners of
  the parser (\<open>StripComment\<close>, \<open>splitArray\<close>, \<open>ArrayClosed\<close>) share one quote automaton,
  stated as the locale \<open>quote_scanner\<close>: a quoted string goes through each of them untouched.
\<close>

section \<open>The renderer\<close>

text \<open>\<open>strings.ReplaceAll(s, old, new)\<close> for an \<open>old\<close> of one byte.\<close>

definition ReplaceAll :: "string \<Rightarrow> char \<Rightarrow> string \<Rightarrow> string" where
  "ReplaceAll s old new = concat (map (\<lambda>c. if c = old then new else [c]) s)"

definition jsonQuote :: "string \<Rightarrow> string" where
  "jsonQuote v =
     (let escaped = ReplaceAll v BSLASH [BSLASH, BSLASH];
          escaped = ReplaceAll escaped DQUOTE [BSLASH, DQUOTE];
          escaped = ReplaceAll escaped NL [BSLASH, CHR ''n'']
      in [DQUOTE] @ escaped @ [DQUOTE])"

datatype render_error = NonStringArray | UnsupportedType

fun string_items :: "tval list \<Rightarrow> (render_error, string list) result" where
  "string_items [] = Inr []"
| "string_items (TString s # vs) =
     (case string_items vs of Inl e \<Rightarrow> Inl e | Inr items \<Rightarrow> Inr (jsonQuote s # items))"
| "string_items (_ # vs) = Inl NonStringArray"

fun renderTOMLValue :: "tval \<Rightarrow> (render_error, string) result" where
  "renderTOMLValue (TBool b) = Inr (if b then ''true'' else ''false'')"
| "renderTOMLValue (TInt i) = Inr (Itoa i)"
| "renderTOMLValue (TString s) = Inr (jsonQuote s)"
| "renderTOMLValue (TArr vs) =
     (case string_items vs of
        Inl e \<Rightarrow> Inl e | Inr items \<Rightarrow> Inr (''['' @ join '', '' items @ '']''))"
| "renderTOMLValue (TTable t) = Inl UnsupportedType"

section \<open>Escaping\<close>

definition esc :: "char \<Rightarrow> string" where
  "esc c = (if c = BSLASH then [BSLASH, BSLASH] else if c = DQUOTE then [BSLASH, DQUOTE]
            else if c = NL then [BSLASH, CHR ''n''] else [c])"

definition escape :: "string \<Rightarrow> string" where
  "escape s = concat (map esc s)"

lemma ReplaceAll_simps [simp]:
  "ReplaceAll [] c r = []"
  "ReplaceAll (x # s) c r = (if x = c then r else [x]) @ ReplaceAll s c r"
  "ReplaceAll (s @ t) c r = ReplaceAll s c r @ ReplaceAll t c r"
  by (simp_all add: ReplaceAll_def)

lemma jsonQuote_escape: "jsonQuote s = DQUOTE # escape s @ [DQUOTE]"
proof -
  have "ReplaceAll (ReplaceAll (ReplaceAll s BSLASH [BSLASH, BSLASH]) DQUOTE [BSLASH, DQUOTE])
      NL [BSLASH, CHR ''n''] = escape s"
    by (induction s) (auto simp: escape_def esc_def)
  then show ?thesis by (simp add: jsonQuote_def Let_def)
qed

lemma escape_simps [simp]: "escape [] = []" "escape (c # s) = esc c @ escape s"
  "escape (s @ t) = escape s @ escape t"
  by (simp_all add: escape_def)

section \<open>The quote automaton\<close>

text \<open>
  A scanner with an escape flag, the open quote and an accumulator: inside a double-quoted
  string it pushes every byte, a backslash escapes the next byte and a quote closes the string.
\<close>

locale quote_scanner =
  fixes scan :: "bool \<Rightarrow> char option \<Rightarrow> 'a \<Rightarrow> string \<Rightarrow> 'b"
    and push :: "char \<Rightarrow> 'a \<Rightarrow> 'a"
    and out :: "char \<Rightarrow> 'b \<Rightarrow> 'b"
  assumes scan_escaped: "scan True q a (c # cs) = out c (scan False q (push c a) cs)"
    and scan_backslash:
      "scan False (Some DQUOTE) a (BSLASH # cs) = out BSLASH (scan True (Some DQUOTE) (push BSLASH a) cs)"
    and scan_open:
      "scan False None a (DQUOTE # cs) = out DQUOTE (scan False (Some DQUOTE) (push DQUOTE a) cs)"
    and scan_close:
      "scan False (Some DQUOTE) a (DQUOTE # cs) = out DQUOTE (scan False None (push DQUOTE a) cs)"
    and scan_inside:
      "c \<noteq> DQUOTE \<Longrightarrow> c \<noteq> BSLASH \<Longrightarrow>
       scan False (Some DQUOTE) a (c # cs) = out c (scan False (Some DQUOTE) (push c a) cs)"
begin

lemma scan_escape:
  "scan False (Some DQUOTE) a (escape s @ t) =
   foldr out (escape s) (scan False (Some DQUOTE) (fold push (escape s) a) t)"
proof (induction s arbitrary: a)
  case (Cons c s)
  then show ?case
    by (cases "c = BSLASH \<or> c = DQUOTE \<or> c = NL")
      (auto simp: esc_def scan_backslash scan_escaped scan_inside)
qed simp

lemma scan_quoted:
  "scan False None a (jsonQuote s @ t) =
   foldr out (jsonQuote s) (scan False None (fold push (jsonQuote s) a) t)"
  by (simp add: jsonQuote_escape scan_open scan_escape scan_close)

end

interpretation strip: quote_scanner "\<lambda>e q (a :: unit) s. strip_aux e q s" "\<lambda>c a. a" "(#)"
  by unfold_locales (auto simp: toggle_def)

interpretation split: quote_scanner split_aux "(#)" "\<lambda>c r. r"
  by unfold_locales (auto simp: toggle_def)

interpretation closed: quote_scanner closed_aux "\<lambda>c a. a" "\<lambda>c r. r"
  by unfold_locales (auto simp: toggle_def)

lemma foldr_Cons_append: "foldr (#) xs ys = xs @ ys"
  by (induction xs) auto

lemma fold_Cons_rev: "fold (#) xs ys = rev xs @ ys"
  by (induction xs arbitrary: ys) auto

lemma fold_ignore: "fold (\<lambda>c a. a) xs y = y" "foldr (\<lambda>c a. a) xs y = y"
  by (induction xs) auto

lemmas strip_quoted = strip.scan_quoted [unfolded foldr_Cons_append]
lemmas split_quoted = split.scan_quoted [unfolded fold_Cons_rev fold_ignore]
lemmas closed_quoted = closed.scan_quoted [unfolded fold_ignore]

section \<open>Unquote undoes the escaping\<close>

lemma EncodeRune_high_bytes:
  assumes "ValidRune r" "0x80 \<le> r"
  shows "\<exists>a t. EncodeRune r = a # t \<and> 0x80 \<le> byte a \<and> list_all (\<lambda>c. 0x80 \<le> byte c) t"
  using EncodeRune_high [OF assms] by (cases "EncodeRune r") (auto simp: list_all_iff)

lemma escape_high: "list_all (\<lambda>c. 0x80 \<le> byte c) s \<Longrightarrow> escape s = s"
  by (induction s) (auto simp: esc_def)

lemma char_of_consts:
  "char_of (92 :: nat) = BSLASH" "char_of (34 :: nat) = DQUOTE" "char_of (10 :: nat) = NL"
  by code_simp+

lemma unquote_loop_quote: "unquote_loop (DQUOTE # t) = Some ([], t)"
  by simp

lemma unquote_loop_esc:
  assumes "ValidRune r"
  shows "unquote_loop (escape (EncodeRune r) @ t) =
    map_option (\<lambda>(out, rest). (EncodeRune r @ out, rest)) (unquote_loop t)"
proof (cases "r < 0x80")
  case True
  let ?c = "char_of r :: char"
  have b: "byte ?c = r" using True by simp
  show ?thesis
  proof (cases "?c = BSLASH \<or> ?c = DQUOTE \<or> ?c = NL")
    case True
    with \<open>r < 0x80\<close> b show ?thesis
      by (auto simp: esc_def UnquoteChar_def octal_digit_def char_of_consts)
  next
    case False
    then show ?thesis using \<open>r < 0x80\<close> b
      by (auto simp: esc_def UnquoteChar_def)
  qed
next
  case False
  then obtain a u where e: "EncodeRune r = a # u" and h: "0x80 \<le> byte a"
    "list_all (\<lambda>c. 0x80 \<le> byte c) u"
    using EncodeRune_high_bytes [OF assms] by force
  have d: "DecodeRune (a # u @ t) = (r, Suc (length u))"
    using DecodeRune_EncodeRune [OF assms, of t] e by simp
  from h have "escape (EncodeRune r) = a # u" unfolding e by (intro escape_high) simp
  moreover have "a \<noteq> DQUOTE" "a \<noteq> NL" using h(1) by auto
  moreover have "UnquoteChar (a # u @ t) = Some (r, True, t)"
    using h(1) d \<open>a \<noteq> DQUOTE\<close> by (simp add: UnquoteChar_def)
  ultimately show ?thesis using False by (simp add: e)
qed

lemma unquote_loop_escape:
  assumes "list_all ValidRune rs"
  shows "unquote_loop (escape (of_runes rs) @ DQUOTE # t) = Some (of_runes rs, t)"
  using assms by (induction rs) (auto simp: unquote_loop_esc unquote_loop_quote simp del: unquote_loop.simps(2))

lemma Unquote_jsonQuote:
  assumes "ValidString s"
  shows "Unquote (jsonQuote s) = Some s"
proof -
  have "unquote_loop (escape s @ [DQUOTE]) = Some (s, [])"
    using unquote_loop_escape [OF runes_Valid, of s "[]"] assms by (simp add: ValidString_def)
  then show ?thesis by (simp add: Unquote_def jsonQuote_escape)
qed

section \<open>The value round trip\<close>

text \<open>The values a Go \<open>int\<close> and a UTF-8 string can hold, and that the renderer accepts.\<close>

fun renderable :: "tval \<Rightarrow> bool" where
  "renderable (TBool b) = True"
| "renderable (TInt i) = (- (2 ^ 63) \<le> i \<and> i < 2 ^ 63)"
| "renderable (TString s) = ValidString s"
| "renderable (TArr vs) = list_all (\<lambda>v. case v of TString s \<Rightarrow> ValidString s | _ \<Rightarrow> False) vs"
| "renderable (TTable t) = False"

lemma graphic_marks [simp]: "graphic DQUOTE" "graphic CHR ''[''" "graphic CHR '']''" "graphic CHR ''-''"
  by (simp_all add: graphic_def)

lemma jsonQuote_neq [simp]: "jsonQuote s \<noteq> []"
  by (simp add: jsonQuote_escape)

lemma TrimSpace_jsonQuote [simp]: "TrimSpace (jsonQuote s) = jsonQuote s"
  by (rule TrimSpace_id) (simp_all add: jsonQuote_escape)

lemma ParseValue_jsonQuote:
  assumes "ValidString s"
  shows "ParseValue (jsonQuote s) c = Inr (TString s)"
proof -
  have "HasPrefix (jsonQuote s) [DQUOTE]" "HasSuffix (jsonQuote s) [DQUOTE]"
    "jsonQuote s \<noteq> ''true''" "jsonQuote s \<noteq> ''false''"
    by (auto simp: jsonQuote_escape HasSuffix_append)
  then show ?thesis
    using Unquote_jsonQuote [OF assms] by (simp add: ParseValue.simps)
qed

lemma dec_first: "\<exists>d ds. dec n = d # ds \<and> is_digit d \<and> list_all is_digit ds"
  using dec_digits [of n] by (cases "dec n") auto

lemma Atoi_Itoa: "- (2 ^ 63) \<le> i \<Longrightarrow> i < 2 ^ 63 \<Longrightarrow> Atoi (Itoa i) = Some i"
proof -
  assume r: "- (2 ^ 63) \<le> i" "i < 2 ^ 63"
  obtain d ds where d: "dec (nat i) = d # ds" "is_digit d" using dec_first by metis
  then have "d \<noteq> CHR ''-''" "d \<noteq> CHR ''+''" by (auto simp: is_digit_def)
  with r d show ?thesis
    using dec_digits [of "nat i"] dec_digits [of "nat (- i)"] digits_value_dec [of "nat i"]
    by (auto simp: Itoa_def Atoi_def digits_value_dec)
qed

lemma ParseValue_Itoa:
  assumes "- (2 ^ 63) \<le> i" "i < 2 ^ 63"
  shows "ParseValue (Itoa i) c = Inr (TInt i)"
proof -
  obtain d ds where d: "dec (nat \<bar>i\<bar>) = d # ds" "is_digit d" "list_all is_digit ds"
    using dec_first by metis
  have g: "list_all graphic (Itoa i)" using dec_digits is_digit_graphic
    by (auto simp: Itoa_def list_all_iff)
  obtain a t where a: "Itoa i = a # t" "a = CHR ''-'' \<or> is_digit a"
    using d by (cases "i < 0") (auto simp: Itoa_def)
  then have "a \<noteq> DQUOTE" "a \<noteq> SQUOTE" "a \<noteq> CHR ''[''" "a \<noteq> CHR ''t''" "a \<noteq> CHR ''f''"
    by (auto simp: is_digit_def)
  with a(1) show ?thesis
    using Atoi_Itoa [OF assms] TrimSpace_graphic [OF g] by (simp add: ParseValue.simps)
qed

lemma emit_item_jsonQuote:
  assumes "w = [] \<or> w = '' ''"
  shows "emit_item (rev (jsonQuote s) @ w) = [jsonQuote s]"
proof -
  have "TrimSpace (w @ jsonQuote s) = TrimSpace (jsonQuote s)"
    using assms by (auto simp: TrimSpace_def ascii_space_def)
  with assms show ?thesis by (auto simp: emit_item_def)
qed

lemma split_aux_items:
  assumes "w = [] \<or> w = '' ''"
  shows "split_aux False None w (join '', '' (map jsonQuote (s # ss))) = map jsonQuote (s # ss)"
  using assms
proof (induction ss arbitrary: s w)
  case Nil
  then show ?case using split_quoted [of _ s "[]"] by (simp add: emit_item_jsonQuote)
next
  case (Cons s' ss)
  have "split_aux False None '' '' (join '', '' (map jsonQuote (s' # ss))) =
      map jsonQuote (s' # ss)"
    by (rule Cons.IH) simp
  then show ?case using Cons.prems by (simp add: split_quoted emit_item_jsonQuote)
qed

lemma join_quoted_ends:
  "\<exists>u. join '', '' (map jsonQuote (s # ss)) = DQUOTE # u @ [DQUOTE]"
proof (induction ss arbitrary: s)
  case Nil
  then show ?case by (simp add: jsonQuote_escape)
next
  case (Cons s' ss)
  then obtain u where "join '', '' (map jsonQuote (s' # ss)) = DQUOTE # u @ [DQUOTE]" by blast
  then have "join '', '' (map jsonQuote (s # s' # ss)) =
      DQUOTE # (escape s @ [DQUOTE] @ '', '' @ DQUOTE # u) @ [DQUOTE]"
    by (simp add: jsonQuote_escape [of s])
  then show ?case by blast
qed

lemma parseArray_items:
  assumes "list_all ValidString ss"
  shows "parseArray (''['' @ join '', '' (map jsonQuote ss) @ '']'') c = Inr (map TString ss)"
proof (cases ss)
  case Nil
  then show ?thesis by (simp add: parseArray.simps)
next
  case (Cons s ss')
  let ?inner = "join '', '' (map jsonQuote ss)"
  obtain u where u: "?inner = DQUOTE # u @ [DQUOTE]" using join_quoted_ends Cons by metis
  then have t: "TrimSpace ?inner = ?inner" by (intro TrimSpace_id) simp_all
  have "splitArray ?inner = map jsonQuote ss"
    using split_aux_items [of "[]" s ss'] Cons by (simp add: splitArray_def)
  moreover have "map (\<lambda>item. ParseValue item c) (map jsonQuote ss) = map Inr (map TString ss)"
    using assms by (simp add: list_all_iff ParseValue_jsonQuote)
  moreover have "filter (\<lambda>item. TrimSpace item \<noteq> []) (map jsonQuote ss) = map jsonQuote ss"
    by (simp add: filter_id_conv)
  moreover have "butlast (tl (''['' @ ?inner @ '']'')) = ?inner" by simp
  moreover have "?inner \<noteq> []" using u by simp
  ultimately show ?thesis
    using t unfolding parseArray.simps by (simp only: Let_def if_False collect_Inr)
qed

lemma ParseValue_array:
  assumes "list_all ValidString ss"
  shows "ParseValue (''['' @ join '', '' (map jsonQuote ss) @ '']'') c = Inr (TArr (map TString ss))"
proof -
  let ?a = "''['' @ join '', '' (map jsonQuote ss) @ '']''"
  have "TrimSpace ?a = ?a" by (rule TrimSpace_id) simp_all
  moreover have "HasSuffix ?a '']''" by (simp add: HasSuffix_append)
  ultimately show ?thesis
    using parseArray_items [OF assms, of c] by (simp add: ParseValue.simps)
qed

lemma string_items_strings:
  "list_all (\<lambda>v. case v of TString s \<Rightarrow> ValidString s | _ \<Rightarrow> False) vs \<Longrightarrow>
   \<exists>ss. vs = map TString ss \<and> list_all ValidString ss \<and> string_items vs = Inr (map jsonQuote ss)"
proof (induction vs)
  case (Cons v vs)
  then obtain ss s where "vs = map TString ss" "list_all ValidString ss"
    "string_items vs = Inr (map jsonQuote ss)" "v = TString s" "ValidString s"
    by (auto split: tval.splits)
  then show ?case by (intro exI [of _ "s # ss"]) simp
qed simp

text \<open>A rendered value starts and ends with a graphic byte and survives the comment stripper.\<close>

lemma strip_plain:
  "list_all (\<lambda>c. c \<noteq> BSLASH \<and> c \<noteq> SQUOTE \<and> c \<noteq> DQUOTE \<and> c \<noteq> CHR ''#'') s \<Longrightarrow>
   strip_aux False None (s @ t) = s @ strip_aux False None t"
  by (induction s) auto

lemma strip_items:
  "strip_aux False None (join '', '' (map jsonQuote ss) @ t) =
   join '', '' (map jsonQuote ss) @ strip_aux False None t"
proof (induction ss rule: induct_list012)
  case (2 s)
  then show ?case by (simp add: strip_quoted)
next
  case (3 s s' ss)
  then show ?case by (simp add: strip_quoted)
qed simp

section \<open>Properties\<close>

text \<open>
  Every value that the policy writer renders (a boolean, an \<open>int\<close>, a UTF-8 string with any
  quotes, backslashes, newlines, commas, brackets or comment marks, an array of such strings)
  is read back by the policy parser as the same value.
\<close>

theorem renderTOMLValue_roundtrip:
  assumes "renderable v"
  shows "\<exists>s. renderTOMLValue v = Inr s \<and> ParseValue s context = Inr v"
proof (cases v)
  case (TArr vs)
  with assms obtain ss where "vs = map TString ss" "list_all ValidString ss"
    "string_items vs = Inr (map jsonQuote ss)"
    using string_items_strings by auto
  with TArr show ?thesis using ParseValue_array by simp
next
  case (TBool b)
  have "TrimSpace ''true'' = ''true''" "TrimSpace ''false'' = ''false''" by code_simp+
  with TBool show ?thesis by (simp add: ParseValue.simps)
qed (use assms in \<open>simp_all add: ParseValue_jsonQuote ParseValue_Itoa\<close>)

definition tricky_value :: tval where
  "tricky_value = TArr [TString ([DQUOTE, BSLASH, NL] @ ''a, ] # b''), TString ''/x'']"

theorem renderTOMLValue_roundtrip_witness:
  "renderable tricky_value \<and>
   (\<exists>s. renderTOMLValue tricky_value = Inr s \<and> ParseValue s ''p:1'' = Inr tricky_value)"
proof -
  have "renderable tricky_value" by code_simp
  then show ?thesis using renderTOMLValue_roundtrip [of tricky_value "''p:1''"] by simp
qed

end
