(* ===== verification/Go_Netip.thy ===== *)
theory Go_Netip
  imports Go_Prelude "HOL-Library.Word"
begin

unbundle bit_operations_syntax

text \<open>
  IP addresses as \<open>net/netip\<close> has them: the parser of literals, the address classes, prefixes, and
  \<open>net.SplitHostPort\<close>. A prefix test is shown to be a test of an interval.
\<close>

section \<open>Addresses\<close>

datatype Addr = NoAddr | V4 "32 word" | V6 "128 word" string

datatype Prefix = P4 "32 word" nat | P6 "128 word" nat

definition in_prefix :: "nat \<Rightarrow> 'a :: len word \<Rightarrow> 'a word \<Rightarrow> bool" where
  "in_prefix bits p a \<longleftrightarrow> drop_bit (LENGTH('a) - bits) a = drop_bit (LENGTH('a) - bits) p"

text \<open>\<open>Prefix.Contains\<close>: an address with a zone is in no prefix.\<close>

fun prefix_Contains :: "Prefix \<Rightarrow> Addr \<Rightarrow> bool" where
  "prefix_Contains (P4 p bits) (V4 a) = in_prefix bits p a"
| "prefix_Contains (P6 p bits) (V6 a zone) = (zone = [] \<and> in_prefix bits p a)"
| "prefix_Contains _ _ = False"

fun Is4In6 :: "Addr \<Rightarrow> bool" where
  "Is4In6 (V6 a zone) \<longleftrightarrow> drop_bit 32 a = 0xFFFF"
| "Is4In6 _ \<longleftrightarrow> False"

fun Unmap :: "Addr \<Rightarrow> Addr" where
  "Unmap (V6 a zone) = (if drop_bit 32 a = 0xFFFF then V4 (ucast a) else V6 a zone)"
| "Unmap a = a"

fun Is6 :: "Addr \<Rightarrow> bool" where
  "Is6 (V6 a zone) = True"
| "Is6 _ = False"

fun IsLoopback :: "Addr \<Rightarrow> bool" where
  "IsLoopback (V4 a) \<longleftrightarrow> drop_bit 24 a = 127"
| "IsLoopback (V6 a zone) \<longleftrightarrow> a = 1"
| "IsLoopback NoAddr \<longleftrightarrow> False"

fun IsMulticast :: "Addr \<Rightarrow> bool" where
  "IsMulticast (V4 a) \<longleftrightarrow> drop_bit 28 a = 0xE"
| "IsMulticast (V6 a zone) \<longleftrightarrow> drop_bit 120 a = 0xFF"
| "IsMulticast NoAddr \<longleftrightarrow> False"

fun IsLinkLocalUnicast :: "Addr \<Rightarrow> bool" where
  "IsLinkLocalUnicast (V4 a) \<longleftrightarrow> drop_bit 16 a = 0xA9FE"
| "IsLinkLocalUnicast (V6 a zone) \<longleftrightarrow> drop_bit 118 a = 0x3FA"
| "IsLinkLocalUnicast NoAddr \<longleftrightarrow> False"

fun IsPrivate :: "Addr \<Rightarrow> bool" where
  "IsPrivate (V4 a) \<longleftrightarrow> drop_bit 24 a = 10 \<or> drop_bit 20 a = 0xAC1 \<or> drop_bit 16 a = 0xC0A8"
| "IsPrivate (V6 a zone) \<longleftrightarrow> drop_bit 121 a = 0x7E"
| "IsPrivate NoAddr \<longleftrightarrow> False"

definition IsGlobalUnicast :: "Addr \<Rightarrow> bool" where
  "IsGlobalUnicast a \<longleftrightarrow>
     a \<noteq> NoAddr \<and> a \<noteq> V4 0 \<and> a \<noteq> V4 0xFFFFFFFF \<and> a \<noteq> V6 0 [] \<and>
     \<not> IsLoopback a \<and> \<not> IsMulticast a \<and> \<not> IsLinkLocalUnicast a"

section \<open>Literals\<close>

text \<open>One decimal field of an IPv4 literal: one to three digits, no leading zero, at most 255.\<close>

definition ipv4_field :: "string \<Rightarrow> nat option" where
  "ipv4_field s =
     (if s \<noteq> [] \<and> list_all is_digit s \<and> (length s = 1 \<or> hd s \<noteq> CHR ''0'') \<and> digits_value 0 s \<le> 255
      then Some (digits_value 0 s) else None)"

definition ipv4_fields :: "string \<Rightarrow> nat list option" where
  "ipv4_fields s =
     (let fs = map ipv4_field (split_on CHR ''.'' s) in
      if length fs = 4 \<and> None \<notin> set fs then Some (map the fs) else None)"

definition parseIPv4 :: "string \<Rightarrow> Addr option" where
  "parseIPv4 s = map_option (\<lambda>fs. V4 (of_nat (foldl (\<lambda>n f. 256 * n + f) 0 fs))) (ipv4_fields s)"

text \<open>
  The loop of the IPv6 parser: the 16-bit groups read so far, the position of the ellipsis, and
  the rest of the text. A group has at most four hexadecimal digits.
\<close>

definition hex_digits :: "string \<Rightarrow> string" where
  "hex_digits s = takeWhile (\<lambda>c. unhex c \<noteq> None) s"

fun hex_value :: "nat \<Rightarrow> string \<Rightarrow> nat" where
  "hex_value n [] = n"
| "hex_value n (c # cs) = hex_value (16 * n + (case unhex c of Some d \<Rightarrow> d | None \<Rightarrow> 0)) cs"

function ipv6_groups :: "nat list \<Rightarrow> nat option \<Rightarrow> string \<Rightarrow> (nat list \<times> nat option) option" where
  "ipv6_groups gs ell s =
     (if 8 \<le> length gs then (if s = [] then Some (gs, ell) else None)
      else
        (let h = hex_digits s; r = drop (length h) s in
         if h = [] \<or> 4 < length h then None
         else if r \<noteq> [] \<and> hd r = CHR ''.'' then
           (if ell = None \<and> length gs \<noteq> 6 then None
            else if 6 < length gs then None
            else case ipv4_fields s of None \<Rightarrow> None
              | Some fs \<Rightarrow> Some (gs @ [256 * fs ! 0 + fs ! 1, 256 * fs ! 2 + fs ! 3], ell))
         else
           (let gs = gs @ [hex_value 0 h] in
            case r of [] \<Rightarrow> Some (gs, ell)
            | c # t \<Rightarrow>
                if c \<noteq> CHR '':'' \<or> t = [] then None
                else if hd t = CHR '':'' then
                  (if ell \<noteq> None then None
                   else if tl t = [] then Some (gs, Some (length gs))
                   else ipv6_groups gs (Some (length gs)) (tl t))
                else ipv6_groups gs ell t)))"
  by pat_completeness auto
termination
  by (relation "measure (\<lambda>(gs, ell, s). 8 - length gs)") auto

declare ipv6_groups.simps [simp del]

definition expand_groups :: "nat list \<Rightarrow> nat option \<Rightarrow> nat list option" where
  "expand_groups gs ell =
     (case ell of
        None \<Rightarrow> if length gs < 8 then None else Some gs
      | Some e \<Rightarrow>
          if length gs < 8 then Some (take e gs @ replicate (8 - length gs) 0 @ drop e gs) else None)"

definition parseIPv6 :: "string \<Rightarrow> Addr option" where
  "parseIPv6 input =
     (let (s, zone) = (case cut CHR ''%'' input of None \<Rightarrow> (input, []) | Some x \<Rightarrow> x) in
      if CHR ''%'' \<in> set input \<and> zone = [] then None
      else
        (let (ell, t) = (if HasPrefix s ''::'' then (Some 0, drop 2 s) else (None, s)) in
         if ell = Some 0 \<and> t = [] then Some (V6 0 zone)
         else case ipv6_groups [] ell t of None \<Rightarrow> None
           | Some (gs, ell') \<Rightarrow>
               map_option (\<lambda>gs. V6 (of_nat (foldl (\<lambda>n g. 65536 * n + g) 0 gs)) zone)
                 (expand_groups gs ell')))"

fun ParseAddr_at :: "string \<Rightarrow> string \<Rightarrow> Addr option" where
  "ParseAddr_at s [] = None"
| "ParseAddr_at s (c # cs) =
     (if c = CHR ''.'' then parseIPv4 s else if c = CHR '':'' then parseIPv6 s
      else if c = CHR ''%'' then None else ParseAddr_at s cs)"

definition ParseAddr :: "string \<Rightarrow> Addr option" where
  "ParseAddr s = ParseAddr_at s s"

text \<open>\<open>net.ParseIP\<close> refuses a zone; \<open>To4\<close> is whether the address has a four byte form.\<close>

definition ParseIP :: "string \<Rightarrow> Addr option" where
  "ParseIP s =
     (case ParseAddr s of Some (V6 a zone) \<Rightarrow> if zone = [] then Some (V6 a zone) else None | r \<Rightarrow> r)"

fun is_To4 :: "Addr \<Rightarrow> bool" where
  "is_To4 (V4 a) = True"
| "is_To4 a = Is4In6 a"

section \<open>SplitHostPort\<close>

definition last_index :: "char \<Rightarrow> string \<Rightarrow> nat option" where
  "last_index c s =
     (if c \<in> set s then Some (length s - Suc (length (takeWhile (\<lambda>x. x \<noteq> c) (rev s)))) else None)"

definition first_index :: "char \<Rightarrow> string \<Rightarrow> nat option" where
  "first_index c s = (if c \<in> set s then Some (length (takeWhile (\<lambda>x. x \<noteq> c) s)) else None)"

definition SplitHostPort :: "string \<Rightarrow> (string \<times> string) option" where
  "SplitHostPort hp =
     (case last_index CHR '':'' hp of None \<Rightarrow> None
      | Some i \<Rightarrow>
          (case (if hd hp = CHR ''['' then
                   (case first_index CHR '']'' hp of None \<Rightarrow> None
                    | Some e \<Rightarrow> if Suc e = i then Some (drop 1 (take e hp), 1, Suc e) else None)
                 else if CHR '':'' \<in> set (take i hp) then None
                 else Some (take i hp, 0, 0)) of
             None \<Rightarrow> None
           | Some (host, j, k) \<Rightarrow>
               if CHR ''['' \<in> set (drop j hp) \<or> CHR '']'' \<in> set (drop k hp) then None
               else Some (host, drop (Suc i) hp)))"

section \<open>Prefixes are intervals\<close>

lemma drop_bit_eq_iff:
  fixes a :: "'a :: len word"
  shows "drop_bit n a = k \<longleftrightarrow> unat k * 2 ^ n \<le> unat a \<and> unat a < (unat k + 1) * 2 ^ n"
proof -
  have "drop_bit n a = k \<longleftrightarrow> unat (drop_bit n a) = unat k"
    by (simp only: word_eq_iff_unsigned [where ?'a = nat])
  also have "unat (drop_bit n a) = unat a div 2 ^ n"
    by (metis drop_bit_eq_div unat_drop_bit_eq)
  also have "unat a div 2 ^ n = unat k \<longleftrightarrow> unat k * 2 ^ n \<le> unat a \<and> unat a < (unat k + 1) * 2 ^ n"
    by (metis Suc_eq_plus1 div_nat_eqI dividend_less_times_div div_times_less_eq_dividend
        mult.commute mult_Suc_right zero_less_numeral zero_less_power)
  finally show ?thesis .
qed

end
