(* ===== verification/Egress_Allowlist.thy ===== *)
theory Egress_Allowlist
  imports Go_Netip
begin

text \<open>
  The endpoints that a policy may name (\<open>src/internal/injectionpolicy/endpoint.go\<close>) and the allowlist
  of the egress proxy (\<open>src/internal/egressproxy/allowlist.go\<close>). The property is that the parsed
  allowlist admits exactly the endpoints that the text lists.
\<close>

section \<open>Endpoints\<close>

text \<open>The regular expressions of \<open>endpoint.go\<close>; each anchors at both ends.\<close>

definition port_text :: "string \<Rightarrow> bool" where
  "port_text s \<longleftrightarrow> s \<noteq> [] \<and> length s \<le> 5 \<and> list_all is_digit s"

definition ipv6_literal_char :: "char \<Rightarrow> bool" where
  "ipv6_literal_char c \<longleftrightarrow> unhex c \<noteq> None \<or> c = CHR '':'' \<or> c = CHR ''.''"

definition ipv6EndpointPattern :: "string \<Rightarrow> (string \<times> string) option" where
  "ipv6EndpointPattern s =
     (case s of [] \<Rightarrow> None
      | c # t \<Rightarrow>
          (let h = takeWhile ipv6_literal_char t; r = drop (length h) t in
           if c = CHR ''['' \<and> h \<noteq> [] \<and> HasPrefix r '']:'' \<and> port_text (drop 2 r)
           then Some (h, drop 2 r) else None))"

definition hostEndpointPattern :: "string \<Rightarrow> (string \<times> string) option" where
  "hostEndpointPattern s =
     (case cut CHR '':'' s of None \<Rightarrow> None
      | Some (h, p) \<Rightarrow> if h \<noteq> [] \<and> port_text p then Some (h, p) else None)"

definition host_char :: "char \<Rightarrow> bool" where
  "host_char c \<longleftrightarrow> is_digit c \<or> 65 \<le> byte c \<and> byte c \<le> 90 \<or> 97 \<le> byte c \<and> byte c \<le> 122
     \<or> c = CHR ''.'' \<or> c = CHR ''-''"

definition hostLabelPattern :: "string \<Rightarrow> bool" where
  "hostLabelPattern s \<longleftrightarrow> s \<noteq> [] \<and> list_all host_char s"

definition ipv4ShapedPattern :: "string \<Rightarrow> bool" where
  "ipv4ShapedPattern s \<longleftrightarrow> s \<noteq> [] \<and> list_all (\<lambda>c. is_digit c \<or> c = CHR ''.'') s"

datatype endpoint_error =
    InvalidEndpointHost
  | InvalidEndpointPort
  | InvalidEndpoint
  | IPLiteralEndpoint
  | SharedPort nat string string
  | NoEndpoints

definition endpoint_host :: "string \<Rightarrow> string \<times> string" where
  "endpoint_host endpoint =
     (case ipv6EndpointPattern endpoint of
        Some (h, p) \<Rightarrow> (''['' @ h @ '']'', p)
      | None \<Rightarrow>
          (case hostEndpointPattern endpoint of Some (h, p) \<Rightarrow> (h, p) | None \<Rightarrow> ([], [])))"

definition ValidateEgressEndpoint :: "string \<Rightarrow> endpoint_error option" where
  "ValidateEgressEndpoint endpoint =
     (let (host, port) = endpoint_host endpoint in
      if host = [] then Some InvalidEndpointHost
      else if HasPrefix host ''['' \<and> HasSuffix host '']'' \<and>
          (case ParseIP (take (length host - 2) (drop 1 host)) of None \<Rightarrow> True | Some ip \<Rightarrow> is_To4 ip)
        then Some InvalidEndpointHost
      else if \<not> (HasPrefix host ''['' \<and> HasSuffix host '']'') \<and>
          (\<not> hostLabelPattern host \<or> HasPrefix host ''.'' \<or> Contains host ''..'' \<or>
           ipv4ShapedPattern host \<and> ParseIP host = None)
        then Some InvalidEndpointHost
      else case Atoi port of
        None \<Rightarrow> Some InvalidEndpointPort
      | Some n \<Rightarrow> if n < 1 \<or> 65535 < n then Some InvalidEndpointPort else None)"

section \<open>The allowlist\<close>

definition tlsPort :: nat where "tlsPort = 443"

record Allowlist =
  al_sni :: "string list"
  al_forward :: "(nat \<times> string) list"

definition lower_ascii :: "char \<Rightarrow> char" where
  "lower_ascii c = (if 65 \<le> byte c \<and> byte c \<le> 90 then char_of (byte c + 32) else c)"

text \<open>A validated host is ASCII, where \<open>strings.ToLower\<close> works byte by byte.\<close>

definition canonicalHost :: "string \<Rightarrow> string" where
  "canonicalHost host = TrimSuffix (map lower_ascii host) ''.''"

definition parse_entry :: "string \<Rightarrow> (endpoint_error, string \<times> nat) result" where
  "parse_entry entry =
     (case ValidateEgressEndpoint entry of
        Some e \<Rightarrow> Inl e
      | None \<Rightarrow>
          (case SplitHostPort entry of
             None \<Rightarrow> Inl InvalidEndpoint
           | Some (host, portText) \<Rightarrow>
               if ParseAddr host \<noteq> None then Inl IPLiteralEndpoint
               else case ParseUint10 portText 16 of
                 None \<Rightarrow> Inl InvalidEndpointPort
               | Some port \<Rightarrow> Inr (canonicalHost host, port)))"

definition add_endpoint :: "string \<times> nat \<Rightarrow> Allowlist \<Rightarrow> (endpoint_error, Allowlist) result" where
  "add_endpoint hp a =
     (case hp of (host, port) \<Rightarrow>
        if port = tlsPort then Inr (a\<lparr>al_sni := List.insert host (al_sni a)\<rparr>)
        else case map_of (al_forward a) port of
          Some prev \<Rightarrow> if prev \<noteq> host then Inl (SharedPort port prev host) else Inr a
        | None \<Rightarrow> Inr (a\<lparr>al_forward := (port, host) # al_forward a\<rparr>))"

fun add_entries :: "string list \<Rightarrow> Allowlist \<Rightarrow> (endpoint_error, Allowlist) result" where
  "add_entries [] a = Inr a"
| "add_entries (entry # es) a =
     (case parse_entry entry of
        Inl e \<Rightarrow> Inl e
      | Inr hp \<Rightarrow> (case add_endpoint hp a of Inl e \<Rightarrow> Inl e | Inr a' \<Rightarrow> add_entries es a'))"

text \<open>The entries of the text, line by line, with the comments cut off.\<close>

definition strip_hash :: "string \<Rightarrow> string" where
  "strip_hash line = (case cut CHR ''#'' line of None \<Rightarrow> line | Some (b, _) \<Rightarrow> b)"

definition allow_entries :: "string \<Rightarrow> string list" where
  "allow_entries src = concat (map (\<lambda>line. Fields (strip_hash line)) (split_on NL src))"

definition ParseAllowlist :: "string \<Rightarrow> (endpoint_error, Allowlist) result" where
  "ParseAllowlist src =
     (case add_entries (allow_entries src) \<lparr>al_sni = [], al_forward = []\<rparr> of
        Inl e \<Rightarrow> Inl e
      | Inr a \<Rightarrow> if al_sni a = [] \<and> al_forward a = [] then Inl NoEndpoints else Inr a)"

definition Ports :: "Allowlist \<Rightarrow> nat list" where
  "Ports a = sort ((if al_sni a \<noteq> [] then [tlsPort] else []) @ map fst (al_forward a))"

section \<open>What an allowlist admits\<close>

definition admits :: "Allowlist \<Rightarrow> string \<Rightarrow> nat \<Rightarrow> bool" where
  "admits a host port \<longleftrightarrow>
     (if port = tlsPort then host \<in> set (al_sni a) else map_of (al_forward a) port = Some host)"

definition host_ok :: "string \<Rightarrow> bool" where
  "host_ok h \<longleftrightarrow> list_all (\<lambda>c. byte c < 0x80 \<and> lower_ascii c = c) h \<and> h \<noteq> []"

definition allow_inv :: "Allowlist \<Rightarrow> bool" where
  "allow_inv a \<longleftrightarrow> distinct (al_sni a) \<and> distinct (map fst (al_forward a)) \<and>
     tlsPort \<notin> fst ` set (al_forward a)"

lemma add_endpoint_admits:
  assumes "add_endpoint (h, p) a = Inr a'" "allow_inv a"
  shows "allow_inv a' \<and> (admits a' h' p' \<longleftrightarrow> admits a h' p' \<or> h' = h \<and> p' = p)"
  using assms
  by (auto simp: add_endpoint_def admits_def allow_inv_def map_of_eq_None_iff
      split: if_splits option.splits) (metis fst_conv image_eqI)

lemma add_entries_admits:
  assumes "add_entries es a = Inr a'" "allow_inv a"
  shows "allow_inv a' \<and> (\<forall>h p. admits a' h p \<longleftrightarrow> admits a h p \<or> (\<exists>e\<in>set es. parse_entry e = Inr (h, p))) \<and>
    list_all (\<lambda>e. is_ok (parse_entry e)) es"
  using assms
proof (induction es a rule: add_entries.induct)
  case (2 entry es a)
  then obtain h p a1 where *: "parse_entry entry = Inr (h, p)" "add_endpoint (h, p) a = Inr a1"
      "add_entries es a1 = Inr a'"
    by (auto split: sum.splits)
  have a1: "allow_inv a1" "admits a1 h' p' \<longleftrightarrow> admits a h' p' \<or> h' = h \<and> p' = p" for h' p'
    using add_endpoint_admits [OF *(2) 2(3)] by auto
  show ?case using 2(1) [OF *(1,2,3) a1(1)] a1(2) *(1) by auto
qed (simp add: is_ok_def)

lemma byte_lower_ascii:
  "byte (lower_ascii c) = (if 65 \<le> byte c \<and> byte c \<le> 90 then byte c + 32 else byte c)"
  by (simp add: lower_ascii_def byte_char_of)

lemma lower_ascii_idem [simp]: "lower_ascii (lower_ascii c) = lower_ascii c"
  by (cases "65 \<le> byte c \<and> byte c \<le> 90")
     (auto simp: lower_ascii_def [of "lower_ascii c"] byte_lower_ascii)

lemma host_char_ascii: "host_char c \<Longrightarrow> byte c < 0x80"
  by (auto simp: host_char_def is_digit_def)

lemma canonicalHost_ok:
  assumes "hostLabelPattern host" "\<not> HasPrefix host ''.''"
  shows "host_ok (canonicalHost host)"
proof -
  obtain c t where host: "host = c # t" "c \<noteq> CHR ''.''"
    using assms by (cases host) (auto simp: hostLabelPattern_def)
  have dot: "byte CHR ''.'' = 46" by simp
  have "lower_ascii c \<noteq> CHR ''.''"
  proof
    assume "lower_ascii c = CHR ''.''"
    then have "byte (lower_ascii c) = 46" by simp
    then have "byte c = 46" unfolding byte_lower_ascii by (simp split: if_splits)
    then show False using host(2) dot byte_inject by metis
  qed
  then have ne: "canonicalHost host \<noteq> []"
    by (auto simp: canonicalHost_def TrimSuffix_def HasSuffix_append host Cons_eq_append_conv)
  have l: "list_all (\<lambda>c. byte c < 0x80 \<and> lower_ascii c = c) (map lower_ascii host)"
    using assms(1) host_char_ascii by (fastforce simp: hostLabelPattern_def list_all_iff byte_lower_ascii)
  then have "list_all (\<lambda>c. byte c < 0x80 \<and> lower_ascii c = c) (canonicalHost host)"
    by (auto simp: canonicalHost_def TrimSuffix_def list_all_iff simp del: set_map dest!: in_set_takeD)
  then show ?thesis using ne by (simp add: host_ok_def)
qed
section \<open>Accepted entries\<close>

lemma last_index_append:
  assumes "c \<notin> set t"
  shows "last_index c (s @ c # t) = Some (length s)"
proof -
  have "takeWhile (\<lambda>x. x \<noteq> c) (rev t @ c # rev s) = rev t"
    using assms by (subst takeWhile_append2) auto
  then show ?thesis by (simp add: last_index_def)
qed

lemma port_text_no_colon: "port_text p \<Longrightarrow> CHR '':'' \<notin> set p \<and> CHR ''['' \<notin> set p \<and> CHR '']'' \<notin> set p"
  by (auto simp: port_text_def list_all_iff is_digit_def)

lemma host_char_plain: "list_all host_char h \<Longrightarrow> CHR '':'' \<notin> set h \<and> CHR ''['' \<notin> set h \<and> CHR '']'' \<notin> set h"
  by (auto simp: list_all_iff host_char_def is_digit_def)

lemma SplitHostPort_plain:
  assumes "hostLabelPattern h" "port_text p"
  shows "SplitHostPort (h @ CHR '':'' # p) = Some (h, p)"
proof -
  have h: "CHR '':'' \<notin> set h" "CHR ''['' \<notin> set h" "CHR '']'' \<notin> set h" "h \<noteq> []"
    using assms(1) host_char_plain by (auto simp: hostLabelPattern_def)
  have p: "CHR '':'' \<notin> set p" "CHR ''['' \<notin> set p" "CHR '']'' \<notin> set p"
    using port_text_no_colon [OF assms(2)] by auto
  have "hd (h @ CHR '':'' # p) \<noteq> CHR ''[''" using h(2,4) by (cases h) auto
  then show ?thesis using h p by (simp add: SplitHostPort_def last_index_append)
qed

lemma SplitHostPort_bracket:
  assumes "list_all ipv6_literal_char h" "port_text p"
  shows "SplitHostPort (CHR ''['' # h @ CHR '']'' # CHR '':'' # p) = Some (h, p)"
proof -
  have h: "CHR ''['' \<notin> set h" "CHR '']'' \<notin> set h"
    using assms(1) by (auto simp: list_all_iff ipv6_literal_char_def unhex_def is_digit_def)
  have p: "CHR '':'' \<notin> set p" "CHR ''['' \<notin> set p" "CHR '']'' \<notin> set p"
    using port_text_no_colon [OF assms(2)] by auto
  have l: "last_index CHR '':'' (CHR ''['' # h @ CHR '']'' # CHR '':'' # p) = Some (length h + 2)"
    using last_index_append [OF p(1), of "CHR ''['' # h @ [CHR '']'']"] by simp
  have "takeWhile (\<lambda>x. x \<noteq> CHR '']'') (CHR ''['' # h @ CHR '']'' # CHR '':'' # p) = CHR ''['' # h"
    using h(2) by (simp add: takeWhile_append)
  then have "first_index CHR '']'' (CHR ''['' # h @ CHR '']'' # CHR '':'' # p) = Some (length h + 1)"
    by (simp add: first_index_def)
  with l h p show ?thesis by (simp add: SplitHostPort_def)
qed

lemma ipv6EndpointPattern_Some:
  assumes "ipv6EndpointPattern s = Some (h, p)"
  shows "s = CHR ''['' # h @ CHR '']'' # CHR '':'' # p" "list_all ipv6_literal_char h" "port_text p" "h \<noteq> []"
proof -
  obtain t where s: "s = CHR ''['' # t" "h = takeWhile ipv6_literal_char t"
      "HasPrefix (drop (length h) t) '']:''" "p = drop 2 (drop (length h) t)" "port_text p" "h \<noteq> []"
    using assms by (auto simp: ipv6EndpointPattern_def Let_def split: list.splits if_splits)
  have "t = h @ drop (length h) t" using s(2) by (metis append_take_drop_id takeWhile_eq_take)
  then show "s = CHR ''['' # h @ CHR '']'' # CHR '':'' # p"
    using s(1,3,4) by (auto simp: HasPrefix_append)
  show "list_all ipv6_literal_char h" using s(2) by (auto simp: list_all_iff dest: set_takeWhileD)
  show "port_text p" "h \<noteq> []" by (fact s)+
qed

lemma ParseAddr_at_no_colon: "CHR '':'' \<notin> set t \<Longrightarrow> ParseAddr_at s t = Some ip \<Longrightarrow> is_To4 ip"
  by (induction s t rule: ParseAddr_at.induct)
     (auto simp: parseIPv4_def split: if_splits)

lemma ParseIP_no_colon: "CHR '':'' \<notin> set s \<Longrightarrow> ParseIP s = Some ip \<Longrightarrow> is_To4 ip"
  using ParseAddr_at_no_colon [of s s] by (fastforce simp: ParseIP_def ParseAddr_def split: option.splits Addr.splits if_splits)

lemma ParseIP_ParseAddr: "ParseIP s \<noteq> None \<Longrightarrow> ParseAddr s \<noteq> None"
  by (auto simp: ParseIP_def split: option.splits)

lemma port_value:
  assumes "port_text p" "Atoi p = Some n"
  shows "n = int (digits_value 0 p)"
proof -
  obtain c t where p: "p = c # t" "is_digit c" using assms(1) by (cases p) (auto simp: port_text_def)
  then show ?thesis
    using assms by (auto simp: Atoi_def is_digit_def Let_def split: if_splits)
qed

text \<open>An entry that is accepted is a plain \<open>host:port\<close>.\<close>

lemma parse_entry_plain:
  assumes "parse_entry e = Inr (h, p)"
  obtains host port where "e = host @ CHR '':'' # port" "hostLabelPattern host" "\<not> HasPrefix host ''.''"
    "port_text port" "h = canonicalHost host" "p = digits_value 0 port" "1 \<le> p" "p \<le> 65535"
proof (cases "ipv6EndpointPattern e")
  case (Some hp)
  obtain host port where hp: "hp = (host, port)" by fastforce
  note e = ipv6EndpointPattern_Some [OF Some [unfolded hp]]
  have "ParseIP host \<noteq> None"
    using assms Some hp e(4) by (auto simp: parse_entry_def ValidateEgressEndpoint_def endpoint_host_def Let_def
        HasSuffix_append split: option.splits if_splits)
  moreover have "SplitHostPort e = Some (host, port)" using SplitHostPort_bracket [OF e(2,3)] e(1) by simp
  ultimately show thesis using assms ParseIP_ParseAddr by (auto simp: parse_entry_def split: option.splits if_splits)
next
  case None
  then obtain host port where c: "cut CHR '':'' e = Some (host, port)" "host \<noteq> []" "port_text port"
    using assms by (auto simp: parse_entry_def ValidateEgressEndpoint_def endpoint_host_def hostEndpointPattern_def
        split: option.splits if_splits)
  then have e: "e = host @ CHR '':'' # port" "CHR '':'' \<notin> set host" by (auto dest: cut_SomeD)
  have eh: "endpoint_host e = (host, port)" using None c by (simp add: endpoint_host_def hostEndpointPattern_def)
  have v: "ValidateEgressEndpoint e = None" using assms by (auto simp: parse_entry_def split: option.splits)
  have nb: "\<not> (HasPrefix host ''['' \<and> HasSuffix host '']'')"
  proof
    assume b: "HasPrefix host ''['' \<and> HasSuffix host '']''"
    have "CHR '':'' \<notin> set (take (length host - 2) (drop 1 host))"
      using e(2) by (meson in_set_dropD in_set_takeD)
    then have "case ParseIP (take (length host - 2) (drop 1 host)) of None \<Rightarrow> True | Some ip \<Rightarrow> is_To4 ip"
      using ParseIP_no_colon by (auto split: option.splits)
    with v b c(2) show False by (simp add: ValidateEgressEndpoint_def eh)
  qed
  have l: "hostLabelPattern host" "\<not> HasPrefix host ''.''"
    using v nb c(2) by (auto simp: ValidateEgressEndpoint_def eh split: if_splits)
  obtain n where n: "Atoi port = Some n" "1 \<le> n" "n \<le> 65535"
    using v nb l c(2) by (auto simp: ValidateEgressEndpoint_def eh split: if_splits option.splits)
  have "h = canonicalHost host" "p = digits_value 0 port"
    using assms v SplitHostPort_plain [OF l(1) c(3)] e(1)
    by (auto simp: parse_entry_def ParseUint10_def split: if_splits option.splits)
  then show thesis using that [OF e(1) l c(3)] n port_value [OF c(3) n(1)] by simp
qed

lemma Ports_admits:
  assumes "allow_inv a"
  shows "p \<in> set (Ports a) \<longleftrightarrow> (\<exists>h. admits a h p)"
proof (cases "p = tlsPort")
  case True
  then show ?thesis using assms by (cases "al_sni a") (auto simp: Ports_def admits_def allow_inv_def set_insort_key)
next
  case False
  have "p \<in> fst ` set (al_forward a) \<longleftrightarrow> (\<exists>h. map_of (al_forward a) p = Some h)"
    by (metis map_of_eq_None_iff not_None_eq option.distinct(1))
  then show ?thesis using False by (simp add: Ports_def admits_def)
qed

lemma allowlist_admits:
  assumes "ParseAllowlist src = Inr a"
  shows "(\<forall>host port. admits a host port \<longleftrightarrow> (\<exists>e\<in>set (allow_entries src). parse_entry e = Inr (host, port))) \<and>
    list_all (\<lambda>e. ValidateEgressEndpoint e = None) (allow_entries src) \<and>
    (\<forall>host port. admits a host port \<longrightarrow> host_ok host \<and> 1 \<le> port \<and> port \<le> 65535) \<and>
    sorted (Ports a) \<and> distinct (Ports a) \<and> Ports a \<noteq> [] \<and>
    (\<forall>port. port \<in> set (Ports a) \<longleftrightarrow> (\<exists>host. admits a host port))"
proof -
  have add: "add_entries (allow_entries src) \<lparr>al_sni = [], al_forward = []\<rparr> = Inr a"
    "\<not> (al_sni a = [] \<and> al_forward a = [])"
    using assms by (auto simp: ParseAllowlist_def split: sum.splits if_splits)
  note ad = add_entries_admits [OF add(1)]
  have inv: "allow_inv a" and all: "list_all (\<lambda>e. is_ok (parse_entry e)) (allow_entries src)"
    and ex: "\<forall>h p. admits a h p \<longleftrightarrow> (\<exists>e\<in>set (allow_entries src). parse_entry e = Inr (h, p))"
    using ad by (simp_all add: allow_inv_def admits_def)
  have "list_all (\<lambda>e. ValidateEgressEndpoint e = None) (allow_entries src)"
    using all by (auto simp: list_all_iff is_ok_def parse_entry_def split: sum.splits option.splits)
  moreover have "host_ok h \<and> 1 \<le> p \<and> p \<le> 65535" if "admits a h p" for h p
    using that parse_entry_plain canonicalHost_ok ex by metis
  moreover have "p \<in> set (Ports a) \<longleftrightarrow> (\<exists>h. admits a h p)" for p
    by (rule Ports_admits [OF inv])
  moreover have "distinct (Ports a)" "sorted (Ports a)"
    using inv by (auto simp: Ports_def allow_inv_def)
  moreover have "set (Ports a) \<noteq> {}" using add(2) by (auto simp: Ports_def)
  ultimately show ?thesis using ex by (metis set_empty)
qed

section \<open>Properties\<close>

text \<open>
  C29: an allowlist admits exactly what its text lists. Every entry of an accepted text is a valid
  endpoint, and the proxy admits a host and port exactly when an entry names them; the admitted
  hosts are lower-case ASCII names and no IP literals, the ports are in range, and \<open>Ports\<close> lists
  each port of an endpoint once, in ascending order.
\<close>

theorem ParseAllowlist_exact:
  assumes "ParseAllowlist src = Inr a"
  shows "(\<forall>host port. admits a host port \<longleftrightarrow> (\<exists>e\<in>set (allow_entries src). parse_entry e = Inr (host, port))) \<and>
    list_all (\<lambda>e. ValidateEgressEndpoint e = None) (allow_entries src) \<and>
    (\<forall>host port. admits a host port \<longrightarrow> host_ok host \<and> 1 \<le> port \<and> port \<le> 65535) \<and>
    sorted (Ports a) \<and> distinct (Ports a) \<and> Ports a \<noteq> [] \<and>
    (\<forall>port. port \<in> set (Ports a) \<longleftrightarrow> (\<exists>host. admits a host port))"
  using assms by (rule allowlist_admits)

definition sample_allowlist :: string where
  "sample_allowlist = ''API.Example.com.:443 git.example.com:22 # two'' @ [NL] @ ''b.example.com:443''"

definition sample_allow :: Allowlist where
  "sample_allow = \<lparr>al_sni = [''b.example.com'', ''api.example.com''], al_forward = [(22, ''git.example.com'')]\<rparr>"

lemma sample_allowlist_parses: "ParseAllowlist sample_allowlist = Inr sample_allow"
  by code_simp

theorem ParseAllowlist_exact_witness:
  "list_all (\<lambda>e. ValidateEgressEndpoint e = None) (allow_entries sample_allowlist) \<and>
   sorted (Ports sample_allow) \<and> distinct (Ports sample_allow)"
  using ParseAllowlist_exact [OF sample_allowlist_parses] by blast

end
