(* ===== verification/Policy_File.thy ===== *)
theory Policy_File
  imports Bundle_Union Policy_Value Egress_Allowlist
begin

text \<open>
  The policy files of \<open>src/internal/authpolicy/policy.go\<close>: the validators, the hooks that this package gives
  to the bundle loader, the confinement of includes to the directory of the root policy
  (\<open>src/internal/pathutil/pathutil.go\<close> expands the paths), and the writer of a policy. An error of a hook is
  named by the place that it is about. The keys of credentials come from the adapter manifests and
  are a parameter.
\<close>

section \<open>Paths\<close>

text \<open>
  The host: \<open>pe_user\<close> is the home directory of a user, \<open>pe_lstat\<close> whether a path exists and is a symbolic
  link, \<open>pe_stat\<close> whether it exists and is a regular file, \<open>pe_eval\<close> is \<open>filepath.EvalSymlinks\<close>.
\<close>

record path_env =
  pe_home :: "string option"
  pe_user :: "string \<Rightarrow> string option"
  pe_cwd :: "string option"
  pe_darwin :: bool
  pe_lstat :: "string \<Rightarrow> bool option"
  pe_stat :: "string \<Rightarrow> bool option"
  pe_eval :: "string \<Rightarrow> string option"

definition expandUserPath :: "path_env \<Rightarrow> string \<Rightarrow> bool \<Rightarrow> string option" where
  "expandUserPath env raw strict =
     (if raw = ''~'' then pe_home env
      else if HasPrefix raw ''~/'' then map_option (\<lambda>home. Join [home, drop 2 raw]) (pe_home env)
      else if \<not> HasPrefix raw ''~'' then Some raw
      else
        (let (userName, remainder) = (case cut SLASH (tl raw) of None \<Rightarrow> (tl raw, []) | Some (u, rest) \<Rightarrow> (u, rest)) in
         if userName = [] then pe_home env
         else case pe_user env userName of
           None \<Rightarrow> if strict then None else Some raw
         | Some home \<Rightarrow>
             if home = [] then (if strict then None else Some raw)
             else if remainder = [] then Some home else Some (Join [home, remainder])))"

definition ExpandUserPathStrictRequireNonEmpty :: "path_env \<Rightarrow> string \<Rightarrow> string option" where
  "ExpandUserPathStrictRequireNonEmpty env raw = (if raw = [] then None else expandUserPath env raw True)"

definition expandHostPath :: "path_env \<Rightarrow> string \<Rightarrow> string \<Rightarrow> string option" where
  "expandHostPath env raw base =
     (case ExpandUserPathStrictRequireNonEmpty env raw of
        None \<Rightarrow> None
      | Some expanded \<Rightarrow> filepath_Abs (pe_cwd env) (if IsAbs expanded then expanded else Join [base, expanded]))"

text \<open>\<open>filepath.Base\<close>: the last element, without trailing slashes.\<close>

definition Base :: "string \<Rightarrow> string" where
  "Base path =
     (if path = [] then ''.''
      else
        (let p = rev (dropWhile (\<lambda>c. c = SLASH) (rev path));
             b = rev (takeWhile (\<lambda>c. c \<noteq> SLASH) (rev p)) in
         if p = [] then ''/'' else b))"

text \<open>
  The loop of \<open>resolveAbsPath\<close> to the nearest ancestor that exists, with the elements below it; \<open>None\<close> when no
  ancestor exists. A path has fewer ancestors than bytes, so the length of the path is enough fuel.
\<close>

fun existing_ancestor :: "(string \<Rightarrow> bool) \<Rightarrow> nat \<Rightarrow> string \<Rightarrow> string list \<Rightarrow> (string \<times> string list) option" where
  "existing_ancestor exists 0 existing suff = None"
| "existing_ancestor exists (Suc fuel) existing suff =
     (if exists existing then Some (existing, suff)
      else if Dir existing = existing then None
      else existing_ancestor exists fuel (Dir existing) (Base existing # suff))"

definition resolveAbsPath :: "path_env \<Rightarrow> string \<Rightarrow> string option" where
  "resolveAbsPath env raw =
     (case ExpandUserPathStrictRequireNonEmpty env raw of
        None \<Rightarrow> None
      | Some expanded \<Rightarrow>
          (case (if IsAbs expanded then Some expanded else filepath_Abs (pe_cwd env) expanded) of
             None \<Rightarrow> None
           | Some path \<Rightarrow>
               (let clean = Clean path in
                if clean = ''/'' then Some clean
                else
                  (case existing_ancestor (\<lambda>p. pe_lstat env p \<noteq> None) (Suc (length clean)) clean [] of
                     None \<Rightarrow> Some clean
                   | Some (existing, suff) \<Rightarrow>
                       (case pe_eval env existing of
                          None \<Rightarrow> None
                        | Some resolved \<Rightarrow>
                            if suff = [] then Some (Clean resolved) else Some (Clean (Join (resolved # suff))))))))"

definition path_within :: "string \<Rightarrow> string \<Rightarrow> bool" where
  "path_within root candidate \<longleftrightarrow>
     (let rel = rel_abs root candidate in rel = ''.'' \<or> \<not> HasPrefix rel ''../'' \<and> rel \<noteq> ''..'')"

definition requirePathWithin :: "path_env \<Rightarrow> string \<Rightarrow> string \<Rightarrow> string \<Rightarrow> bundle_error option" where
  "requirePathWithin env root candidate label =
     (case (resolveAbsPath env root, resolveAbsPath env candidate) of
        (Some resolvedRoot, Some resolvedCandidate) \<Rightarrow>
          if path_within resolvedRoot resolvedCandidate then None else Some (HookError label)
      | _ \<Rightarrow> Some (HookError label))"

definition systemSymlinkAllowlist :: "bool \<Rightarrow> string list" where
  "systemSymlinkAllowlist darwin = (if darwin then [''/var'', ''/tmp''] else [])"

definition forbidden_link :: "path_env \<Rightarrow> string \<Rightarrow> bool" where
  "forbidden_link env p \<longleftrightarrow> pe_lstat env p = Some True \<and> p \<notin> set (systemSymlinkAllowlist (pe_darwin env))"

text \<open>The loop of \<open>requireNoSymlinkInPathChain\<close>; \<open>None\<close> is a loop that has not ended.\<close>

fun no_symlink_walk :: "(string \<Rightarrow> bool) \<Rightarrow> nat \<Rightarrow> string \<Rightarrow> bool option" where
  "no_symlink_walk bad 0 current = None"
| "no_symlink_walk bad (Suc fuel) current =
     (if bad current then Some False
      else if Dir current = current then Some True
      else no_symlink_walk bad fuel (Dir current))"

definition requireNoSymlinkInPathChain :: "path_env \<Rightarrow> string \<Rightarrow> string \<Rightarrow> bundle_error option" where
  "requireNoSymlinkInPathChain env path label =
     (if no_symlink_walk (forbidden_link env) (Suc (length (Clean path))) (Clean path) = Some True
      then None else Some (HookError label))"

definition validateSourcePath :: "path_env \<Rightarrow> tval \<Rightarrow> string \<Rightarrow> string \<Rightarrow> (bundle_error, string) result" where
  "validateSourcePath env raw label base =
     (case raw of
        TString rawString \<Rightarrow>
          (case (if rawString = [] then None else expandHostPath env rawString base) of
             None \<Rightarrow> Inl (HookError label)
           | Some source \<Rightarrow>
               if pe_stat env source = None then Inl (HookError label)
               else
                 (case requireNoSymlinkInPathChain env source label of
                    Some e \<Rightarrow> Inl e
                  | None \<Rightarrow> Inr source))
      | _ \<Rightarrow> Inl (HookError label))"

definition validatePolicyInclude ::
  "path_env \<Rightarrow> tval \<Rightarrow> string \<Rightarrow> string \<Rightarrow> string \<Rightarrow> (bundle_error, string) result" where
  "validatePolicyInclude env raw label base entrypointRoot =
     (case validateSourcePath env raw label base of
        Inl e \<Rightarrow> Inl e
      | Inr source \<Rightarrow>
          if pe_stat env source \<noteq> Some True then Inl (HookError label)
          else
            (case requirePathWithin env entrypointRoot source label of
               Some e \<Rightarrow> Inl e
             | None \<Rightarrow> Inr source))"

definition rebaseFragmentPath :: "path_env \<Rightarrow> tval \<Rightarrow> string \<Rightarrow> tval" where
  "rebaseFragmentPath env raw fragmentDir =
     (case raw of
        TString rawString \<Rightarrow>
          (case (if rawString = [] then None else expandHostPath env rawString fragmentDir) of
             None \<Rightarrow> raw
           | Some rebased \<Rightarrow> TString rebased)
      | _ \<Rightarrow> raw)"

section \<open>Validators\<close>

definition DocumentKeys :: "string list" where
  "DocumentKeys = [''common'', ''codex'', ''claude'', ''gemini'']"

definition validateAllowedKeys :: "table \<Rightarrow> string list \<Rightarrow> string \<Rightarrow> bundle_error option" where
  "validateAllowedKeys t allowedKeys label =
     (let unknown = unsupported_keys allowedKeys t in
      if unknown \<noteq> [] then Some (UnsupportedKeys label unknown) else None)"

definition validate_table :: "string \<Rightarrow> string list \<Rightarrow> table \<Rightarrow> bundle_error option" where
  "validate_table name allowedKeys policy =
     (case map_of policy name of
        None \<Rightarrow> None
      | Some (TTable t) \<Rightarrow> validateAllowedKeys t allowedKeys name
      | Some _ \<Rightarrow> Some (HookError name))"

definition validatePolicyDocuments :: "table \<Rightarrow> bundle_error option" where
  "validatePolicyDocuments policy = validate_table ''documents'' DocumentKeys policy"

definition validatePolicyCredentials :: "string list \<Rightarrow> table \<Rightarrow> bundle_error option" where
  "validatePolicyCredentials credentialKeys policy = validate_table ''credentials'' credentialKeys policy"

definition networkKeys :: "string list" where
  "networkKeys = [''allow_endpoints'', ''deny_endpoints'']"

fun valid_endpoints :: "tval list \<Rightarrow> bool" where
  "valid_endpoints [] = True"
| "valid_endpoints (item # items) =
     (case item of TString endpoint \<Rightarrow> ValidateEgressEndpoint endpoint = None \<and> valid_endpoints items | _ \<Rightarrow> False)"

fun validate_endpoints :: "table \<Rightarrow> string list \<Rightarrow> bundle_error option" where
  "validate_endpoints network [] = None"
| "validate_endpoints network (key # keys) =
     (case map_of network key of
        None \<Rightarrow> validate_endpoints network keys
      | Some (TArr items) \<Rightarrow>
          if valid_endpoints items then validate_endpoints network keys else Some (HookError (''network.'' @ key))
      | Some _ \<Rightarrow> Some (HookError (''network.'' @ key)))"

definition validatePolicyNetwork :: "table \<Rightarrow> bundle_error option" where
  "validatePolicyNetwork policy =
     (case map_of policy ''network'' of
        None \<Rightarrow> None
      | Some (TTable network) \<Rightarrow>
          (case validateAllowedKeys network networkKeys ''network'' of
             Some e \<Rightarrow> Some e
           | None \<Rightarrow> validate_endpoints network networkKeys)
      | Some _ \<Rightarrow> Some (HookError ''network''))"

definition validate_all :: "(table \<Rightarrow> bundle_error option) list \<Rightarrow> table \<Rightarrow> bundle_error option" where
  "validate_all checks policy =
     foldr (\<lambda>check rest. case check policy of Some e \<Rightarrow> Some e | None \<Rightarrow> rest) checks None"

definition parseTOMLSubset :: "string list \<Rightarrow> string \<Rightarrow> string \<Rightarrow> (bundle_error, table) result" where
  "parseTOMLSubset credentialKeys content policyPath =
     (case ParsePolicyTOML content policyPath credentialKeys of
        Inl e \<Rightarrow> Inl e
      | Inr root \<Rightarrow>
          (case validate_all [validatePolicyDocuments, validatePolicyCredentials credentialKeys, validatePolicyNetwork] root of
             Some e \<Rightarrow> Inl e
           | None \<Rightarrow> Inr root))"

section \<open>Loading\<close>

definition bundle_options :: "path_env \<Rightarrow> string list \<Rightarrow> LoadOptions" where
  "bundle_options env credentialKeys =
     \<lparr>opt_Parse = parseTOMLSubset credentialKeys, opt_ValidateInclude = validatePolicyInclude env,
      opt_ValidateMerged = Some (validate_all [validatePolicyCredentials credentialKeys, validatePolicyNetwork]),
      opt_RebasePath = rebaseFragmentPath env, opt_StrictVersion = False\<rparr>"

definition loadPolicyBundleWithReader ::
  "nat \<Rightarrow> path_env \<Rightarrow> string list \<Rightarrow> 'r reader \<Rightarrow> 'r \<Rightarrow> string \<Rightarrow>
   (bundle_error, table \<times> PolicySource list) result option" where
  "loadPolicyBundleWithReader fuel env credentialKeys read r policyPath =
     (case filepath_Abs (pe_cwd env) policyPath of
        None \<Rightarrow> Some (Inl (HookError policyPath))
      | Some resolved \<Rightarrow> LoadBundle fuel resolved (Dir resolved) read r (bundle_options env credentialKeys))"

definition loadPolicyBundle ::
  "nat \<Rightarrow> path_env \<Rightarrow> string list \<Rightarrow> (string \<Rightarrow> string) \<Rightarrow> 'n policy_fs \<Rightarrow> string \<Rightarrow>
   (bundle_error, table \<times> PolicySource list) result option" where
  "loadPolicyBundle fuel env credentialKeys H fs policyPath =
     loadPolicyBundleWithReader fuel env credentialKeys (Read H fs) NewBundleReader policyPath"

definition loadRawPolicy ::
  "string list \<Rightarrow> string option \<Rightarrow> bool \<Rightarrow> string \<Rightarrow> (bundle_error, table) result" where
  "loadRawPolicy credentialKeys content missing policyPath =
     (case content of
        None \<Rightarrow> if missing then Inr [(''version'', TInt 1)] else Inl (HookError policyPath)
      | Some bytes \<Rightarrow>
          (case parseTOMLSubset credentialKeys bytes policyPath of
             Inl e \<Rightarrow> Inl e
           | Inr loaded \<Rightarrow>
               (case validate_all [\<lambda>p. validateAllowedKeys p RootPolicyKeys ''root policy'',
                       validatePolicyCredentials credentialKeys, validatePolicyNetwork] loaded of
                  Some e \<Rightarrow> Inl e
                | None \<Rightarrow>
                    if fragment_version loaded \<noteq> 1 then Inl (UnsupportedVersion (TInt (fragment_version loaded)))
                    else Inr (if map_of loaded ''version'' = None then AList.update ''version'' (TInt 1) loaded else loaded))))"


section \<open>What the validators accept\<close>

lemma validateAllowedKeys_None: "validateAllowedKeys t keys label = None \<longleftrightarrow> fst ` set t \<subseteq> set keys"
proof -
  have "unsupported_keys keys t = [] \<longleftrightarrow> filter (\<lambda>k. k \<notin> set keys) (map fst t) = []"
    unfolding unsupported_keys_def by (metis length_0_conv length_sort_stable)
  then show ?thesis by (auto simp: validateAllowedKeys_def Let_def filter_empty_conv)
qed

lemma validate_table_None: "validate_table name keys p = None \<Longrightarrow> fst ` set (get_table p name) \<subseteq> set keys"
  by (auto simp: validate_table_def get_table_def validateAllowedKeys_None split: option.splits tval.splits)

definition endpoints :: "tval \<Rightarrow> bool" where
  "endpoints v \<longleftrightarrow> (\<exists>es. v = TArr (map TString es) \<and> list_all (\<lambda>e. ValidateEgressEndpoint e = None) es)"

lemma valid_endpoints_iff: "valid_endpoints items \<longleftrightarrow> endpoints (TArr items)"
proof (induction items rule: valid_endpoints.induct)
  case (2 item items)
  show ?case
  proof (cases item)
    case (TString e)
    have "(\<exists>es. TString e # items = map TString es \<and> list_all (\<lambda>e. ValidateEgressEndpoint e = None) es) \<longleftrightarrow>
        ValidateEgressEndpoint e = None \<and> (\<exists>es. items = map TString es \<and> list_all (\<lambda>e. ValidateEgressEndpoint e = None) es)"
      by (auto simp: Cons_eq_map_conv intro: exI [of _ "e # es" for es])
    then show ?thesis using 2 [OF TString] TString by (simp add: endpoints_def)
  qed (auto simp: endpoints_def)
qed (simp add: endpoints_def)

lemma validate_endpoints_None:
  "validate_endpoints network keys = None \<Longrightarrow> k \<in> set keys \<Longrightarrow> map_of network k = Some v \<Longrightarrow> endpoints v"
  by (induction network keys rule: validate_endpoints.induct)
    (auto simp: valid_endpoints_iff split: option.splits tval.splits if_splits)

lemma validatePolicyNetwork_None:
  assumes "validatePolicyNetwork p = None" "distinct (map fst (get_table p ''network''))"
    and "(k, v) \<in> set (get_table p ''network'')"
  shows "k \<in> set networkKeys \<and> endpoints v"
proof -
  obtain t where t: "map_of p ''network'' = Some (TTable t)" "get_table p ''network'' = t"
    using assms(3) by (cases "map_of p ''network''") (auto simp: get_table_def split: tval.splits)
  then have v: "validateAllowedKeys t networkKeys ''network'' = None" "validate_endpoints t networkKeys = None"
    using assms(1) by (auto simp: validatePolicyNetwork_def split: option.splits)
  then have "k \<in> set networkKeys" using assms(3) t by (auto simp: validateAllowedKeys_None)
  moreover have "map_of t k = Some v" using assms(2,3) t by simp
  ultimately show ?thesis using validate_endpoints_None [OF v(2)] by blast
qed

lemma validate_all_None: "validate_all checks p = None \<longleftrightarrow> list_all (\<lambda>check. check p = None) checks"
  unfolding validate_all_def by (induction checks) (auto split: option.splits)

lemma parseTOMLSubset_Inr:
  assumes "parseTOMLSubset keys content path = Inr t"
  shows "ParsePolicyTOML content path keys = Inr t" "validatePolicyDocuments t = None"
  using assms by (auto simp: parseTOMLSubset_def validate_all_None split: sum.splits option.splits)

lemma current_fragment_documents:
  "map fst (get_table (current_fragment opts nested path loaded) ''documents'') = map fst (get_table loaded ''documents'')"
  by (cases "map_of loaded ''documents''")
    (auto simp: current_fragment_def Let_def get_table_def map_of_rebase delete_conv' rebase_value_def split: tval.splits)

lemma bundle_options_distinct: "parse_distinct (bundle_options env keys)"
  by (rule parse_distinctI) (auto simp: bundle_options_def dest: parseTOMLSubset_Inr)

section \<open>Where a resolved path lies\<close>

text \<open>What the confinement relies on of the host: resolved paths of absolute paths are absolute, and so is the working directory.\<close>

definition host_absolute :: "path_env \<Rightarrow> bool" where
  "host_absolute env \<longleftrightarrow>
     (\<forall>wd. pe_cwd env = Some wd \<longrightarrow> IsAbs wd) \<and> (\<forall>p q. pe_eval env p = Some q \<longrightarrow> IsAbs p \<longrightarrow> IsAbs q)"

lemma IsAbs_Clean: "IsAbs p \<Longrightarrow> IsAbs (Clean p)"
  by (simp add: Clean_abs)

lemma IsAbs_Cons: "IsAbs p \<longleftrightarrow> (\<exists>q. p = SLASH # q)"
  by (cases p) (auto simp: IsAbs_def)

lemma IsAbs_Dir: "IsAbs p \<Longrightarrow> IsAbs (Dir p)"
proof -
  assume "IsAbs p"
  then obtain q where "p = SLASH # q" by (auto simp: IsAbs_Cons)
  moreover have "\<exists>w. dropWhile (\<lambda>c. c \<noteq> SLASH) (u @ [SLASH]) = w @ [SLASH]" for u
    by (induction u) auto
  then obtain w where "dropWhile (\<lambda>c. c \<noteq> SLASH) (rev q @ [SLASH]) = w @ [SLASH]" by blast
  ultimately have "IsAbs (upto_slash p)" by (simp add: upto_slash_def IsAbs_Cons)
  then show ?thesis by (simp add: Dir_def IsAbs_Clean)
qed

lemma IsAbs_Join: "IsAbs p \<Longrightarrow> IsAbs (Join (p # ps))"
proof -
  assume "IsAbs p"
  then have "p \<noteq> []" "IsAbs (join ''/'' (p # qs))" for qs
    by (auto simp: IsAbs_Cons) (cases qs; auto)
  then show ?thesis by (simp add: Join_def Let_def IsAbs_Clean)
qed

lemma IsAbs_filepath_Abs: "host_absolute env \<Longrightarrow> filepath_Abs (pe_cwd env) p = Some q \<Longrightarrow> IsAbs q"
  by (auto simp: filepath_Abs_def host_absolute_def IsAbs_Clean IsAbs_Join split: if_splits)

lemma IsAbs_existing_ancestor:
  "existing_ancestor ex fuel p suff = Some (q, suff') \<Longrightarrow> IsAbs p \<Longrightarrow> IsAbs q"
  by (induction ex fuel p suff rule: existing_ancestor.induct) (auto simp: IsAbs_Dir split: if_splits)

lemma IsAbs_resolveAbsPath:
  assumes "host_absolute env" "resolveAbsPath env raw = Some p"
  shows "IsAbs p"
proof -
  obtain e path where path: "(if IsAbs e then Some e else filepath_Abs (pe_cwd env) e) = Some path"
    "ExpandUserPathStrictRequireNonEmpty env raw = Some e"
    using assms(2) by (auto simp: resolveAbsPath_def Let_def split: option.splits if_splits)
  then have "IsAbs path" using IsAbs_filepath_Abs [OF assms(1)] by (auto split: if_splits)
  then have c: "IsAbs (Clean path)" by (rule IsAbs_Clean)
  have ev: "IsAbs q" if "existing_ancestor ex fuel (Clean path) suff = Some (a, suff')" "pe_eval env a = Some q"
    for ex fuel suff a suff' q
    using IsAbs_existing_ancestor [OF that(1) c] that(2) assms(1) by (auto simp: host_absolute_def)
  from assms(2) path c show ?thesis
    by (auto simp: resolveAbsPath_def Let_def simp del: existing_ancestor.simps
        split: option.splits if_splits prod.splits intro!: IsAbs_Clean IsAbs_Join dest: ev)
qed

text \<open>The walk to the root visits exactly the path and its ancestors.\<close>

lemma no_symlink_walk_ancestors:
  assumes "list_all plain es" "length es < fuel"
  shows "no_symlink_walk bad fuel (of_elems True es) = Some (\<forall>n \<le> length es. \<not> bad (of_elems True (take n es)))"
  using assms
proof (induction es arbitrary: fuel rule: rev_induct)
  case Nil
  then show ?case by (cases fuel) (auto simp: Dir_root)
next
  case (snoc e es)
  then obtain n where n: "fuel = Suc n" "length es < n" by (cases fuel) auto
  have "Dir (of_elems True (es @ [e])) = of_elems True es" "of_elems True es \<noteq> of_elems True (es @ [e])"
    using Dir_of_elems of_elems_neq snoc.prems(1) by blast+
  moreover have "no_symlink_walk bad n (of_elems True es) = Some (\<forall>k \<le> length es. \<not> bad (of_elems True (take k es)))"
    using snoc n by simp
  ultimately show ?case using n(1) by (auto simp: le_Suc_eq)
qed

lemma length_elems: "list_all plain es \<Longrightarrow> length es < Suc (length (of_elems True es))"
proof (induction es rule: rev_induct)
  case (snoc e es)
  then show ?case by (cases "es = []") (simp add: of_elems_def, simp add: of_elems_snoc)
qed simp

lemma requireNoSymlinkInPathChain_None:
  assumes "IsAbs p"
  shows "requireNoSymlinkInPathChain env p label = None \<longleftrightarrow>
    (\<forall>n \<le> length (elems p). \<not> forbidden_link env (of_elems True (take n (elems p))))"
  using no_symlink_walk_ancestors [OF elems_plain [OF assms] length_elems [OF elems_plain [OF assms]]]
  by (simp add: requireNoSymlinkInPathChain_def Clean_abs [OF assms])

text \<open>
  A path is confined to a directory: it is a regular file, neither it nor an ancestor is a forbidden link, and
  with all links resolved it lies below the directory.
\<close>

definition confined :: "path_env \<Rightarrow> string \<Rightarrow> string \<Rightarrow> bool" where
  "confined env dir p \<longleftrightarrow>
     IsAbs p \<and> pe_stat env p = Some True \<and>
     (\<forall>n \<le> length (elems p). \<not> forbidden_link env (of_elems True (take n (elems p)))) \<and>
     (\<exists>r c. resolveAbsPath env dir = Some r \<and> resolveAbsPath env p = Some c \<and> prefix (elems r) (elems c))"

lemma validatePolicyInclude_confined:
  assumes "validatePolicyInclude env raw label base root = Inr p" "host_absolute env"
  shows "confined env root p"
proof -
  from assms(1) obtain s where s: "raw = TString s" "expandHostPath env s base = Some p" "pe_stat env p = Some True"
      "requireNoSymlinkInPathChain env p label = None" "requirePathWithin env root p label = None"
    by (auto simp: validatePolicyInclude_def validateSourcePath_def split: sum.splits tval.splits option.splits if_splits)
  have a: "IsAbs p"
    using s(2) IsAbs_filepath_Abs [OF assms(2)] by (auto simp: expandHostPath_def split: option.splits)
  obtain r c where rc: "resolveAbsPath env root = Some r" "resolveAbsPath env p = Some c" "path_within r c"
    using s(5) by (auto simp: requirePathWithin_def split: option.splits if_splits)
  then have "prefix (elems r) (elems c)"
    using rel_abs_within [of r c] IsAbs_resolveAbsPath [OF assms(2)] by (auto simp: path_within_def Let_def)
  then show ?thesis
    using rc a s(3,4) requireNoSymlinkInPathChain_None [OF a] unfolding confined_def by blast
qed

section \<open>Properties\<close>

text \<open>
  C37: a policy bundle that loads is well typed. It has version 1, its other entries are tables without a
  repeated key and the array \<open>copies\<close>; \<open>documents\<close> has only the keys of documents, \<open>credentials\<close> only the known
  credential keys, and \<open>network\<close> only its two keys, each with an array of strings that are all valid egress
  endpoints.
\<close>

theorem loadPolicyBundle_typed:
  assumes "loadPolicyBundleWithReader fuel env keys read r policyPath = Some (Inr (m, sources))"
  shows "policy_typed m \<and> fst ` set (get_table m ''documents'') \<subseteq> set DocumentKeys \<and>
    fst ` set (get_table m ''credentials'') \<subseteq> set keys \<and>
    list_all (\<lambda>(k, v). k \<in> set networkKeys \<and> endpoints v) (get_table m ''network'')"
proof -
  let ?opts = "bundle_options env keys"
  obtain path where load: "LoadBundle fuel path (Dir path) read r ?opts = Some (Inr (m, sources))"
    using assms by (auto simp: loadPolicyBundleWithReader_def split: option.splits)
  obtain ps where ps: "list_all2 (source_ok ?opts read (Dir path)) ps sources" "policy_typed m"
      "settings_of m (fragments ?opts (\<lambda>p. p \<noteq> path) ps sources)"
    using LoadBundle_flat(1) [OF load bundle_options_distinct] by blast
  have v: "validatePolicyCredentials keys m = None" "validatePolicyNetwork m = None"
    using LoadBundle_flat(2) [OF load bundle_options_distinct] by (simp_all add: bundle_options_def validate_all_None)
  have "fst ` set (get_table f ''documents'') \<subseteq> set DocumentKeys"
    if f_in: "f \<in> set (fragments ?opts (\<lambda>p. p \<noteq> path) ps sources)" for f
  proof -
    obtain p s where f: "f = current_fragment ?opts (p \<noteq> path) p (src_Fragment s)" "(p, s) \<in> set (zip ps sources)"
      using f_in by (auto simp: fragments_def)
    then have "source_ok ?opts read (Dir path) p s" using ps(1) by (auto simp: list_all2_iff)
    then have "validatePolicyDocuments (src_Fragment s) = None"
      by (auto simp: source_ok_def bundle_options_def dest: parseTOMLSubset_Inr)
    then have "fst ` set (get_table (src_Fragment s) ''documents'') \<subseteq> set DocumentKeys"
      by (simp add: validatePolicyDocuments_def validate_table_None)
    then show ?thesis unfolding f(1) by (metis current_fragment_documents list.set_map)
  qed
  then have "fst ` set (get_table m ''documents'') \<subseteq> set DocumentKeys"
    using ps(3) by (simp add: settings_of_def merged_tables_def image_UN UN_subset_iff)
  moreover have "fst ` set (get_table m ''credentials'') \<subseteq> set keys"
    using v(1) by (simp add: validatePolicyCredentials_def validate_table_None)
  ultimately show ?thesis
    using ps(2) validatePolicyNetwork_None [OF v(2) policy_typed_table [OF ps(2)]] by (auto simp: list_all_iff)
qed

text \<open>
  C34: includes are confined to the directory of the root policy. On a host whose working directory and resolved paths are
  absolute, each file of a loaded bundle other than the root is an absolute path to a regular file, it resolves to a path below the
  resolved directory of the root policy, and no symbolic link is on it or above it except, on macOS, the system links \<open>/var\<close>
  and \<open>/tmp\<close> that the code allows.
\<close>

theorem includes_confined:
  assumes "loadPolicyBundleWithReader fuel env keys read r policyPath = Some (Inr (m, sources))"
    and "host_absolute env"
  shows "\<exists>path ps. filepath_Abs (pe_cwd env) policyPath = Some path \<and> last ps = path \<and>
    list_all2 (source_ok (bundle_options env keys) read (Dir path)) ps sources \<and>
    list_all (confined env (Dir path)) (butlast ps)"
proof -
  let ?opts = "bundle_options env keys"
  obtain path where path: "filepath_Abs (pe_cwd env) policyPath = Some path"
    and load: "LoadBundle fuel path (Dir path) read r ?opts = Some (Inr (m, sources))"
    using assms(1) by (auto simp: loadPolicyBundleWithReader_def split: option.splits)
  obtain ps where ps: "list_all2 (source_ok ?opts read (Dir path)) ps sources" "last ps = path"
      "list_all (included ?opts (Dir path)) (butlast ps)"
    using LoadBundle_flat(1) [OF load bundle_options_distinct] by blast
  have "confined env (Dir path) p" if inc: "included ?opts (Dir path) p" for p
    using inc validatePolicyInclude_confined [OF _ assms(2)] by (auto simp: included_def bundle_options_def)
  then have "list_all (confined env (Dir path)) (butlast ps)"
    using list.pred_mono_strong [OF ps(3)] by blast
  then show ?thesis using path ps(1,2) by blast
qed

text \<open>A host with a policy that includes one file, both read from a map.\<close>

definition sample_host :: path_env where
  "sample_host =
     \<lparr>pe_home = Some ''/h'', pe_user = (\<lambda>_. None), pe_cwd = Some ''/p'', pe_darwin = False,
      pe_lstat = (\<lambda>p. if p \<in> set [''/'', ''/p'', ''/p/root.toml'', ''/p/inc.toml''] then Some False else None),
      pe_stat = (\<lambda>p. if p \<in> set [''/p/root.toml'', ''/p/inc.toml''] then Some True else None),
      pe_eval = (\<lambda>p. Some p)\<rparr>"

definition sample_bundle :: "table \<times> PolicySource list" where
  "sample_bundle =
     ([(''version'', TInt 1), (''documents'', TTable [(''codex'', TInt 1)]),
       (''copies'', TArr [TTable [(''source'', TInt 2)]]), (''ssh'', TTable [(''enabled'', TBool True)])], sample_sources)"

lemma sample_bundle_loads:
  "loadPolicyBundleWithReader 3 sample_host [] sample_read () ''root.toml'' = Some (Inr sample_bundle)"
  by code_simp

text \<open>A policy with a document, a credential table and an allowed endpoint.\<close>

definition net_read :: "unit reader" where
  "net_read u p =
     (Inr \<lparr>pf_Bytes = ''[documents]'' @ [NL] @ ''codex = 1'' @ [NL] @ ''[network]'' @ [NL] @
        ''allow_endpoints = ['' @ [DQUOTE] @ ''a.io:443'' @ [DQUOTE] @ '']'' @ [NL] @
        ''[credentials.key]'' @ [NL] @ ''source = 2'', pf_Sha256 = []\<rparr>, u)"

definition net_fragment :: table where
  "net_fragment =
     [(''documents'', TTable [(''codex'', TInt 1)]),
      (''network'', TTable [(''allow_endpoints'', TArr [TString ''a.io:443''])]),
      (''credentials'', TTable [(''key'', TTable [(''source'', TInt 2)])])]"

definition net_policy :: table where
  "net_policy =
     [(''version'', TInt 1), (''documents'', TTable [(''codex'', TInt 1)]),
      (''credentials'', TTable [(''key'', TTable [(''source'', TInt 2)])]),
      (''network'', TTable [(''allow_endpoints'', TArr [TString ''a.io:443''])])]"

theorem loadPolicyBundle_typed_witness:
  "policy_typed net_policy \<and> fst ` set (get_table net_policy ''documents'') \<subseteq> set DocumentKeys \<and>
    fst ` set (get_table net_policy ''credentials'') \<subseteq> set [''key''] \<and>
    list_all (\<lambda>(k, v). k \<in> set networkKeys \<and> endpoints v) (get_table net_policy ''network'')"
proof (rule loadPolicyBundle_typed)
  show "loadPolicyBundleWithReader 3 sample_host [''key''] net_read () ''root.toml'' =
      Some (Inr (net_policy, [\<lparr>src_Path = ''root.toml'', src_Sha256 = [], src_Fragment = net_fragment\<rparr>]))"
    by code_simp
qed

theorem includes_confined_witness:
  "\<exists>path ps. filepath_Abs (pe_cwd sample_host) ''root.toml'' = Some path \<and> last ps = path \<and>
    list_all2 (source_ok (bundle_options sample_host []) sample_read (Dir path)) ps (snd sample_bundle) \<and>
    list_all (confined sample_host (Dir path)) (butlast ps)"
proof (rule includes_confined)
  show "loadPolicyBundleWithReader 3 sample_host [] sample_read () ''root.toml'' =
      Some (Inr (fst sample_bundle, snd sample_bundle))"
    by (simp add: sample_bundle_loads)
  show "host_absolute sample_host" by (simp add: host_absolute_def sample_host_def IsAbs_def)
qed

end
