(* ===== verification/Policy_Render.thy ===== *)
theory Policy_Render
  imports Policy_File
begin

text \<open>
  The writer of policy files, \<open>renderPolicyTOML\<close> of \<open>src/internal/authpolicy/policy.go\<close>: the file is a list
  of sections, each with a header and entries whose keys have a fixed order. The lemmas follow the
  lines of such a file through the parser: a line of an entry, a section of a document, a \<open>[[copies]]\<close> block,
  a whole file. \<open>Policy_Writer\<close> puts them together to the round trip.
\<close>

section \<open>The writer\<close>

datatype writer_error = InvalidPolicy bundle_error | Unrenderable render_error | CopiesEntry

definition render_entry :: "string \<times> tval \<Rightarrow> (writer_error, string) result" where
  "render_entry e =
     (case e of (key, v) \<Rightarrow>
        (case renderTOMLValue v of Inl err \<Rightarrow> Inl (Unrenderable err) | Inr rendered \<Rightarrow> Inr (key @ '' = '' @ rendered)))"

definition sortedKeys :: "table \<Rightarrow> string list" where
  "sortedKeys t = sort_stable (<) (map fst t)"

definition lookup_entries :: "string list \<Rightarrow> table \<Rightarrow> table" where
  "lookup_entries ks t = concat (map (\<lambda>k. case map_of t k of None \<Rightarrow> [] | Some v \<Rightarrow> [(k, v)]) ks)"

definition ordered_entries :: "string list \<Rightarrow> table \<Rightarrow> table" where
  "ordered_entries ordered t =
     (let extras = sort_stable (<) (filter (\<lambda>k. k \<notin> set ordered) (map fst t)) in lookup_entries (ordered @ extras) t)"

type_synonym toml_section = "string \<times> table"

definition render_section :: "toml_section \<Rightarrow> (writer_error, string list) result" where
  "render_section s =
     (case s of (header, entries) \<Rightarrow>
        (case collect (map render_entry entries) of Inl e \<Rightarrow> Inl e | Inr lines \<Rightarrow> Inr ([] # header # lines)))"

definition head_entries :: "table \<Rightarrow> table" where
  "head_entries policy =
     (let includes = get_array policy ''includes'' in
      (''version'', TInt (fragment_version policy)) # (if includes = [] then [] else [(''includes'', TArr includes)]))"

definition document_sections :: "table \<Rightarrow> toml_section list" where
  "document_sections policy =
     (let documents = get_table policy ''documents'' in
      if documents = [] then [] else [(''[documents]'', lookup_entries DocumentKeys documents)])"

fun is_table :: "tval \<Rightarrow> bool" where
  "is_table (TTable t) = True"
| "is_table _ = False"

definition scalar_entries :: "table \<Rightarrow> table" where
  "scalar_entries credentials = filter (\<lambda>(k, v). \<not> is_table v) credentials"

definition credential_tables :: "table \<Rightarrow> (string \<times> table) list" where
  "credential_tables credentials =
     concat (map (\<lambda>(k, v). case v of TTable t \<Rightarrow> [(k, lookup_entries (sortedKeys t) t)] | _ \<Rightarrow> [])
       (lookup_entries (sortedKeys credentials) credentials))"

definition credential_sections :: "table \<Rightarrow> toml_section list" where
  "credential_sections policy =
     (let credentials = get_table policy ''credentials''; scalars = scalar_entries credentials in
      (if scalars = [] then [] else [(''[credentials]'', lookup_entries (sortedKeys scalars) scalars)]) @
      map (\<lambda>(k, t). (''[credentials.'' @ k @ '']'', t)) (credential_tables credentials))"

definition ssh_order :: "string list" where
  "ssh_order =
     [''enabled'', ''config'', ''known_hosts'', ''identities'', ''providers'', ''modes'', ''allow_unsafe_config'']"

definition ssh_sections :: "table \<Rightarrow> toml_section list" where
  "ssh_sections policy =
     (let ssh = get_table policy ''ssh'' in if ssh = [] then [] else [(''[ssh]'', ordered_entries ssh_order ssh)])"

definition copies_order :: "string list" where
  "copies_order = [''source'', ''target'', ''classification'', ''providers'', ''modes'']"

fun copies_section :: "tval \<Rightarrow> (writer_error, toml_section) result" where
  "copies_section (TTable entry) = Inr (''[[copies]]'', ordered_entries copies_order entry)"
| "copies_section _ = Inl CopiesEntry"

definition network_sections :: "table \<Rightarrow> toml_section list" where
  "network_sections policy =
     (let network = get_table policy ''network'' in
      if network = [] then [] else [(''[network]'', ordered_entries networkKeys network)])"

definition policy_sections :: "table \<Rightarrow> (writer_error, toml_section) result list" where
  "policy_sections policy =
     map Inr (document_sections policy @ credential_sections policy @ ssh_sections policy) @
     map copies_section (get_array policy ''copies'') @ map Inr (network_sections policy)"

definition policy_lines :: "table \<Rightarrow> (writer_error, string list) result" where
  "policy_lines policy =
     (case collect (map render_entry (head_entries policy)) of
        Inl e \<Rightarrow> Inl e
      | Inr heading \<Rightarrow>
          (case collect (map (\<lambda>s. case s of Inl e \<Rightarrow> Inl e | Inr s' \<Rightarrow> render_section s') (policy_sections policy)) of
             Inl e \<Rightarrow> Inl e
           | Inr sections \<Rightarrow> Inr (heading @ concat sections)))"

definition renderPolicyTOML :: "string list \<Rightarrow> table \<Rightarrow> (writer_error, string) result" where
  "renderPolicyTOML credentialKeys policy =
     (case validate_all [validatePolicyDocuments, validatePolicyCredentials credentialKeys, validatePolicyNetwork] policy of
        Some e \<Rightarrow> Inl (InvalidPolicy e)
      | None \<Rightarrow>
          (case policy_lines policy of
             Inl e \<Rightarrow> Inl e
           | Inr lines \<Rightarrow> Inr (join [NL] lines @ [NL])))"

section \<open>Writable policies\<close>

text \<open>
  Keys of letters, digits, \<open>_\<close> and \<open>-\<close>; the writer does not quote keys. The known keys of credentials and of
  the root are of this kind.
\<close>

definition bare_char :: "char \<Rightarrow> bool" where
  "bare_char c \<longleftrightarrow>
     is_digit c \<or> 65 \<le> byte c \<and> byte c \<le> 90 \<or> 97 \<le> byte c \<and> byte c \<le> 122 \<or> c = CHR ''_'' \<or> c = CHR ''-''"

definition bare :: "string \<Rightarrow> bool" where
  "bare k \<longleftrightarrow> k \<noteq> [] \<and> list_all bare_char k"

definition entry_ok :: "string \<times> tval \<Rightarrow> bool" where
  "entry_ok e = (case e of (k, v) \<Rightarrow> bare k \<and> renderable v)"

definition entries_ok :: "table \<Rightarrow> bool" where
  "entries_ok t \<longleftrightarrow> distinct (map fst t) \<and> list_all entry_ok t"

definition credential_ok :: "string \<times> tval \<Rightarrow> bool" where
  "credential_ok e = (case e of (k, v) \<Rightarrow> bare k \<and> (case v of TTable t \<Rightarrow> entries_ok t | _ \<Rightarrow> renderable v))"

fun copy_ok :: "tval \<Rightarrow> bool" where
  "copy_ok (TTable t) = entries_ok t"
| "copy_ok _ = False"

definition root_entry_ok :: "string \<times> tval \<Rightarrow> bool" where
  "root_entry_ok e =
     (case e of (k, v) \<Rightarrow>
        (case v of
           TInt i \<Rightarrow> k = ''version'' \<and> renderable v
         | TArr vs \<Rightarrow> if k = ''copies'' then list_all copy_ok vs else k = ''includes'' \<and> renderable v
         | TTable t \<Rightarrow>
             if k = ''credentials'' then distinct (map fst t) \<and> list_all credential_ok t
             else k \<in> set [''documents'', ''ssh'', ''network''] \<and> entries_ok t
         | _ \<Rightarrow> False))"

definition writable :: "table \<Rightarrow> bool" where
  "writable p \<longleftrightarrow> distinct (map fst p) \<and> map_of p ''version'' = Some (TInt 1) \<and> list_all root_entry_ok p"

text \<open>Equality of Go maps, nested maps included: the order of the entries does not matter.\<close>

inductive same_value :: "tval \<Rightarrow> tval \<Rightarrow> bool" where
  same_refl: "same_value v v"
| same_array: "list_all2 same_value vs ws \<Longrightarrow> same_value (TArr vs) (TArr ws)"
| same_table:
    "mset t' = mset t \<Longrightarrow> list_all2 (\<lambda>a b. fst a = fst b \<and> same_value (snd a) (snd b)) t' u \<Longrightarrow>
     same_value (TTable t) (TTable u)"
  monos list_all2_mono

text \<open>The sections that the writer leaves out are the empty ones.\<close>

definition live :: "table \<Rightarrow> table" where
  "live p = filter (\<lambda>(k, v). v \<noteq> TTable [] \<and> v \<noteq> TArr []) p"

section \<open>One line\<close>

lemma bare_char_facts:
  assumes "bare_char c"
  shows "graphic c" "c \<noteq> CHR ''=''" "c \<noteq> CHR ''.''" "c \<noteq> CHR ''#''" "c \<noteq> DQUOTE" "c \<noteq> SQUOTE" "c \<noteq> BSLASH"
    "c \<noteq> CHR ''[''" "c \<noteq> CHR '']''" "c \<noteq> NL" "c \<noteq> CHR '' ''"
  using assms by (auto simp: bare_char_def is_digit_def graphic_def)

lemma bare_facts:
  assumes "bare k"
  shows "list_all graphic k" "CHR ''='' \<notin> set k" "CHR ''.'' \<notin> set k" "NL \<notin> set k" "CHR '' '' \<notin> set k"
    "\<not> HasPrefix (k @ s) ''[''" "list_all (\<lambda>c. c \<noteq> BSLASH \<and> c \<noteq> SQUOTE \<and> c \<noteq> DQUOTE \<and> c \<noteq> CHR ''#'') k" "k \<noteq> []"
proof -
  have *: "c \<in> set k \<Longrightarrow> bare_char c" for c using assms by (auto simp: bare_def list_all_iff)
  note b = bare_char_facts [OF *]
  show "list_all graphic k" "list_all (\<lambda>c. c \<noteq> BSLASH \<and> c \<noteq> SQUOTE \<and> c \<noteq> DQUOTE \<and> c \<noteq> CHR ''#'') k"
    using b(1,4-7) by (auto simp: list_all_iff)
  show "CHR ''='' \<notin> set k" "CHR ''.'' \<notin> set k" "NL \<notin> set k" "CHR '' '' \<notin> set k"
    using b(2,3,10,11) by blast+
  show "k \<noteq> []" using assms by (simp add: bare_def)
  then show "\<not> HasPrefix (k @ s) ''[''" using * [of "hd k"] bare_char_facts(8) by (cases k) auto
qed

text \<open>What the parsers do with a rendered value: nothing is cut off and no branch for other syntax is taken.\<close>

definition passes :: "string \<Rightarrow> bool" where
  "passes s \<longleftrightarrow>
     s \<noteq> [] \<and> graphic (hd s) \<and> graphic (last s) \<and> NL \<notin> set s \<and> strip_aux False None s = s \<and>
     (HasPrefix s ''['' \<longrightarrow> ArrayClosed ('' '' @ s)) \<and> (\<forall>c. rejectUnsupportedValue c s = None)"

lemma escape_NL: "NL \<notin> set (escape s)"
  by (induction s) (auto simp: esc_def)

lemma passes_jsonQuote: "passes (jsonQuote s)"
proof -
  have "\<not> HasPrefix (jsonQuote s) [DQUOTE, DQUOTE, DQUOTE]"
    by (cases s) (auto simp: jsonQuote_escape esc_def)
  then show ?thesis using strip_quoted [of s "[]"] escape_NL [of s]
    by (auto simp: passes_def jsonQuote_escape rejectUnsupportedValue_def looksLikeDatetime_def)
qed

lemma closed_items:
  "closed_aux False None d (join '', '' (map jsonQuote ss) @ t) = closed_aux False None d t"
proof (induction ss rule: induct_list012)
  case (2 s)
  then show ?case by (simp add: closed_quoted)
next
  case (3 s s' ss)
  then show ?case by (simp add: closed_quoted)
qed simp

lemma join_set: "c \<in> set (join sep ws) \<Longrightarrow> c \<in> set sep \<or> (\<exists>w \<in> set ws. c \<in> set w)"
  by (induction sep ws rule: join.induct) auto

lemma passes_items: "passes (''['' @ join '', '' (map jsonQuote ss) @ '']'')"
proof -
  have "NL \<notin> set (jsonQuote s)" for s using passes_jsonQuote by (simp add: passes_def)
  then have "NL \<notin> set (join '', '' (map jsonQuote ss))" using join_set [of NL "'', ''" "map jsonQuote ss"] by auto
  then show ?thesis using strip_items [of ss "'']''"] closed_items [of 1 ss "'']''"]
    by (simp add: passes_def rejectUnsupportedValue_def looksLikeDatetime_def ArrayClosed_def)
qed

lemma passes_Itoa: "passes (Itoa i)"
proof -
  have d: "list_all is_digit (dec n)" for n by (rule dec_digits)
  have g: "is_digit c \<Longrightarrow> graphic c \<and> c \<noteq> DQUOTE \<and> c \<noteq> SQUOTE \<and> c \<noteq> CHR ''['' \<and> c \<noteq> CHR ''{'' \<and> c \<noteq> NL \<and>
      c \<noteq> BSLASH \<and> c \<noteq> CHR ''#'' \<and> c \<noteq> CHR ''-'' \<and> c \<noteq> CHR '':''" for c
    using is_digit_graphic by (auto simp: is_digit_def)
  obtain a t where i: "Itoa i = a # t" "a = CHR ''-'' \<or> is_digit a" "list_all is_digit t"
    using d [of "nat i"] d [of "nat (- i)"] dec_neq [of "nat i"]
    by (cases "i < 0"; cases "dec (nat i)") (auto simp: Itoa_def)
  have all: "list_all (\<lambda>c. c \<noteq> BSLASH \<and> c \<noteq> SQUOTE \<and> c \<noteq> DQUOTE \<and> c \<noteq> CHR ''#'') (Itoa i)"
    using i g by (auto simp: list_all_iff)
  have "\<not> looksLikeDatetime (Itoa i)"
  proof
    assume "looksLikeDatetime (Itoa i)"
    then consider "10 \<le> length (Itoa i)" "Itoa i ! 4 = CHR ''-''" | "8 \<le> length (Itoa i)" "Itoa i ! 2 = CHR '':''"
      by (auto simp: looksLikeDatetime_def)
    then show False
    proof cases
      case 1
      have "is_digit (t ! 3)" using i(1,3) 1(1) by (simp add: list_all_length)
      then show False using 1 g [of "t ! 3"] i(1) by simp
    next
      case 2
      have "is_digit (t ! 1)" using i(1,3) 2(1) by (simp add: list_all_length)
      then show False using 2 g [of "t ! 1"] i(1) by simp
    qed
  qed
  moreover have "strip_aux False None (Itoa i) = Itoa i" using strip_plain [OF all, of "[]"] by simp
  moreover have gr: "list_all graphic (Itoa i)"
    using i(2,3) is_digit_graphic graphic_marks(4) unfolding i(1) by (auto simp: list_all_iff)
  moreover have "graphic (last (Itoa i))"
    using gr i(1) last_in_set [of "Itoa i"] unfolding list_all_iff by (metis list.distinct(1))
  moreover have "NL \<notin> set (Itoa i)" using gr by (auto simp: list_all_iff graphic_def)
  moreover have "a \<noteq> DQUOTE \<and> a \<noteq> SQUOTE \<and> a \<noteq> CHR ''['' \<and> a \<noteq> CHR ''{''" using i(2) g [of a] by auto
  ultimately show ?thesis using i(1) by (auto simp: passes_def rejectUnsupportedValue_def)
qed

lemma passes_rendered:
  assumes "renderable v"
  shows "\<exists>s. renderTOMLValue v = Inr s \<and> passes s \<and> (\<forall>c. ParseValue s c = Inr v)"
proof (cases v)
  case (TArr vs)
  with assms obtain ss where "vs = map TString ss" "list_all ValidString ss"
    "string_items vs = Inr (map jsonQuote ss)"
    using string_items_strings by auto
  with TArr show ?thesis using ParseValue_array passes_items by simp
next
  case (TBool b)
  have "passes ''true'' \<and> passes ''false''"
    by (simp add: passes_def rejectUnsupportedValue_def looksLikeDatetime_def graphic_def)
  moreover have "TrimSpace ''true'' = ''true''" "TrimSpace ''false'' = ''false''" by code_simp+
  ultimately show ?thesis using TBool by (simp add: ParseValue.simps)
qed (use assms in \<open>simp_all add: ParseValue_jsonQuote ParseValue_Itoa passes_jsonQuote passes_Itoa\<close>)

text \<open>The line of an entry, and what both parsers make of it.\<close>

definition entry_text :: "string \<times> tval \<Rightarrow> string" where
  "entry_text e = (case e of (k, v) \<Rightarrow> k @ '' = '' @ (case renderTOMLValue v of Inr s \<Rightarrow> s | Inl _ \<Rightarrow> []))"

definition entry_raw :: "string \<times> tval \<Rightarrow> string" where
  "entry_raw e = '' '' @ (case renderTOMLValue (snd e) of Inr s \<Rightarrow> s | Inl _ \<Rightarrow> [])"

lemma TrimSpace_pad: "s \<noteq> [] \<Longrightarrow> graphic (hd s) \<Longrightarrow> graphic (last s) \<Longrightarrow> TrimSpace ('' '' @ s) = s"
proof -
  assume s: "s \<noteq> []" "graphic (hd s)" "graphic (last s)"
  have "TrimSpace ('' '' @ s) = TrimSpace s" by (simp add: TrimSpace_def ascii_space_def)
  then show ?thesis using TrimSpace_id [of s] s by simp
qed

lemma ParseValue_pad: "ParseValue ('' '' @ s) c = ParseValue s c"
  by (subst (1 2) ParseValue.simps) (simp add: TrimSpace_def ascii_space_def)

lemma Contains_char: "Contains s [c] \<longleftrightarrow> c \<in> set s"
  unfolding Contains_def by (induction s) auto

lemma entry_line:
  assumes "entry_ok (k, v)"
  shows "render_entry (k, v) = Inr (entry_text (k, v))" "StripComment (entry_text (k, v)) = entry_text (k, v)"
    "entry_text (k, v) \<noteq> []" "\<not> HasPrefix (entry_text (k, v)) ''[''" "NL \<notin> set (entry_text (k, v))"
    "cut CHR ''='' (entry_text (k, v)) = Some (k @ '' '', entry_raw (k, v))" "TrimSpace (k @ '' '') = k" "\<not> Contains k ''.''"
    "rejectUnsupportedValue c (TrimSpace (entry_raw (k, v))) = None"
    "value_text c (entry_raw (k, v)) ls = Inr (entry_raw (k, v), 0, ls)" "ParseValue (entry_raw (k, v)) c = Inr v"
proof -
  have k: "bare k" and "renderable v" using assms by (auto simp: entry_ok_def)
  then obtain s where s: "renderTOMLValue v = Inr s" "passes s" "\<And>c. ParseValue s c = Inr v"
    using passes_rendered by blast
  note b = bare_facts [OF k] and p = s(2) [unfolded passes_def]
  have t: "entry_text (k, v) = k @ '' = '' @ s" "entry_raw (k, v) = '' '' @ s"
    using s(1) by (simp_all add: entry_text_def entry_raw_def)
  have tr: "TrimSpace (CHR '' '' # s) = s" using p TrimSpace_pad [of s] by simp
  show "render_entry (k, v) = Inr (entry_text (k, v))" using s(1) t by (simp add: render_entry_def)
  show "entry_text (k, v) \<noteq> []" "\<not> HasPrefix (entry_text (k, v)) ''[''" "NL \<notin> set (entry_text (k, v))"
    using b(4,6,8) p by (auto simp: t)
  have "strip_aux False None (k @ '' = '' @ s) = k @ '' = '' @ s"
    using strip_plain [OF b(7), of "'' = '' @ s"] p by simp
  moreover have "TrimSpace (k @ '' = '' @ s) = k @ '' = '' @ s"
    using b(1,8) p by (intro TrimSpace_id) (cases k; auto)+
  ultimately show "StripComment (entry_text (k, v)) = entry_text (k, v)" by (simp add: StripComment_def t)
  show "cut CHR ''='' (entry_text (k, v)) = Some (k @ '' '', entry_raw (k, v))"
    using cut_append [of "CHR ''=''" "k @ '' ''" "'' '' @ s"] b(2) by (simp add: t)
  show "TrimSpace (k @ '' '') = k"
    using TrimSpace_snoc_space [of k "CHR '' ''"] b(1,8) TrimSpace_graphic [OF b(1)]
    by (simp add: ascii_space_def list_all_iff)
  show "\<not> Contains k ''.''" using b(3) Contains_char by simp
  show "rejectUnsupportedValue c (TrimSpace (entry_raw (k, v))) = None"
    "value_text c (entry_raw (k, v)) ls = Inr (entry_raw (k, v), 0, ls)"
    using p by (auto simp: t tr value_text_def)
  show "ParseValue (entry_raw (k, v)) c = Inr v" using s(3) by (simp only: t ParseValue_pad)
qed

section \<open>Sections of a document\<close>

definition section_lines :: "toml_section \<Rightarrow> string list" where
  "section_lines s = [] # fst s # map entry_text (snd s)"

lemma render_section_ok:
  assumes "list_all entry_ok es"
  shows "collect (map render_entry es) = Inr (map entry_text es)" "render_section (h, es) = Inr (section_lines (h, es))"
proof -
  have "map render_entry es = map Inr (map entry_text es)"
    using assms entry_line(1) by (auto simp: list_all_iff)
  then show "collect (map render_entry es) = Inr (map entry_text es)" by (simp only: collect_Inr)
  then show "render_section (h, es) = Inr (section_lines (h, es))" by (simp add: render_section_def section_lines_def)
qed

definition pair_content :: "Pair \<Rightarrow> string \<times> tval" where
  "pair_content p = (pair_key p, pair_value p)"

definition table_content :: "Table \<Rightarrow> toml_section" where
  "table_content t = (table_name t, map pair_content (table_pairs t))"

lemma StripComment_Nil [simp]: "StripComment [] = []"
  by (simp add: StripComment_def)

lemma doc_lines_blank [simp]: "doc_lines path n doc ([] # ls) = doc_lines path (Suc n) doc ls"
  by simp

definition add_pairs :: "Document \<Rightarrow> Pair list \<Rightarrow> Document" where
  "add_pairs doc ps = fold (\<lambda>p d. append_pair d p) ps doc"

lemma current_append_pair: "table_pairs (current_table (append_pair doc p)) = table_pairs (current_table doc) @ [p]"
  by (simp add: current_table_def append_pair_def add_pair_def)

lemma doc_lines_entries:
  assumes "list_all entry_ok es" "distinct (map fst es)"
    "set (map fst es) \<inter> set (map pair_key (table_pairs (current_table doc))) = {}"
  shows "\<exists>ps. map pair_content ps = es \<and>
    doc_lines path n doc (map entry_text es @ rest) = doc_lines path (n + length es) (add_pairs doc ps) rest"
  using assms
proof (induction es arbitrary: n doc)
  case Nil
  then show ?case by (intro exI [of _ "[]"]) (simp add: add_pairs_def)
next
  case (Cons e es)
  obtain k v where e: "e = (k, v)" by force
  have ok: "entry_ok (k, v)" using Cons.prems(1) e by simp
  note l = entry_line [OF ok]
  let ?p = "\<lparr>pair_key = k, pair_raw = entry_raw (k, v), pair_value = v, pair_line = n\<rparr>"
  have k: "k \<noteq> []" using Cons.prems(1) by (simp add: e entry_ok_def bare_def)
  have "doc_key (at_line path n) doc (entry_text (k, v)) = Inr (k, entry_raw (k, v))"
    using l(6-9) k Cons.prems(3) by (simp add: doc_key_def e)
  then have "doc_pair (at_line path n) n doc (entry_text (k, v)) (map entry_text es @ rest) = Inr (?p, 0, map entry_text es @ rest)"
    using l(10,11) by (simp add: doc_pair_def)
  then have step: "doc_lines path n doc (map entry_text (e # es) @ rest) =
      doc_lines path (Suc n) (append_pair doc ?p) (map entry_text es @ rest)"
    using l(2-4) HasPrefix_append [of "entry_text (k, v)" "''[''"] HasPrefix_append [of "entry_text (k, v)" "''[[''"]
    by (simp add: e Let_def)
  obtain ps where "map pair_content ps = es"
    "doc_lines path (Suc n) (append_pair doc ?p) (map entry_text es @ rest) =
      doc_lines path (Suc n + length es) (add_pairs (append_pair doc ?p) ps) rest"
    using Cons.IH [of "append_pair doc ?p" "Suc n"] Cons.prems e by (auto simp: current_append_pair)
  then show ?case unfolding step
    by (intro exI [of _ "?p # ps"]) (simp add: e pair_content_def [of ?p] add_pairs_def)
qed

text \<open>The name between the brackets of a header.\<close>

definition header_ok :: "string \<Rightarrow> bool" where
  "header_ok name \<longleftrightarrow>
     name \<noteq> [] \<and> list_all (\<lambda>c. bare_char c \<or> c = CHR ''.'') name \<and> (\<forall>c. is_ok (parsePath c name))"

definition header_text :: "string \<Rightarrow> string" where
  "header_text name = ''['' @ name @ '']''"

lemma header_line:
  assumes "header_ok name"
  shows "StripComment (header_text name) = header_text name" "\<not> HasPrefix (header_text name) ''[[''" "NL \<notin> set (header_text name)"
    "HasPrefix (header_text name) ''[''" "HasSuffix (header_text name) '']''" "TrimSpace (butlast (tl (header_text name))) = name"
proof -
  have *: "graphic c \<and> c \<noteq> BSLASH \<and> c \<noteq> SQUOTE \<and> c \<noteq> DQUOTE \<and> c \<noteq> CHR ''#'' \<and> c \<noteq> CHR ''['' \<and> c \<noteq> NL" if "c \<in> set name" for c
  proof -
    have "bare_char c \<or> c = CHR ''.''" using assms that by (auto simp: header_ok_def list_all_iff)
    then show ?thesis using bare_char_facts [of c] by (auto simp: graphic_def)
  qed
  have "strip_aux False None (header_text name) = header_text name"
    using strip_plain [of "header_text name" "[]"] * by (simp add: header_text_def list_all_iff)
  moreover have "TrimSpace (header_text name) = header_text name"
    by (rule TrimSpace_id) (simp_all add: header_text_def)
  ultimately show "StripComment (header_text name) = header_text name" by (simp add: StripComment_def)
  obtain c cs where n: "name = c # cs" using assms by (cases name) (auto simp: header_ok_def)
  then have "c \<noteq> CHR ''[''" using * [of c] by simp
  then show "\<not> HasPrefix (header_text name) ''[[''" by (auto simp: header_text_def n)
  show "HasPrefix (header_text name) ''[''" "HasSuffix (header_text name) '']''"
    by (simp_all add: header_text_def HasSuffix_append)
  show "NL \<notin> set (header_text name)" using * by (auto simp: header_text_def)
  show "TrimSpace (butlast (tl (header_text name))) = name"
    using TrimSpace_graphic [of name] * by (simp add: header_text_def list_all_iff)
qed

lemma add_pairs_last:
  "add_pairs (doc\<lparr>doc_tables := ts @ [t]\<rparr>) ps = doc\<lparr>doc_tables := ts @ [t\<lparr>table_pairs := table_pairs t @ ps\<rparr>]\<rparr>"
  by (induction ps arbitrary: t) (simp_all add: add_pairs_def append_pair_def add_pair_def)

lemma add_pairs_top:
  "doc_tables doc = [] \<Longrightarrow>
   add_pairs doc ps = doc\<lparr>top_level := (top_level doc)\<lparr>table_pairs := table_pairs (top_level doc) @ ps\<rparr>\<rparr>"
  by (induction ps arbitrary: doc) (simp_all add: add_pairs_def append_pair_def add_pair_def)

definition section_ok :: "toml_section \<Rightarrow> bool" where
  "section_ok s \<longleftrightarrow> header_ok (fst s) \<and> entries_ok (snd s)"

definition named_lines :: "toml_section \<Rightarrow> string list" where
  "named_lines s = section_lines (header_text (fst s), snd s)"

lemma doc_lines_section:
  assumes "section_ok (name, es)" "name \<notin> set (map table_name (doc_tables doc))"
  shows "\<exists>ps. map pair_content ps = es \<and>
    doc_lines path n doc (named_lines (name, es) @ rest) =
    doc_lines path (Suc (Suc n) + length es)
      (doc\<lparr>doc_tables := doc_tables doc @ [\<lparr>table_name = name, table_line = Suc n, table_pairs = ps\<rparr>]\<rparr>) rest"
proof -
  let ?doc = "doc\<lparr>doc_tables := doc_tables doc @ [\<lparr>table_name = name, table_line = Suc n, table_pairs = []\<rparr>]\<rparr>"
  have h: "header_ok name" and es: "list_all entry_ok es" "distinct (map fst es)"
    using assms(1) by (auto simp: section_ok_def entries_ok_def)
  note l = header_line [OF h]
  obtain pth where "parsePath (at_line path (Suc n)) name = Inr pth"
    using h unfolding header_ok_def by (metis is_ok_simps(2) sum.exhaust)
  then have "doc_header (at_line path (Suc n)) (Suc n) doc (header_text name) = Inr ?doc"
    using l(6) h assms(2) by (simp add: doc_header_def header_ok_def)
  moreover have "header_text name \<noteq> []" by (simp add: header_text_def)
  ultimately have step: "doc_lines path n doc (named_lines (name, es) @ rest) = doc_lines path (Suc (Suc n)) ?doc (map entry_text es @ rest)"
    using l(1,2,4,5) by (simp add: named_lines_def section_lines_def Let_def)
  obtain ps where "map pair_content ps = es"
    "doc_lines path (Suc (Suc n)) ?doc (map entry_text es @ rest) = doc_lines path (Suc (Suc n) + length es) (add_pairs ?doc ps) rest"
    using doc_lines_entries [OF es, of ?doc path "Suc (Suc n)" rest] by (auto simp: current_table_def)
  then show ?thesis unfolding step by (intro exI [of _ ps]) (simp add: add_pairs_last)
qed

lemma doc_lines_sections:
  assumes "list_all section_ok secs" "distinct (map fst secs)"
    "set (map fst secs) \<inter> set (map table_name (doc_tables doc)) = {}"
  shows "\<exists>tabs m. map table_content tabs = secs \<and>
    doc_lines path n doc (concat (map named_lines secs) @ rest) = doc_lines path m (doc\<lparr>doc_tables := doc_tables doc @ tabs\<rparr>) rest"
  using assms
proof (induction secs arbitrary: n doc)
  case Nil
  then show ?case by (intro exI [of _ "[]"] exI [of _ n]) simp
next
  case (Cons sec secs)
  obtain name es where s: "sec = (name, es)" by force
  have "section_ok (name, es)" "name \<notin> set (map table_name (doc_tables doc))" using Cons.prems s by auto
  from doc_lines_section [OF this, of path n "concat (map named_lines secs) @ rest"]
  obtain ps where ps: "map pair_content ps = es" and
    step: "doc_lines path n doc (concat (map named_lines (sec # secs)) @ rest) =
      doc_lines path (Suc (Suc n) + length es)
        (doc\<lparr>doc_tables := doc_tables doc @ [\<lparr>table_name = name, table_line = Suc n, table_pairs = ps\<rparr>]\<rparr>)
        (concat (map named_lines secs) @ rest)"
    by (auto simp: s)
  let ?t = "\<lparr>table_name = name, table_line = Suc n, table_pairs = ps\<rparr>"
  obtain tabs m where "map table_content tabs = secs"
    "doc_lines path (Suc (Suc n) + length es) (doc\<lparr>doc_tables := doc_tables doc @ [?t]\<rparr>) (concat (map named_lines secs) @ rest) =
      doc_lines path m (doc\<lparr>doc_tables := (doc_tables doc @ [?t]) @ tabs\<rparr>) rest"
    using Cons.IH [of "doc\<lparr>doc_tables := doc_tables doc @ [?t]\<rparr>" "Suc (Suc n) + length es"] Cons.prems s by auto
  then show ?case unfolding step using ps
    by (intro exI [of _ "?t # tabs"] exI [of _ m]) (simp add: table_content_def [of ?t] s)
qed

section \<open>Copies blocks\<close>

lemma split_on_lines:
  "\<forall>l \<in> set ls. NL \<notin> set l \<Longrightarrow> split_on NL (concat (map (\<lambda>l. l @ [NL]) ls)) = ls @ [[]]"
  by (induction ls) (auto simp: split_on_append)

lemma concat_lines_join: "ls \<noteq> [] \<Longrightarrow> concat (map (\<lambda>l. l @ [NL]) ls) = join [NL] ls @ [NL]"
  by (induction "[NL]" ls rule: join.induct) auto

lemma parse_lines_entries:
  assumes "list_all entry_ok es" "distinct (map fst es)" "ps_current st = []"
    "set (map fst es) \<inter> set (map fst (ps_root st)) = {}"
  shows "parse_lines path n st (map entry_text es @ rest) =
    parse_lines path (n + length es) (st\<lparr>ps_root := ps_root st @ es\<rparr>) rest"
  using assms
proof (induction es arbitrary: n st)
  case (Cons e es)
  obtain k v where e: "e = (k, v)" by force
  have ok: "entry_ok (k, v)" using Cons.prems(1) e by simp
  note l = entry_line [OF ok]
  have k: "k \<noteq> []" "map_of (ps_root st) k = None"
    using ok Cons.prems(4) by (auto simp: e entry_ok_def bare_def map_of_eq_None_iff)
  then have "parse_key (at_line path n) st (entry_text (k, v)) = Inr (k, entry_raw (k, v))"
    using l(6-8) Cons.prems(3) by (simp add: parse_key_def)
  then have "parse_lines path n st (map entry_text (e # es) @ rest) =
      parse_lines path (Suc n) (st\<lparr>ps_root := ps_root st @ [(k, v)]\<rparr>) (map entry_text es @ rest)"
    using l(2-4,10,11) k(2) Cons.prems(3) HasPrefix_append [of "entry_text (k, v)" "''[''"]
      HasPrefix_append [of "entry_text (k, v)" "''[[''"]
    by (simp add: e Let_def update_new)
  then show ?case using Cons.IH [of "st\<lparr>ps_root := ps_root st @ [(k, v)]\<rparr>" "Suc n"] Cons.prems e by simp
qed simp

lemma entry_NL: "list_all entry_ok es \<Longrightarrow> \<forall>l \<in> set (map entry_text es). NL \<notin> set l"
  using entry_line(5) by (auto simp: list_all_iff)

lemma Parse_entries:
  assumes "entries_ok es"
  shows "Parse (concat (map (\<lambda>l. l @ [NL]) (map entry_text es @ [[]]))) path = Inr es"
proof -
  have ok: "list_all entry_ok es" "distinct (map fst es)" using assms by (auto simp: entries_ok_def)
  have "split_on NL (concat (map (\<lambda>l. l @ [NL]) (map entry_text es @ [[]]))) = map entry_text es @ [[], []]"
    using split_on_lines [of "map entry_text es @ [[]]"] entry_NL [OF ok(1)] by auto
  then show ?thesis using parse_lines_entries [OF ok] by (simp add: Parse_def)
qed

definition copies_lines :: "table \<Rightarrow> string list" where
  "copies_lines es = ''[[copies]]'' # map entry_text es @ [[]]"

lemma extract_keep:
  assumes "\<forall>l \<in> set ls. \<not> (HasPrefix (StripComment l) ''[['' \<and> HasSuffix (StripComment l) '']]'')"
    and "\<And>m. extract_lines path m rest = Inr (kept, entries)"
  shows "extract_lines path n (ls @ rest) = Inr (ls @ kept, entries)"
  using assms by (induction ls arbitrary: n) auto

lemma StripComment_copies: "StripComment ''[[copies]]'' = ''[[copies]]''"
  by code_simp

lemma extract_copies:
  assumes "entries_ok es" "X = [] \<or> HasPrefix (StripComment (hd X)) ''[''"
    and "\<And>m. extract_lines path m X = Inr (kept, entries)"
  shows "extract_lines path n (copies_lines es @ X) = Inr ([] # kept, es # entries)"
proof -
  have ok: "list_all entry_ok es" using assms(1) by (simp add: entries_ok_def)
  let ?P = "\<lambda>l. \<not> HasPrefix (StripComment l) ''[''"
  have body: "\<forall>l \<in> set (map entry_text es @ [[]]). ?P l" using ok entry_line(2,4) by (auto simp: list_all_iff)
  have t: "takeWhile ?P (map entry_text es @ [] # X) = map entry_text es @ [[]]"
    "dropWhile ?P (map entry_text es @ [] # X) = X"
    using takeWhile_append2 [of "map entry_text es @ [[]]" ?P X] dropWhile_append2 [of "map entry_text es @ [[]]" ?P X]
      body assms(2) by (cases X; simp)+
  have "HasSuffix ''[[copies]]'' '']]''" "TrimSpace ''copies'' = ''copies''" by code_simp+
  then show ?thesis using Parse_entries [OF assms(1), of path] assms(3)
    by (simp add: copies_lines_def StripComment_copies t)
qed

lemma extract_blocks:
  assumes "list_all entries_ok cs" "X = [] \<or> HasPrefix (StripComment (hd X)) ''[''"
    and "\<And>m. extract_lines path m X = Inr (kept, [])"
  shows "extract_lines path n (concat (map copies_lines cs) @ X) = Inr (replicate (length cs) [] @ kept, cs)"
  using assms(1)
proof (induction cs arbitrary: n)
  case (Cons es cs)
  let ?Y = "concat (map copies_lines cs) @ X"
  have "?Y = [] \<or> HasPrefix (StripComment (hd ?Y)) ''[''"
    using assms(2) by (cases cs) (auto simp: copies_lines_def StripComment_copies)
  then show ?case using extract_copies [of es ?Y path "replicate (length cs) [] @ kept" cs n] Cons by simp
qed (use assms(3) in simp)

section \<open>A whole file\<close>

definition file_lines :: "table \<Rightarrow> toml_section list \<Rightarrow> table list \<Rightarrow> toml_section list \<Rightarrow> string list" where
  "file_lines head secs cs ns =
     map entry_text head @ concat (map named_lines secs) @ concat (map (\<lambda>es. section_lines (''[[copies]]'', es)) cs) @
     concat (map named_lines ns)"

lemma copies_rotate:
  "concat (map (\<lambda>es. section_lines (''[[copies]]'', es)) cs) @ [] # X = [] # concat (map copies_lines cs) @ X"
  by (induction cs) (simp_all add: section_lines_def copies_lines_def)

lemma named_lines_plain:
  assumes "list_all section_ok secs" "l \<in> set (concat (map named_lines secs))"
  shows "NL \<notin> set l" "\<not> HasPrefix (StripComment l) ''[[''"
proof -
  obtain name es where s: "header_ok name" "list_all entry_ok es" "l \<in> set (named_lines (name, es))"
    using assms by (auto simp: list_all_iff section_ok_def entries_ok_def)
  then consider "l = []" | "l = header_text name" | e where "e \<in> set es" "l = entry_text e"
    by (auto simp: named_lines_def section_lines_def)
  then have "NL \<notin> set l \<and> \<not> HasPrefix (StripComment l) ''[[''"
  proof cases
    case 2
    then show ?thesis using header_line [OF s(1)] by simp
  next
    case 3
    then have "entry_ok (fst e, snd e)" using s(2) by (simp add: list_all_iff)
    from entry_line [OF this] show ?thesis using 3 by (auto simp: HasPrefix_append)
  qed simp
  then show "NL \<notin> set l" "\<not> HasPrefix (StripComment l) ''[[''" by auto
qed

lemma entry_lines_plain:
  assumes "list_all entry_ok es" "l \<in> set (map entry_text es)"
  shows "NL \<notin> set l" "\<not> HasPrefix (StripComment l) ''[[''"
proof -
  obtain k v where e: "entry_ok (k, v)" "l = entry_text (k, v)" using assms by (auto simp: list_all_iff)
  from entry_line [OF e(1)] show "NL \<notin> set l" "\<not> HasPrefix (StripComment l) ''[[''"
    using e(2) by (auto simp: HasPrefix_append)
qed

lemma named_lines_tail:
  "\<exists>X. concat (map named_lines ns) @ [[]] = [] # X \<and> (X = [] \<or> (\<exists>s \<in> set ns. hd X = header_text (fst s)))"
  by (cases ns) (auto simp: named_lines_def section_lines_def)

lemma extract_file:
  assumes "list_all entry_ok head" "head \<noteq> []" "list_all section_ok secs" "list_all entries_ok cs" "list_all section_ok ns"
  shows "extractCopiesBlocks (join [NL] (file_lines head secs cs ns) @ [NL]) path =
    Inr (join [NL] (map entry_text head @ concat (map named_lines secs) @ replicate (length cs) [] @
      concat (map named_lines ns) @ [[]]), cs)"
proof -
  let ?pre = "map entry_text head @ concat (map named_lines secs)" and ?net = "concat (map named_lines ns)"
  let ?lines = "file_lines head secs cs ns" and ?kept = "?pre @ replicate (length cs) [] @ ?net @ [[]]"
  obtain X where X: "?net @ [[]] = [] # X" "X = [] \<or> (\<exists>s \<in> set ns. hd X = header_text (fst s))"
    using named_lines_tail by blast
  have pl: "\<forall>l \<in> set ?pre. NL \<notin> set l \<and> \<not> HasPrefix (StripComment l) ''[[''"
    "\<forall>l \<in> set ([] # X). NL \<notin> set l \<and> \<not> HasPrefix (StripComment l) ''[[''"
    using named_lines_plain [OF assms(3)] entry_lines_plain [OF assms(1)] named_lines_plain [OF assms(5)] unfolding X(1) [symmetric]
    by auto
  have "\<forall>l \<in> set (concat (map (\<lambda>es. section_lines (''[[copies]]'', es)) cs)). NL \<notin> set l"
    using assms(4) entry_lines_plain(1) by (auto simp: section_lines_def list_all_iff entries_ok_def)
  then have "\<forall>l \<in> set ?lines. NL \<notin> set l"
    using pl(1) named_lines_plain(1) [OF assms(5)] unfolding file_lines_def set_append by blast
  then have "split_on NL (join [NL] ?lines @ [NL]) = ?lines @ [[]]"
    using split_on_mid [of NL "join [NL] ?lines" "[]"] split_on_join [of ?lines NL] assms(2) by (simp add: file_lines_def)
  also have "\<dots> = ?pre @ [] # concat (map copies_lines cs) @ X"
    using copies_rotate [of cs X] X(1) by (simp add: file_lines_def)
  finally have sp: "split_on NL (join [NL] ?lines @ [NL]) = (?pre @ [[]]) @ concat (map copies_lines cs) @ X" by simp
  have "extract_lines path m (X @ []) = Inr (X @ [], [])" for m
    by (rule extract_keep) (use pl(2) in auto)
  moreover have "X = [] \<or> HasPrefix (StripComment (hd X)) ''[''"
    using X(2) assms(5) header_line(1,4) by (auto simp: list_all_iff section_ok_def)
  ultimately have "extract_lines path m (concat (map copies_lines cs) @ X) = Inr (replicate (length cs) [] @ X, cs)" for m
    using extract_blocks [OF assms(4)] by simp
  then have "extract_lines path 1 ((?pre @ [[]]) @ concat (map copies_lines cs) @ X) =
      Inr ((?pre @ [[]]) @ replicate (length cs) [] @ X, cs)"
    by (intro extract_keep) (use pl(1) in auto)
  moreover have "(?pre @ [[]]) @ replicate (length cs) [] @ X = ?kept"
    using X(1) replicate_append_same [of "length cs" "[] :: string"] by simp
  moreover have "TrimSuffix (concat (map (\<lambda>l. l @ [NL]) ?kept)) [NL] = join [NL] ?kept"
    using concat_lines_join [of ?kept] by (simp add: TrimSuffix_def HasSuffix_append)
  ultimately show ?thesis unfolding extractCopiesBlocks_def sp by simp
qed

lemma doc_lines_blanks: "\<exists>m. doc_lines path n doc (replicate k [] @ rest) = doc_lines path m doc rest"
  by (induction k arbitrary: n) auto

lemma parse_file:
  assumes "entries_ok head" "head \<noteq> []" "list_all section_ok secs" "list_all section_ok ns"
    "distinct (map fst (secs @ ns))"
  shows "\<exists>doc. ParseDocument (join [NL] (map entry_text head @ concat (map named_lines secs) @ replicate k [] @
      concat (map named_lines ns) @ [[]])) path = Inr doc \<and>
    map pair_content (table_pairs (top_level doc)) = head \<and> map table_content (doc_tables doc) = secs @ ns"
proof -
  let ?net = "concat (map named_lines ns) @ [[]]"
  let ?kept = "map entry_text head @ concat (map named_lines secs) @ replicate k [] @ ?net"
  have h: "list_all entry_ok head" "distinct (map fst head)" using assms(1) by (auto simp: entries_ok_def)
  have "\<forall>l \<in> set (replicate k [] @ [[]]). NL \<notin> set l" by auto
  then have "\<forall>l \<in> set ?kept. NL \<notin> set l"
    using entry_lines_plain(1) [OF h(1)] named_lines_plain(1) [OF assms(3)] named_lines_plain(1) [OF assms(4)]
    unfolding set_append by blast
  then have sp: "split_on NL (join [NL] ?kept) = ?kept" by (intro split_on_join) auto
  obtain ps where ps: "map pair_content ps = head"
    "doc_lines path 1 empty_document ?kept =
      doc_lines path (1 + length head) (add_pairs empty_document ps) (concat (map named_lines secs) @ replicate k [] @ ?net)"
    using doc_lines_entries [OF h, of empty_document path 1 "concat (map named_lines secs) @ replicate k [] @ ?net"]
    by (auto simp: empty_document_def current_table_def)
  let ?d = "add_pairs empty_document ps"
  have d: "doc_tables ?d = []" "table_pairs (top_level ?d) = ps"
    by (simp_all add: add_pairs_top empty_document_def)
  obtain tabs m where tabs: "map table_content tabs = secs"
    "doc_lines path (1 + length head) ?d (concat (map named_lines secs) @ replicate k [] @ ?net) =
      doc_lines path m (?d\<lparr>doc_tables := tabs\<rparr>) (replicate k [] @ ?net)"
    using doc_lines_sections [OF assms(3), of ?d path "1 + length head" "replicate k [] @ ?net"] assms(5) d(1) by auto
  obtain m' where blank: "doc_lines path m (?d\<lparr>doc_tables := tabs\<rparr>) (replicate k [] @ ?net) =
      doc_lines path m' (?d\<lparr>doc_tables := tabs\<rparr>) ?net"
    using doc_lines_blanks by blast
  have names: "map table_name tabs = map fst secs" using tabs(1) by (auto simp: table_content_def)
  obtain tabs' m'' where tabs': "map table_content tabs' = ns"
    "doc_lines path m' (?d\<lparr>doc_tables := tabs\<rparr>) ?net = doc_lines path m'' (?d\<lparr>doc_tables := tabs @ tabs'\<rparr>) [[]]"
    using doc_lines_sections [OF assms(4), of "?d\<lparr>doc_tables := tabs\<rparr>" path m' "[[]]"] assms(5) names by auto
  have "ParseDocument (join [NL] ?kept) path = Inr (?d\<lparr>doc_tables := tabs @ tabs'\<rparr>)"
    unfolding ParseDocument_def sp ps(2) tabs(2) blank tabs'(2) by simp
  then show ?thesis using ps(1) tabs(1) tabs'(1) d(2) by auto
qed

end
