(* ===== verification/Policy_Writer.thy ===== *)
theory Policy_Writer
  imports Policy_Render
begin

text \<open>
  The round trip of policy files: what \<open>renderPolicyTOML\<close> writes, \<open>loadRawPolicy\<close> reads back as the same policy.
  The policy that is read back, \<open>canonical\<close>, has the sections in the order of the file; Go maps have no order,
  so it equals the written policy (\<open>same_value\<close>).
\<close>

section \<open>From the document to the policy\<close>

lemma put_pairs_new:
  "distinct (map pair_key ps) \<Longrightarrow> set (map pair_key ps) \<inter> set (map fst t) = {} \<Longrightarrow>
   put_pairs ps t = t @ map pair_content ps"
  unfolding put_pairs_def
  by (induction ps arbitrary: t) (auto simp: pair_content_def update_new map_of_eq_None_iff)

lemma put_new_pairs_new:
  "distinct (map pair_key ps) \<Longrightarrow> set (map pair_key ps) \<inter> set (map fst t) = {} \<Longrightarrow>
   put_new_pairs path name ps t = Inr (t @ map pair_content ps)"
  by (induction ps arbitrary: t) (auto simp: pair_content_def update_new map_of_eq_None_iff)

lemma content_keys: "table_content tab = (name, es) \<Longrightarrow> map pair_key (table_pairs tab) = map fst es \<and> table_name tab = name"
  by (auto simp: table_content_def pair_content_def)

definition put_section :: "string \<Rightarrow> table \<Rightarrow> table" where
  "put_section name es = (if es = [] then [] else [(name, TTable es)])"

lemma put_table_section:
  assumes "table_content tab = (name, es)" "name \<in> {''documents'', ''ssh'', ''credentials'', ''network''}"
    "map_of root name = None" "distinct (map fst es)"
  shows "put_table path keys tab root = Inr (root @ [(name, TTable es)])"
proof -
  have "\<not> HasPrefix name credentials_prefix" using assms(2) by (auto simp: credentials_prefix_def)
  moreover have "put_new_pairs path name (table_pairs tab) [] = Inr es"
    using put_new_pairs_new [of "table_pairs tab" "[]" path name] content_keys [OF assms(1)] assms(1,4)
    by (simp add: table_content_def)
  ultimately show ?thesis
    using content_keys [OF assms(1)] assms(2,3) by (simp add: put_table_def update_new)
qed

lemma update_last: "map_of t k = None \<Longrightarrow> AList.update k v (t @ [(k, w)]) = t @ [(k, v)]"
  by (induction t) (auto split: if_splits)

lemma put_table_credential:
  assumes "table_content tab = (credentials_prefix @ k, es)" "k \<in> set keys" "map_of base ''credentials'' = None"
    "distinct (map fst es)" "map_of c k = None"
  shows "put_table path keys tab (base @ put_section ''credentials'' c) =
    Inr (base @ put_section ''credentials'' (c @ [(k, TTable es)]))"
proof -
  have n: "table_name tab = credentials_prefix @ k" "put_pairs (table_pairs tab) [] = es"
    using content_keys [OF assms(1)] put_pairs_new [of "table_pairs tab" "[]"] assms(1,4) by (auto simp: table_content_def)
  have "HasPrefix (credentials_prefix @ k) credentials_prefix" by (simp add: HasPrefix_append)
  then have "put_table path keys tab root = put_credential path keys tab root" for root
    by (simp add: put_table_def n Let_def)
  then show ?thesis using assms(2,3,5) n
    by (cases "c = []") (auto simp: put_credential_def put_section_def Let_def update_new update_last map_add_def)
qed

lemma chain_append: "chain (fs @ gs) s = (case chain fs s of Inl e \<Rightarrow> Inl e | Inr t \<Rightarrow> chain gs t)"
  by (induction fs s rule: chain.induct) (auto split: sum.splits)

definition opt_section :: "string \<Rightarrow> table \<Rightarrow> toml_section list" where
  "opt_section name es = (if es = [] then [] else [(name, es)])"

lemma chain_opt_section:
  assumes "map table_content tabs = opt_section name es" "name \<in> {''documents'', ''ssh'', ''credentials'', ''network''}"
    "map_of root name = None" "distinct (map fst es)"
  shows "chain (map (put_table path keys) tabs) root = Inr (root @ put_section name es)"
  using assms put_table_section [of _ name es root path keys]
  by (auto simp: opt_section_def put_section_def split: if_splits)

definition credential_names :: "(string \<times> table) list \<Rightarrow> toml_section list" where
  "credential_names cts = map (\<lambda>(k, t). (credentials_prefix @ k, t)) cts"

lemma chain_credentials:
  assumes "map table_content tabs = credential_names cts"
    "list_all (\<lambda>(k, t). k \<in> set keys \<and> distinct (map fst t)) cts" "map_of base ''credentials'' = None"
    "distinct (map fst cts)" "set (map fst cts) \<inter> set (map fst c) = {}"
  shows "chain (map (put_table path keys) tabs) (base @ put_section ''credentials'' c) =
    Inr (base @ put_section ''credentials'' (c @ map (\<lambda>(k, t). (k, TTable t)) cts))"
  using assms
proof (induction cts arbitrary: tabs c)
  case (Cons kt cts)
  obtain k t where kt: "kt = (k, t)" by force
  then obtain tab tabs' where tabs: "tabs = tab # tabs'" "table_content tab = (credentials_prefix @ k, t)"
    "map table_content tabs' = credential_names cts"
    using Cons.prems(1) by (auto simp: credential_names_def)
  have "put_table path keys tab (base @ put_section ''credentials'' c) =
      Inr (base @ put_section ''credentials'' (c @ [(k, TTable t)]))"
    using Cons.prems kt by (intro put_table_credential [OF tabs(2)]) (auto simp: map_of_eq_None_iff)
  then show ?case using Cons.IH [OF tabs(3), of "c @ [(k, TTable t)]"] Cons.prems kt tabs(1) by simp
qed (simp add: credential_names_def)

section \<open>The order of the entries\<close>

lemma lookup_entries_keys: "map fst (lookup_entries ks t) = filter (\<lambda>k. map_of t k \<noteq> None) ks"
  by (induction ks) (auto simp: lookup_entries_def split: option.splits)

lemma lookup_entries_perm:
  assumes "distinct ks" "distinct (map fst t)" "fst ` set t \<subseteq> set ks"
  shows "mset (lookup_entries ks t) = mset t"
proof -
  have "set (lookup_entries ks t) = {(k, v). k \<in> set ks \<and> map_of t k = Some v}"
    by (auto simp: lookup_entries_def split: option.splits)
  also have "\<dots> = set t" using assms(2,3) by (auto dest: map_of_SomeD)
  finally have "set (lookup_entries ks t) = set t" .
  moreover have "distinct (lookup_entries ks t)"
    using lookup_entries_keys [of ks t] assms(1) by (metis distinct_filter distinct_map)
  moreover have "distinct t" using assms(2) by (simp add: distinct_map)
  ultimately show ?thesis using set_eq_iff_mset_eq_distinct by blast
qed

lemma sorted_entries_perm: "distinct (map fst t) \<Longrightarrow> mset (lookup_entries (sortedKeys t) t) = mset t"
  by (rule lookup_entries_perm) (auto simp: sortedKeys_def)

lemma ordered_entries_perm:
  "distinct ordered \<Longrightarrow> distinct (map fst t) \<Longrightarrow> mset (ordered_entries ordered t) = mset t"
  unfolding ordered_entries_def Let_def by (rule lookup_entries_perm) auto

lemma entries_ok_perm:
  assumes "mset t' = mset t" "entries_ok t"
  shows "entries_ok t'"
proof -
  have "mset (map fst t') = mset (map fst t)" using assms(1) by simp
  then have "distinct (map fst t') = distinct (map fst t)" by (rule mset_eq_imp_distinct_iff)
  then show ?thesis using assms mset_eq_setD [OF assms(1)] by (simp add: entries_ok_def list_all_iff)
qed

lemma map_of_perm:
  assumes "mset t' = mset t" "distinct (map fst t)"
  shows "map_of t' = map_of t"
proof -
  have "mset (map fst t') = mset (map fst t)" using assms(1) by simp
  then have "distinct (map fst t')" using assms(2) mset_eq_imp_distinct_iff by blast
  then show ?thesis using assms(2) mset_eq_setD [OF assms(1)] by (metis map_of_inject_set)
qed

lemma perm_same: "mset t' = mset t \<Longrightarrow> same_value (TTable t) (TTable t')"
  by (rule same_table [of t']) (auto intro!: list_all2_refl same_refl)

text \<open>The policy that is read back: the sections in the order of the file, \<open>copies\<close> last.\<close>

definition canonical_credentials :: "table \<Rightarrow> table" where
  "canonical_credentials c =
     (let scalars = scalar_entries c in
      lookup_entries (sortedKeys scalars) scalars @ map (\<lambda>(k, t). (k, TTable t)) (credential_tables c))"

definition copies_entries :: "table \<Rightarrow> table list" where
  "copies_entries p = map (\<lambda>v. case v of TTable t \<Rightarrow> ordered_entries copies_order t | _ \<Rightarrow> []) (get_array p ''copies'')"

definition canonical :: "table \<Rightarrow> table" where
  "canonical p =
     head_entries p @ put_section ''documents'' (lookup_entries DocumentKeys (get_table p ''documents'')) @
     put_section ''credentials'' (canonical_credentials (get_table p ''credentials'')) @
     put_section ''ssh'' (ordered_entries ssh_order (get_table p ''ssh'')) @
     put_section ''network'' (ordered_entries networkKeys (get_table p ''network'')) @
     (if get_array p ''copies'' = [] then [] else [(''copies'', TArr (map TTable (copies_entries p)))])"

lemma orders_distinct: "distinct DocumentKeys" "distinct ssh_order" "distinct copies_order" "distinct networkKeys"
  by (simp_all add: DocumentKeys_def ssh_order_def copies_order_def networkKeys_def)

lemma writable_entry:
  assumes "writable p" "map_of p k = Some v"
  shows "root_entry_ok (k, v)"
  using assms(1) map_of_SomeD [OF assms(2)] unfolding writable_def list_all_iff by blast

lemma writable_table:
  assumes "writable p" "T \<in> set [''documents'', ''ssh'', ''network'']"
  shows "entries_ok (get_table p T)"
proof (cases "map_of p T")
  case (Some v)
  have T: "T \<noteq> ''credentials''" using assms(2) by auto
  have "root_entry_ok (T, v)" using writable_entry [OF assms(1) Some] .
  then show ?thesis using Some T by (cases v) (simp_all add: get_table_def root_entry_ok_def entries_ok_def)
qed (simp add: entries_ok_def)

lemma writable_credentials:
  assumes "writable p"
  shows "distinct (map fst (get_table p ''credentials''))" "list_all credential_ok (get_table p ''credentials'')"
proof -
  have "distinct (map fst (get_table p ''credentials'')) \<and> list_all credential_ok (get_table p ''credentials'')"
  proof (cases "map_of p ''credentials''")
    case (Some v)
    then show ?thesis using writable_entry [OF assms Some]
      by (auto simp: get_table_def root_entry_ok_def split: tval.splits if_splits)
  qed simp
  then show "distinct (map fst (get_table p ''credentials''))" "list_all credential_ok (get_table p ''credentials'')" by auto
qed

lemma writable_copies:
  assumes "writable p"
  shows "list_all copy_ok (get_array p ''copies'')"
proof (cases "map_of p ''copies''")
  case (Some v)
  then show ?thesis using writable_entry [OF assms Some]
    by (auto simp: get_array_def root_entry_ok_def split: tval.splits if_splits)
qed simp

lemma copies_entries_ok:
  assumes "writable p"
  shows "list_all entries_ok (copies_entries p)"
    "map copies_section (get_array p ''copies'') = map Inr (map (\<lambda>es. (''[[copies]]'', es)) (copies_entries p))"
    "list_all2 same_value (get_array p ''copies'') (map TTable (copies_entries p))"
proof -
  have *: "\<exists>t. v = TTable t \<and> entries_ok t \<and> mset (ordered_entries copies_order t) = mset t"
    if "v \<in> set (get_array p ''copies'')" for v
    using writable_copies [OF assms] that ordered_entries_perm [OF orders_distinct(3)]
    by (cases v) (auto simp: list_all_iff entries_ok_def)
  show "list_all entries_ok (copies_entries p)"
    using * entries_ok_perm by (fastforce simp: copies_entries_def list_all_iff)
  show "map copies_section (get_array p ''copies'') = map Inr (map (\<lambda>es. (''[[copies]]'', es)) (copies_entries p))"
    using * by (fastforce simp: copies_entries_def)
  show "list_all2 same_value (get_array p ''copies'') (map TTable (copies_entries p))"
    unfolding copies_entries_def list_all2_map2 map_map o_def
    using * perm_same by (intro list.rel_refl_strong) fastforce
qed

lemma scalar_entries_facts:
  assumes "distinct (map fst c)" "list_all credential_ok c"
  shows "entries_ok (lookup_entries (sortedKeys (scalar_entries c)) (scalar_entries c))"
    "mset (lookup_entries (sortedKeys (scalar_entries c)) (scalar_entries c)) = mset (scalar_entries c)"
proof -
  have d: "distinct (map fst (scalar_entries c))" using assms(1) by (auto simp: scalar_entries_def distinct_map_filter)
  then show m: "mset (lookup_entries (sortedKeys (scalar_entries c)) (scalar_entries c)) = mset (scalar_entries c)"
    by (rule sorted_entries_perm)
  have "entry_ok (k, v)" if "(k, v) \<in> set (scalar_entries c)" for k v
  proof -
    have "credential_ok (k, v)" "\<not> is_table v" using assms(2) that by (auto simp: scalar_entries_def list_all_iff)
    then show ?thesis by (cases v) (auto simp: credential_ok_def entry_ok_def)
  qed
  then have "entries_ok (scalar_entries c)" using d by (auto simp: entries_ok_def list_all_iff)
  then show "entries_ok (lookup_entries (sortedKeys (scalar_entries c)) (scalar_entries c))" using entries_ok_perm m by blast
qed

lemma credential_tables_facts:
  assumes "distinct (map fst c)" "list_all credential_ok c"
  shows "\<exists>ts. mset ts = mset (filter (\<lambda>(k, v). is_table v) c) \<and>
    list_all2 (\<lambda>a b. \<exists>t. a = (fst b, TTable t) \<and> mset (snd b) = mset t \<and> entries_ok t \<and> bare (fst b)) ts (credential_tables c)"
proof -
  let ?c = "lookup_entries (sortedKeys c) c"
  have m: "mset ?c = mset c" by (rule sorted_entries_perm) (fact assms(1))
  have "list_all2 (\<lambda>a b. \<exists>t. a = (fst b, TTable t) \<and> mset (snd b) = mset t \<and> entries_ok t \<and> bare (fst b))
      (filter (\<lambda>(k, v). is_table v) xs)
      (concat (map (\<lambda>(k, v). case v of TTable t \<Rightarrow> [(k, lookup_entries (sortedKeys t) t)] | _ \<Rightarrow> []) xs))"
    if "list_all credential_ok xs" for xs
    using that
  proof (induction xs)
    case (Cons x xs)
    obtain k v where x: "x = (k, v)" by force
    then have "credential_ok (k, v)" using Cons.prems by simp
    then show ?case using Cons x
      by (cases v) (auto simp: credential_ok_def entries_ok_def sorted_entries_perm)
  qed simp
  moreover have "list_all credential_ok ?c" using assms(2) mset_eq_setD [OF m] by (simp add: list_all_iff)
  ultimately have "list_all2 (\<lambda>a b. \<exists>t. a = (fst b, TTable t) \<and> mset (snd b) = mset t \<and> entries_ok t \<and> bare (fst b))
      (filter (\<lambda>(k, v). is_table v) ?c) (credential_tables c)"
    unfolding credential_tables_def by blast
  then show ?thesis using m by (intro exI [of _ "filter (\<lambda>(k, v). is_table v) ?c"]) (simp add: mset_filter)
qed

definition named_sections :: "table \<Rightarrow> toml_section list" where
  "named_sections p =
     opt_section ''documents'' (lookup_entries DocumentKeys (get_table p ''documents'')) @
     opt_section ''credentials'' (lookup_entries (sortedKeys (scalar_entries (get_table p ''credentials''))) (scalar_entries (get_table p ''credentials''))) @
     credential_names (credential_tables (get_table p ''credentials'')) @
     opt_section ''ssh'' (ordered_entries ssh_order (get_table p ''ssh''))"

definition network_section :: "table \<Rightarrow> toml_section list" where
  "network_section p = opt_section ''network'' (ordered_entries networkKeys (get_table p ''network''))"

lemma header_ok_bare:
  assumes "bare k"
  shows "header_ok k" "header_ok (credentials_prefix @ k)"
proof -
  have p: "parse_components c (k # ks) = (case parse_components c ks of Inl e \<Rightarrow> Inl e | Inr path \<Rightarrow> Inr (k # path))" if "bare k" for c k ks
    using TrimSpace_graphic bare_facts [OF that] Contains_char [of k "CHR '' ''"] by (simp add: Let_def)
  have "split_on CHR ''.'' k = [k]" using bare_facts(3) [OF assms] by (rule split_on_fresh)
  moreover have "split_on CHR ''.'' (credentials_prefix @ k) = ''credentials'' # split_on CHR ''.'' k"
    using split_on_append [of "CHR ''.''" "''credentials''" k] by (simp add: credentials_prefix_def)
  moreover have "bare ''credentials''" by code_simp
  ultimately have "parsePath c k = Inr [k]" "parsePath c (credentials_prefix @ k) = Inr [''credentials'', k]" for c
    using p [OF assms, of c "[]"] p [of "''credentials''" c "[k]"] by (simp_all add: parsePath_def del: parse_components.simps(2))
  moreover have "list_all (\<lambda>c. bare_char c \<or> c = CHR ''.'') credentials_prefix" by code_simp
  ultimately show "header_ok k" "header_ok (credentials_prefix @ k)"
    using assms by (auto simp: header_ok_def bare_def list_all_iff)
qed

lemma opt_section_ok: "bare name \<Longrightarrow> entries_ok es \<Longrightarrow> list_all section_ok (opt_section name es)"
  by (simp add: opt_section_def section_ok_def header_ok_bare)

lemma bare_names: "bare ''documents''" "bare ''credentials''" "bare ''ssh''" "bare ''network''" "bare ''version''" "bare ''includes''"
  by code_simp+

lemma documents_perm:
  assumes "writable p" "validatePolicyDocuments p = None"
  shows "mset (lookup_entries DocumentKeys (get_table p ''documents'')) = mset (get_table p ''documents'')"
  using writable_table [OF assms(1)] assms(2) orders_distinct(1)
  by (intro lookup_entries_perm) (auto simp: entries_ok_def validatePolicyDocuments_def dest: validate_table_None)

lemma table_perms:
  assumes "writable p"
  shows "mset (ordered_entries ssh_order (get_table p ''ssh'')) = mset (get_table p ''ssh'')"
    "mset (ordered_entries networkKeys (get_table p ''network'')) = mset (get_table p ''network'')"
  using writable_table [OF assms] orders_distinct by (auto simp: entries_ok_def intro!: ordered_entries_perm)

lemma credential_tables_ok:
  assumes "writable p"
  shows "list_all (\<lambda>(k, t). bare k \<and> entries_ok t) (credential_tables (get_table p ''credentials''))"
    "mset (map fst (credential_tables (get_table p ''credentials''))) = mset (map fst (filter (\<lambda>(k, v). is_table v) (get_table p ''credentials'')))"
proof -
  let ?c = "get_table p ''credentials''"
  obtain ts where ts: "mset ts = mset (filter (\<lambda>(k, v). is_table v) ?c)"
    "list_all2 (\<lambda>a b. \<exists>t. a = (fst b, TTable t) \<and> mset (snd b) = mset t \<and> entries_ok t \<and> bare (fst b)) ts (credential_tables ?c)"
    using credential_tables_facts [OF writable_credentials [OF assms]] by blast
  have "map fst ts = map fst (credential_tables ?c) \<and> list_all (\<lambda>(k, t). bare k \<and> entries_ok t) (credential_tables ?c)"
    using ts(2) by (induction rule: list_all2_induct) (auto intro: entries_ok_perm)
  then have eq: "map fst ts = map fst (credential_tables ?c)"
    and ok: "list_all (\<lambda>(k, t). bare k \<and> entries_ok t) (credential_tables ?c)" by auto
  have "mset (map fst (credential_tables ?c)) = image_mset fst (mset ts)" unfolding eq [symmetric] by simp
  then show "mset (map fst (credential_tables ?c)) = mset (map fst (filter (\<lambda>(k, v). is_table v) ?c))" by (simp add: ts(1))
  show "list_all (\<lambda>(k, t). bare k \<and> entries_ok t) (credential_tables ?c)" by (fact ok)
qed

lemma credential_names_keys: "map fst (credential_names cts) = map (append credentials_prefix) (map fst cts)"
  by (auto simp: credential_names_def)

lemma sections_ok:
  assumes "writable p" "validatePolicyDocuments p = None"
  shows "list_all section_ok (named_sections p)" "list_all section_ok (network_section p)"
    "distinct (map fst (named_sections p @ network_section p))"
proof -
  note w = writable_table [OF assms(1)] and c = writable_credentials [OF assms(1)] and t = credential_tables_ok [OF assms(1)]
  note perms = documents_perm [OF assms] table_perms [OF assms(1)] scalar_entries_facts [OF c]
  have "list_all section_ok (credential_names (credential_tables (get_table p ''credentials'')))"
    using t(1) header_ok_bare(2) by (auto simp: credential_names_def list_all_iff section_ok_def)
  then show "list_all section_ok (named_sections p)" "list_all section_ok (network_section p)"
    using bare_names entries_ok_perm [OF perms(1)] entries_ok_perm [OF perms(2)] entries_ok_perm [OF perms(3)] perms(4) w
    by (auto simp: named_sections_def network_section_def intro!: opt_section_ok)
  have "distinct (map fst (filter (\<lambda>(k, v). is_table v) (get_table p ''credentials'')))"
    using c(1) by (rule distinct_map_filter)
  then have "distinct (map fst (credential_tables (get_table p ''credentials'')))"
    using t(2) mset_eq_imp_distinct_iff by blast
  then have "distinct (map fst (credential_names (credential_tables (get_table p ''credentials''))))"
    unfolding credential_names_keys by (simp add: distinct_map inj_on_def del: map_map)
  moreover have "CHR ''.'' \<in> set n" if "n \<in> fst ` set (credential_names cts)" for n cts
    using that by (auto simp: credential_names_def credentials_prefix_def)
  ultimately show "distinct (map fst (named_sections p @ network_section p))"
    by (fastforce simp: named_sections_def network_section_def opt_section_def)
qed

section \<open>The round trip\<close>

lemma head_entries_ok:
  assumes "writable p"
  shows "entries_ok (head_entries p)"
proof -
  have "fragment_version p = 1" using assms by (simp add: writable_def fragment_version_def)
  moreover have "renderable (TArr (get_array p ''includes''))"
  proof (cases "map_of p ''includes''")
    case (Some v)
    have "root_entry_ok (''includes'', v)" using writable_entry [OF assms Some] .
    then show ?thesis using Some by (cases v) (simp_all add: get_array_def root_entry_ok_def)
  qed simp
  ultimately show ?thesis using bare_names by (simp add: head_entries_def entries_ok_def entry_ok_def Let_def)
qed

lemma mset_Nil_iff: "mset t' = mset t \<Longrightarrow> t' = [] \<longleftrightarrow> t = []"
  by (metis mset_zero_iff)

definition headed :: "toml_section \<Rightarrow> toml_section" where
  "headed s = (header_text (fst s), snd s)"

lemma rendered_sections:
  assumes "writable p" "validatePolicyDocuments p = None"
  shows "document_sections p @ credential_sections p @ ssh_sections p = map headed (named_sections p)"
    "network_sections p = map headed (network_section p)"
proof -
  note perms = documents_perm [OF assms] table_perms [OF assms(1)] scalar_entries_facts(2) [OF writable_credentials [OF assms(1)]]
  note nil = perms [THEN mset_Nil_iff]
  have "map (\<lambda>(k, t). (''[credentials.'' @ k @ '']'', t)) cts = map headed (credential_names cts)" for cts
    by (auto simp: headed_def credential_names_def header_text_def credentials_prefix_def)
  then show "document_sections p @ credential_sections p @ ssh_sections p = map headed (named_sections p)"
    using nil by (simp add: document_sections_def credential_sections_def ssh_sections_def named_sections_def opt_section_def
        Let_def headed_def [of "(n, es)" for n es] header_text_def)
  show "network_sections p = map headed (network_section p)"
    using nil by (simp add: network_sections_def network_section_def opt_section_def Let_def headed_def header_text_def)
qed

lemma policy_lines_ok:
  assumes "writable p" "validatePolicyDocuments p = None"
  shows "policy_lines p = Inr (file_lines (head_entries p) (named_sections p) (copies_entries p) (network_section p))"
proof -
  let ?r = "\<lambda>s. case s of Inl e \<Rightarrow> Inl e | Inr s' \<Rightarrow> render_section s'"
  have named: "map (?r \<circ> Inr) (map headed secs) = map Inr (map named_lines secs)" if "list_all section_ok secs" for secs
    using that render_section_ok(2) by (auto simp: list_all_iff section_ok_def entries_ok_def headed_def named_lines_def)
  have copies: "map ?r (map copies_section (get_array p ''copies'')) =
      map Inr (map (\<lambda>es. section_lines (''[[copies]]'', es)) (copies_entries p))"
    using copies_entries_ok [OF assms(1)] render_section_ok(2) by (auto simp: list_all_iff entries_ok_def)
  have "map ?r (policy_sections p) = map Inr (map named_lines (named_sections p) @
      map (\<lambda>es. section_lines (''[[copies]]'', es)) (copies_entries p) @ map named_lines (network_section p))"
    unfolding policy_sections_def rendered_sections [OF assms] map_append copies
    using named [OF sections_ok(1) [OF assms]] named [OF sections_ok(2) [OF assms]] by simp
  then have "collect (map ?r (policy_sections p)) = Inr (map named_lines (named_sections p) @
      map (\<lambda>es. section_lines (''[[copies]]'', es)) (copies_entries p) @ map named_lines (network_section p))"
    by (simp only: collect_Inr)
  moreover have "collect (map render_entry (head_entries p)) = Inr (map entry_text (head_entries p))"
    using render_section_ok(1) head_entries_ok [OF assms(1)] by (auto simp: entries_ok_def)
  ultimately show ?thesis by (simp add: policy_lines_def file_lines_def)
qed

lemma map_of_put_section [simp]: "map_of (put_section n es) k = (if k = n \<and> es \<noteq> [] then Some (TTable es) else None)"
  by (simp add: put_section_def)

lemma map_of_head: "k \<noteq> ''version'' \<Longrightarrow> k \<noteq> ''includes'' \<Longrightarrow> map_of (head_entries p) k = None"
  by (simp add: head_entries_def Let_def)

lemma map_eq_appendE:
  assumes "map f xs = ys @ zs"
  obtains us vs where "xs = us @ vs" "map f us = ys" "map f vs = zs"
  using assms by (auto simp: map_eq_append_conv)

lemma credential_keys:
  assumes "writable p" "validatePolicyCredentials keys p = None"
  defines "c \<equiv> get_table p ''credentials''"
  shows "list_all (\<lambda>(k, t). k \<in> set keys \<and> distinct (map fst t)) (credential_tables c)"
    "distinct (map fst (credential_tables c))"
    "set (map fst (credential_tables c)) \<inter> set (map fst (lookup_entries (sortedKeys (scalar_entries c)) (scalar_entries c))) = {}"
proof -
  have d: "distinct (map fst c)" "list_all credential_ok c" using writable_credentials [OF assms(1)] by (simp_all add: c_def)
  note t = credential_tables_ok [OF assms(1), folded c_def]
  have tk: "set (map fst (credential_tables c)) = fst ` set (filter (\<lambda>(k, v). is_table v) c)"
    using mset_eq_setD [OF t(2)] by simp
  have sk: "set (map fst (lookup_entries (sortedKeys (scalar_entries c)) (scalar_entries c))) = fst ` set (scalar_entries c)"
    using mset_eq_setD [OF scalar_entries_facts(2) [OF d]] by simp
  have "fst ` set c \<subseteq> set keys"
    using validate_table_None assms(2) by (simp add: validatePolicyCredentials_def c_def)
  then have "fst ` set (credential_tables c) \<subseteq> set keys" using tk by auto
  then show "list_all (\<lambda>(k, t). k \<in> set keys \<and> distinct (map fst t)) (credential_tables c)"
    using t(1) by (auto simp: list_all_iff entries_ok_def image_subset_iff)
  show "distinct (map fst (credential_tables c))"
    using mset_eq_imp_distinct_iff [OF t(2)] distinct_map_filter [OF d(1)] by blast
  show "set (map fst (credential_tables c)) \<inter> set (map fst (lookup_entries (sortedKeys (scalar_entries c)) (scalar_entries c))) = {}"
    unfolding tk sk using eq_key_imp_eq_value [OF d(1)] by (fastforce simp: scalar_entries_def)
qed

lemma document_canonical:
  assumes "writable p" "validatePolicyDocuments p = None" "validatePolicyCredentials keys p = None"
    and "map pair_content (table_pairs (top_level doc)) = head_entries p"
    and "map table_content (doc_tables doc) = named_sections p @ network_section p"
  shows "\<exists>root. documentToPolicyMap doc path keys = Inr root \<and> map_of root ''copies'' = None \<and>
    canonical p = root @ (if get_array p ''copies'' = [] then [] else [(''copies'', TArr (map TTable (copies_entries p)))])"
proof -
  let ?c = "get_table p ''credentials''" and ?put = "put_table path keys" and ?h = "head_entries p"
  define D where "D = lookup_entries DocumentKeys (get_table p ''documents'')"
  define S where "S = lookup_entries (sortedKeys (scalar_entries ?c)) (scalar_entries ?c)"
  define T where "T = credential_tables ?c"
  define H where "H = ordered_entries ssh_order (get_table p ''ssh'')"
  define N where "N = ordered_entries networkKeys (get_table p ''network'')"
  obtain t1 t2 t3 t4 t5 where t: "doc_tables doc = t1 @ t2 @ t3 @ t4 @ t5"
    "map table_content t1 = opt_section ''documents'' D" "map table_content t2 = opt_section ''credentials'' S"
    "map table_content t3 = credential_names T" "map table_content t4 = opt_section ''ssh'' H" "map table_content t5 = opt_section ''network'' N"
    using assms(5) unfolding named_sections_def network_section_def D_def S_def T_def H_def N_def append_assoc
    by (elim map_eq_appendE) (metis append_assoc)
  note w = writable_table [OF assms(1)] and c = writable_credentials [OF assms(1)]
  have perms: "mset D = mset (get_table p ''documents'')" "mset H = mset (get_table p ''ssh'')" "mset N = mset (get_table p ''network'')"
    "mset S = mset (scalar_entries ?c)"
    using documents_perm [OF assms(1,2)] table_perms [OF assms(1)] scalar_entries_facts(2) [OF c] by (simp_all add: D_def H_def N_def S_def)
  have dist: "distinct (map fst D)" "distinct (map fst H)" "distinct (map fst N)" "distinct (map fst S)"
    using entries_ok_perm [OF perms(1)] entries_ok_perm [OF perms(2)] entries_ok_perm [OF perms(3)] w scalar_entries_facts(1) [OF c]
    by (auto simp: entries_ok_def S_def)
  let ?r3 = "(?h @ put_section ''documents'' D) @ put_section ''credentials'' (S @ map (\<lambda>(k, t). (k, TTable t)) T)"
  have T: "list_all (\<lambda>(k, t). k \<in> set keys \<and> distinct (map fst t)) T" "distinct (map fst T)" "set (map fst T) \<inter> set (map fst S) = {}"
    using credential_keys [OF assms(1,3)] by (simp_all add: T_def S_def)
  have "map pair_key (table_pairs (top_level doc)) = map fst ?h"
    using arg_cong [OF assms(4), of "map fst"] by (simp add: pair_content_def comp_def)
  then have "put_pairs (table_pairs (top_level doc)) [] = ?h"
    using put_pairs_new [of "table_pairs (top_level doc)" "[]"] assms(4) head_entries_ok [OF assms(1)] by (simp add: entries_ok_def)
  moreover have "chain (map ?put t1) ?h = Inr (?h @ put_section ''documents'' D)"
    using chain_opt_section [OF t(2) _ _ dist(1)] by (simp add: map_of_head)
  moreover have "chain (map ?put t2) (?h @ put_section ''documents'' D) =
      Inr ((?h @ put_section ''documents'' D) @ put_section ''credentials'' S)"
    using chain_opt_section [OF t(3) _ _ dist(4)] by (simp add: map_of_head map_add_def)
  moreover have "chain (map ?put t3) ((?h @ put_section ''documents'' D) @ put_section ''credentials'' S) =
      Inr ((?h @ put_section ''documents'' D) @ put_section ''credentials'' (S @ map (\<lambda>(k, t). (k, TTable t)) T))"
    by (intro chain_credentials [OF t(4) T(1) _ T(2,3)]) (simp add: map_of_head map_add_def)
  moreover have "chain (map ?put t4) ?r3 = Inr (?r3 @ put_section ''ssh'' H)"
    using chain_opt_section [OF t(5) _ _ dist(2)] by (simp add: map_of_head map_add_def)
  moreover have "chain (map ?put t5) (?r3 @ put_section ''ssh'' H) = Inr ((?r3 @ put_section ''ssh'' H) @ put_section ''network'' N)"
    using chain_opt_section [OF t(6) _ _ dist(3)] by (simp add: map_of_head map_add_def)
  ultimately have "documentToPolicyMap doc path keys = Inr ((?r3 @ put_section ''ssh'' H) @ put_section ''network'' N)"
    unfolding documentToPolicyMap_def t(1) by (simp add: chain_append del: append_assoc)
  moreover have "map_of ((?r3 @ put_section ''ssh'' H) @ put_section ''network'' N) ''copies'' = None"
    by (simp add: map_of_head map_add_def)
  moreover have "canonical p = ((?r3 @ put_section ''ssh'' H) @ put_section ''network'' N) @
      (if get_array p ''copies'' = [] then [] else [(''copies'', TArr (map TTable (copies_entries p)))])"
    by (simp add: canonical_def canonical_credentials_def D_def S_def T_def H_def N_def Let_def)
  ultimately show ?thesis by blast
qed

lemma parse_written:
  assumes "writable p" "validatePolicyDocuments p = None" "validatePolicyCredentials keys p = None"
  shows "ParsePolicyTOML (join [NL] (file_lines (head_entries p) (named_sections p) (copies_entries p) (network_section p)) @ [NL]) path keys =
    Inr (canonical p)"
proof -
  note h = head_entries_ok [OF assms(1)] and sec = sections_ok [OF assms(1,2)] and cs = copies_entries_ok(1) [OF assms(1)]
  have hd: "head_entries p \<noteq> []" by (simp add: head_entries_def Let_def)
  obtain doc where doc: "ParseDocument (join [NL] (map entry_text (head_entries p) @ concat (map named_lines (named_sections p)) @
      replicate (length (copies_entries p)) [] @ concat (map named_lines (network_section p)) @ [[]])) path = Inr doc"
    "map pair_content (table_pairs (top_level doc)) = head_entries p"
    "map table_content (doc_tables doc) = named_sections p @ network_section p"
    using parse_file [OF h hd sec] by blast
  obtain root where root: "documentToPolicyMap doc path keys = Inr root" "map_of root ''copies'' = None"
    "canonical p = root @ (if get_array p ''copies'' = [] then [] else [(''copies'', TArr (map TTable (copies_entries p)))])"
    using document_canonical [OF assms doc(2,3)] by blast
  have "copies_entries p = [] \<longleftrightarrow> get_array p ''copies'' = []" by (simp add: copies_entries_def)
  then show ?thesis
    using extract_file [OF _ hd sec(1) cs sec(2), of path] h doc(1) root
    by (simp add: ParsePolicyTOML_def entries_ok_def update_new)
qed

lemma map_of_canonical:
  "map_of (canonical p) ''documents'' = (let t = lookup_entries DocumentKeys (get_table p ''documents'') in if t = [] then None else Some (TTable t))"
  "map_of (canonical p) ''credentials'' = (let t = canonical_credentials (get_table p ''credentials'') in if t = [] then None else Some (TTable t))"
  "map_of (canonical p) ''network'' = (let t = ordered_entries networkKeys (get_table p ''network'') in if t = [] then None else Some (TTable t))"
  "map_of (canonical p) ''version'' = Some (TInt (fragment_version p))"
  by (simp_all add: canonical_def map_add_def map_of_head Let_def) (simp add: head_entries_def Let_def)

lemma canonical_credentials_keys:
  assumes "writable p"
  shows "fst ` set (canonical_credentials (get_table p ''credentials'')) = fst ` set (get_table p ''credentials'')"
proof -
  let ?c = "get_table p ''credentials''"
  have "fst ` set (credential_tables ?c) = fst ` set (filter (\<lambda>(k, v). is_table v) ?c)"
    using mset_eq_setD [OF credential_tables_ok(2) [OF assms]] by simp
  moreover have "set (lookup_entries (sortedKeys (scalar_entries ?c)) (scalar_entries ?c)) = set (scalar_entries ?c)"
    using mset_eq_setD [OF scalar_entries_facts(2) [OF writable_credentials [OF assms]]] .
  moreover have "fst ` set (filter (\<lambda>(k, v). \<not> is_table v) ?c) \<union> fst ` set (filter (\<lambda>(k, v). is_table v) ?c) = fst ` set ?c"
    by force
  ultimately show ?thesis
    by (simp add: canonical_credentials_def Let_def image_Un scalar_entries_def image_image case_prod_beta)
qed

lemma validate_endpoints_cong: "map_of t = map_of u \<Longrightarrow> validate_endpoints t ks = validate_endpoints u ks"
  by (induction ks) (auto split: option.splits tval.splits)

lemma canonical_valid:
  assumes "writable p" "validatePolicyDocuments p = None" "validatePolicyCredentials keys p = None" "validatePolicyNetwork p = None"
  shows "validatePolicyDocuments (canonical p) = None" "validatePolicyCredentials keys (canonical p) = None"
    "validatePolicyNetwork (canonical p) = None"
proof -
  have "fst ` set (lookup_entries DocumentKeys t) \<subseteq> set DocumentKeys" for t
    using lookup_entries_keys [of DocumentKeys t] by (metis filter_is_subset list.set_map)
  then show "validatePolicyDocuments (canonical p) = None"
    by (simp add: validatePolicyDocuments_def validate_table_def map_of_canonical Let_def validateAllowedKeys_None)
  show "validatePolicyCredentials keys (canonical p) = None"
    using validate_table_None [OF assms(3) [unfolded validatePolicyCredentials_def]]
    by (simp add: validatePolicyCredentials_def validate_table_def map_of_canonical Let_def validateAllowedKeys_None
        canonical_credentials_keys [OF assms(1)])
  let ?n = "get_table p ''network''"
  have m: "mset (ordered_entries networkKeys ?n) = mset ?n" "distinct (map fst ?n)"
    using table_perms(2) [OF assms(1)] writable_table [OF assms(1)] by (simp_all add: entries_ok_def)
  show "validatePolicyNetwork (canonical p) = None"
  proof (cases "?n = []")
    case True
    then show ?thesis using mset_Nil_iff [OF m(1)] by (simp add: validatePolicyNetwork_def map_of_canonical Let_def)
  next
    case False
    then have "map_of p ''network'' = Some (TTable ?n)"
      by (cases "map_of p ''network''") (auto simp: get_table_def split: tval.splits)
    then have "validateAllowedKeys ?n networkKeys ''network'' = None" "validate_endpoints ?n networkKeys = None"
      using assms(4) by (auto simp: validatePolicyNetwork_def split: option.splits)
    then have "validateAllowedKeys (ordered_entries networkKeys ?n) networkKeys ''network'' = None"
      "validate_endpoints (ordered_entries networkKeys ?n) networkKeys = None"
      using mset_eq_setD [OF m(1)] validate_endpoints_cong [OF map_of_perm [OF m]] by (simp_all add: validateAllowedKeys_None)
    then show ?thesis by (simp add: validatePolicyNetwork_def map_of_canonical Let_def)
  qed
qed

definition same_entry :: "string \<times> tval \<Rightarrow> string \<times> tval \<Rightarrow> bool" where
  "same_entry a b \<longleftrightarrow> fst a = fst b \<and> same_value (snd a) (snd b)"

lemma same_tableI: "mset t' = mset t \<Longrightarrow> list_all2 same_entry t' u \<Longrightarrow> same_value (TTable t) (TTable u)"
  unfolding same_entry_def by (rule same_table)

lemma credentials_same:
  assumes "writable p"
  shows "same_value (TTable (get_table p ''credentials'')) (TTable (canonical_credentials (get_table p ''credentials'')))"
proof -
  let ?c = "get_table p ''credentials''"
  note c = writable_credentials [OF assms]
  define S where "S = lookup_entries (sortedKeys (scalar_entries ?c)) (scalar_entries ?c)"
  obtain ts where ts: "mset ts = mset (filter (\<lambda>(k, v). is_table v) ?c)"
    "list_all2 (\<lambda>a b. \<exists>t. a = (fst b, TTable t) \<and> mset (snd b) = mset t \<and> entries_ok t \<and> bare (fst b)) ts (credential_tables ?c)"
    using credential_tables_facts [OF c] by blast
  have "mset (S @ ts) = mset (filter (\<lambda>(k, v). \<not> is_table v) ?c) + mset (filter (\<lambda>(k, v). is_table v) ?c)"
    using scalar_entries_facts(2) [OF c] ts(1) by (simp add: S_def scalar_entries_def)
  also have "\<dots> = mset ?c"
    using multiset_partition [of "mset ?c" "\<lambda>(k, v). is_table v"] by (simp add: case_prod_beta mset_filter add.commute)
  finally have "mset (S @ ts) = mset ?c" .
  moreover have "list_all2 same_entry ts (map (\<lambda>(k, t). (k, TTable t)) (credential_tables ?c))"
    unfolding list_all2_map2
    by (rule list_all2_mono [OF ts(2)]) (auto simp: same_entry_def intro: perm_same)
  then have "list_all2 same_entry (S @ ts) (canonical_credentials ?c)"
    unfolding canonical_credentials_def Let_def S_def
    by (intro list_all2_appendI list_all2_refl) (simp_all add: same_entry_def same_refl)
  ultimately show ?thesis by (rule same_tableI)
qed

lemma map_of_live:
  assumes "distinct (map fst p)"
  shows "map_of (live p) k =
    (case map_of p k of None \<Rightarrow> None | Some v \<Rightarrow> if v \<noteq> TTable [] \<and> v \<noteq> TArr [] then Some v else None)"
  using assms by (induction p) (auto simp: live_def map_of_eq_None_iff image_iff split: option.splits)

definition piece :: "table \<Rightarrow> string \<Rightarrow> table" where
  "piece p k = (case map_of (live p) k of None \<Rightarrow> [] | Some v \<Rightarrow> [(k, v)])"

lemma piece_table:
  assumes "writable p" "T \<in> set [''documents'', ''credentials'', ''ssh'', ''network'']"
    "same_value (TTable (get_table p T)) (TTable t)" "t = [] \<longleftrightarrow> get_table p T = []"
  shows "list_all2 same_entry (piece p T) (put_section T t)"
proof (cases "map_of p T")
  case None
  then have "get_table p T = []" by simp
  then show ?thesis using None assms(1,4) by (simp add: piece_def map_of_live writable_def put_section_def)
next
  case (Some v)
  have T: "T \<noteq> ''version''" "T \<noteq> ''copies''" "T \<noteq> ''includes''" using assms(2) by auto
  have "root_entry_ok (T, v)" using writable_entry [OF assms(1) Some] .
  then obtain u where "v = TTable u" using T by (cases v) (simp_all add: root_entry_ok_def)
  then show ?thesis using Some assms
    by (auto simp: piece_def map_of_live writable_def put_section_def get_table_def same_entry_def)
qed

lemma piece_array:
  assumes "writable p" "T \<in> set [''includes'', ''copies'']" "list_all2 same_value (get_array p T) vs"
  shows "list_all2 same_entry (piece p T) (if get_array p T = [] then [] else [(T, TArr vs)])"
proof (cases "map_of p T")
  case None
  then show ?thesis using assms(1) by (simp add: piece_def map_of_live writable_def)
next
  case (Some v)
  have T: "T \<noteq> ''version''" "T \<noteq> ''credentials''" "T \<notin> set [''documents'', ''ssh'', ''network'']" using assms(2) by auto
  have "root_entry_ok (T, v)" using writable_entry [OF assms(1) Some] .
  then obtain ws where "v = TArr ws" using T by (cases v) (simp_all add: root_entry_ok_def)
  then show ?thesis using Some assms
    by (auto simp: piece_def map_of_live writable_def get_array_def same_entry_def intro: same_array)
qed

lemma canonical_same:
  assumes "writable p" "validatePolicyDocuments p = None"
  shows "same_value (TTable (live p)) (TTable (canonical p))"
proof -
  let ?ks = "[''version'', ''includes'', ''documents'', ''credentials'', ''ssh'', ''network'', ''copies'']"
  have d: "distinct (map fst p)" "list_all root_entry_ok p" "map_of p ''version'' = Some (TInt 1)"
    using assms(1) by (auto simp: writable_def)
  have "fst ` set (live p) \<subseteq> set ?ks"
  proof
    fix k assume "k \<in> fst ` set (live p)"
    then obtain v where "root_entry_ok (k, v)" using d(2) by (auto simp: live_def list_all_iff)
    then show "k \<in> set ?ks" by (cases v) (auto simp: root_entry_ok_def split: if_splits)
  qed
  then have perm: "mset (lookup_entries ?ks (live p)) = mset (live p)"
    using d(1) by (intro lookup_entries_perm) (auto simp: live_def distinct_map_filter)
  have "list_all2 same_entry (piece p ''version'') [(''version'', TInt 1)]"
    using d by (simp add: piece_def map_of_live same_entry_def same_refl)
  moreover have "list_all2 same_entry (piece p ''includes'')
      (if get_array p ''includes'' = [] then [] else [(''includes'', TArr (get_array p ''includes''))])"
    by (rule piece_array [OF assms(1)]) (auto intro: list_all2_refl same_refl)
  moreover have "list_all2 same_entry (piece p ''copies'')
      (if get_array p ''copies'' = [] then [] else [(''copies'', TArr (map TTable (copies_entries p)))])"
    by (rule piece_array [OF assms(1)]) (use copies_entries_ok(3) [OF assms(1)] in auto)
  moreover have "list_all2 same_entry (piece p ''documents'') (put_section ''documents'' (lookup_entries DocumentKeys (get_table p ''documents'')))"
    using documents_perm [OF assms] by (intro piece_table [OF assms(1)]) (auto intro: perm_same dest: mset_Nil_iff)
  moreover have "list_all2 same_entry (piece p ''ssh'') (put_section ''ssh'' (ordered_entries ssh_order (get_table p ''ssh'')))"
    using table_perms(1) [OF assms(1)] by (intro piece_table [OF assms(1)]) (auto intro: perm_same dest: mset_Nil_iff)
  moreover have "list_all2 same_entry (piece p ''network'') (put_section ''network'' (ordered_entries networkKeys (get_table p ''network'')))"
    using table_perms(2) [OF assms(1)] by (intro piece_table [OF assms(1)]) (auto intro: perm_same dest: mset_Nil_iff)
  moreover have "list_all2 same_entry (piece p ''credentials'') (put_section ''credentials'' (canonical_credentials (get_table p ''credentials'')))"
    using credentials_same [OF assms(1)] canonical_credentials_keys [OF assms(1)]
    by (intro piece_table [OF assms(1)]) auto
  ultimately have "list_all2 same_entry
      (piece p ''version'' @ piece p ''includes'' @ piece p ''documents'' @ piece p ''credentials'' @ piece p ''ssh'' @ piece p ''network'' @ piece p ''copies'')
      ([(''version'', TInt 1)] @ (if get_array p ''includes'' = [] then [] else [(''includes'', TArr (get_array p ''includes''))]) @
       put_section ''documents'' (lookup_entries DocumentKeys (get_table p ''documents'')) @
       put_section ''credentials'' (canonical_credentials (get_table p ''credentials'')) @
       put_section ''ssh'' (ordered_entries ssh_order (get_table p ''ssh'')) @
       put_section ''network'' (ordered_entries networkKeys (get_table p ''network'')) @
       (if get_array p ''copies'' = [] then [] else [(''copies'', TArr (map TTable (copies_entries p)))]))"
    by (intro list_all2_appendI)
  moreover have "lookup_entries ?ks (live p) = piece p ''version'' @ piece p ''includes'' @ piece p ''documents'' @
      piece p ''credentials'' @ piece p ''ssh'' @ piece p ''network'' @ piece p ''copies''"
    by (simp add: lookup_entries_def piece_def)
  moreover have "head_entries p = [(''version'', TInt 1)] @
      (if get_array p ''includes'' = [] then [] else [(''includes'', TArr (get_array p ''includes''))])"
    using d(3) by (simp add: head_entries_def fragment_version_def Let_def)
  ultimately have "list_all2 same_entry (lookup_entries ?ks (live p)) (canonical p)"
    by (simp only: canonical_def append_assoc)
  with perm show ?thesis by (rule same_tableI)
qed

section \<open>Properties\<close>

text \<open>
  C32: a written policy is read back as the same policy. For a policy of version 1 whose values can be written,
  whose keys are bare and that the validators accept, \<open>renderPolicyTOML\<close> succeeds and \<open>loadRawPolicy\<close> reads from
  the rendered file a policy that is equal to it as a map of maps, \<open>[[copies]]\<close> blocks and credential tables
  included; only empty sections are dropped.
\<close>

theorem renderPolicyTOML_roundtrip:
  assumes "writable p"
    and "validate_all [validatePolicyDocuments, validatePolicyCredentials keys, validatePolicyNetwork] p = None"
  shows "\<exists>content q. renderPolicyTOML keys p = Inr content \<and> loadRawPolicy keys (Some content) missing path = Inr q \<and>
    same_value (TTable (live p)) (TTable q)"
proof -
  have v: "validatePolicyDocuments p = None" "validatePolicyCredentials keys p = None" "validatePolicyNetwork p = None"
    using assms(2) by (auto simp: validate_all_None)
  note cv = canonical_valid [OF assms(1) v]
  let ?content = "join [NL] (file_lines (head_entries p) (named_sections p) (copies_entries p) (network_section p)) @ [NL]"
  have "renderPolicyTOML keys p = Inr ?content"
    using policy_lines_ok [OF assms(1) v(1)] assms(2) by (simp add: renderPolicyTOML_def)
  moreover have "validate_all [validatePolicyDocuments, validatePolicyCredentials keys, validatePolicyNetwork] (canonical p) = None"
    using cv by (simp add: validate_all_None)
  then have "parseTOMLSubset keys ?content path = Inr (canonical p)"
    using parse_written [OF assms(1) v(1,2)] by (simp add: parseTOMLSubset_def)
  moreover have "fst ` set (canonical p) \<subseteq> set RootPolicyKeys"
    by (auto simp: canonical_def head_entries_def put_section_def RootPolicyKeys_def Let_def split: if_splits)
  then have "validate_all [\<lambda>p. validateAllowedKeys p RootPolicyKeys ''root policy'', validatePolicyCredentials keys,
      validatePolicyNetwork] (canonical p) = None"
    using cv by (simp add: validate_all_None validateAllowedKeys_None)
  moreover have "map_of (canonical p) ''version'' = Some (TInt 1)"
    using assms(1) by (simp add: map_of_canonical writable_def fragment_version_def)
  ultimately show ?thesis
    using canonical_same [OF assms(1) v(1)] by (simp add: loadRawPolicy_def fragment_version_def)
qed

definition sample_policy :: table where
  "sample_policy =
     [(''ssh'', TTable [(''zeta'', TInt (-3)), (''identities'', TArr [TString ''~/.ssh/id''])]),
      (''network'', TTable []),
      (''credentials'', TTable [(''zkey'', TTable [(''source'', TString ''/a # b'')]), (''key'', TString ''/c'')]),
      (''copies'', TArr [TTable [(''target'', TString ''/t''), (''source'', TString [DQUOTE, NL])], TTable []]),
      (''documents'', TTable [(''codex'', TString ''x''), (''common'', TString ''y'')]),
      (''version'', TInt 1)]"

theorem renderPolicyTOML_roundtrip_witness:
  "\<exists>content q. renderPolicyTOML [''key'', ''zkey''] sample_policy = Inr content \<and>
    loadRawPolicy [''key'', ''zkey''] (Some content) False ''policy.toml'' = Inr q \<and>
    same_value (TTable (live sample_policy)) (TTable q)"
proof (rule renderPolicyTOML_roundtrip)
  show "writable sample_policy" by code_simp
  show "validate_all [validatePolicyDocuments, validatePolicyCredentials [''key'', ''zkey''], validatePolicyNetwork]
      sample_policy = None"
    by code_simp
qed

end
