(* ===== verification/Audit_Line.thy ===== *)
theory Audit_Line
  imports Go_Runes
begin

text \<open>
  The two encodings of an audit record and their decoders: bash \<open>printf %q\<close> quoting
  (\<open>internal/publishpr/host_exec.go\<close>, decoded by \<open>internal/ocsf/auditline.go\<close>) and the
  percent-encoded path fields of \<open>internal/applecontainer/audit.go\<close>; the strict decoder of
  \<open>internal/ocsf/decode.go\<close> that the chain verifier uses. A Go \<open>[]rune\<close> is a list of
  runes, an index into it the list that starts there; \<open>cur\<close> is the content of the string
  builder.
\<close>

section \<open>Percent-encoded path values\<close>

definition pct :: "char \<Rightarrow> string" where
  "pct c = [CHR ''%'', hex_upper (byte c div 16), hex_upper (byte c mod 16)]"

definition encodeAuditPathValue :: "string \<Rightarrow> string" where
  "encodeAuditPathValue v =
     concat (map (\<lambda>c. if c = CHR ''%'' \<or> byte c \<le> 0x20 \<or> 0x7f \<le> byte c then pct c else [c]) v)"

fun decodeAuditPathValue :: "string \<Rightarrow> string" where
  "decodeAuditPathValue [] = []"
| "decodeAuditPathValue (c # h # l # s) =
     (case (unhex h, unhex l) of
        (Some x, Some y) \<Rightarrow>
          if c = CHR ''%'' then char_of (16 * x + y) # decodeAuditPathValue s
          else c # decodeAuditPathValue (h # l # s)
      | _ \<Rightarrow> c # decodeAuditPathValue (h # l # s))"
| "decodeAuditPathValue (c # s) = c # decodeAuditPathValue s"

definition percentEncodedAuditFields :: "string list" where
  "percentEncodedAuditFields = [''workspace'', ''workspace_origin'']"

definition DecodeAuditFieldValue :: "string \<Rightarrow> string \<Rightarrow> string" where
  "DecodeAuditFieldValue key v =
     (if key \<in> set percentEncodedAuditFields then decodeAuditPathValue v else v)"

section \<open>bash quoting\<close>

definition isShellSafeRune :: "rune \<Rightarrow> bool" where
  "isShellSafeRune r \<longleftrightarrow>
     97 \<le> r \<and> r \<le> 122 \<or> 65 \<le> r \<and> r \<le> 90 \<or> 48 \<le> r \<and> r \<le> 57 \<or>
     r \<in> set (map byte ''%+,-./:=@_'')"

definition unprintable :: "rune \<Rightarrow> bool" where
  "unprintable r \<longleftrightarrow> r < 0x20 \<or> r = 0x7f"

definition hasUnprintable :: "string \<Rightarrow> bool" where
  "hasUnprintable s \<longleftrightarrow> list_ex unprintable (runes s)"

definition isShellSafe :: "string \<Rightarrow> bool" where
  "isShellSafe s \<longleftrightarrow> list_all isShellSafeRune (runes s)"

text \<open>\<open>fmt.Sprintf("%03o", r)\<close> of a rune below \<open>0x80\<close>.\<close>

definition octal3 :: "rune \<Rightarrow> string" where
  "octal3 r = [char_of (48 + r div 64), char_of (48 + r div 8 mod 8), char_of (48 + r mod 8)]"

definition ansi_rune :: "rune \<Rightarrow> string" where
  "ansi_rune r =
     (if r = 10 then [BSLASH, CHR ''n''] else if r = 9 then [BSLASH, CHR ''t'']
      else if r = 13 then [BSLASH, CHR ''r''] else if r = byte BSLASH then [BSLASH, BSLASH]
      else if r = byte SQUOTE then [BSLASH, SQUOTE]
      else if unprintable r then BSLASH # octal3 r
      else EncodeRune r)"

definition bashQuote :: "string \<Rightarrow> string" where
  "bashQuote s =
     (if s = [] then [SQUOTE, SQUOTE]
      else if hasUnprintable s then
        [CHR ''$'', SQUOTE] @ concat (map ansi_rune (runes s)) @ [SQUOTE]
      else if isShellSafe s then s
      else concat (map (\<lambda>r. if isShellSafeRune r then EncodeRune r else BSLASH # EncodeRune r) (runes s)))"

definition EmitCommand :: "string list \<Rightarrow> string" where
  "EmitCommand args = ''  '' @ concat (map (\<lambda>arg. bashQuote arg @ '' '') args) @ [NL]"

section \<open>The bash tokenizer\<close>

definition isOctal :: "rune \<Rightarrow> bool" where
  "isOctal r \<longleftrightarrow> 48 \<le> r \<and> r \<le> 55"

definition ansi_control :: "rune \<Rightarrow> rune option" where
  "ansi_control n =
     map_of [(byte CHR ''a'', 7), (byte CHR ''b'', 8), (byte CHR ''e'', 27), (byte CHR ''E'', 27),
       (byte CHR ''f'', 12), (byte CHR ''n'', 10), (byte CHR ''r'', 13), (byte CHR ''t'', 9),
       (byte CHR ''v'', 11), (byte BSLASH, byte BSLASH), (byte SQUOTE, byte SQUOTE)] n"

text \<open>The decoded block and the runes after the closing quote, \<open>None\<close> where it is unterminated.\<close>

function decodeAnsiC :: "string \<Rightarrow> rune list \<Rightarrow> (string \<times> rune list) option" where
  "decodeAnsiC b [] = None"
| "decodeAnsiC b (r # rs) =
     (if r = byte SQUOTE then Some (b, rs)
      else if r = byte BSLASH \<and> rs \<noteq> [] then
        (let n = hd rs in
         case ansi_control n of
           Some x \<Rightarrow> decodeAnsiC (b @ EncodeRune x) (tl rs)
         | None \<Rightarrow>
             if isOctal n \<and> 2 < length rs \<and> isOctal (rs ! 1) \<and> isOctal (rs ! 2) then
               decodeAnsiC (b @ [char_of ((n - 48) * 64 + (rs ! 1 - 48) * 8 + (rs ! 2 - 48))])
                 (drop 3 rs)
             else decodeAnsiC (b @ EncodeRune n) (tl rs))
      else decodeAnsiC (b @ EncodeRune r) rs)"
  by pat_completeness auto
termination
  by (relation "measure (length \<circ> snd)") (auto simp: less_Suc_eq_le intro: le_trans)

lemma decodeAnsiC_shorter: "decodeAnsiC b rs = Some (d, rest) \<Longrightarrow> length rest < length rs"
proof (induction b rs rule: decodeAnsiC.induct)
  case (2 b r rs)
  then show ?case
    by (fastforce simp: Let_def less_Suc_eq split: if_splits option.splits)
qed simp

text \<open>The tokens, and whether the line was tokenized to its end.\<close>

function split_tokens :: "string \<Rightarrow> bool \<Rightarrow> rune list \<Rightarrow> string list \<times> bool" where
  "split_tokens cur inToken [] = (if inToken then [cur] else [], True)"
| "split_tokens cur inToken (r # rs) =
     (if r = byte CHR '' '' \<or> r = 9 then
        (if inToken then (case split_tokens [] False rs of (tokens, ok) \<Rightarrow> (cur # tokens, ok))
         else split_tokens cur False rs)
      else if r = byte BSLASH then
        (case rs of [] \<Rightarrow> split_tokens (cur @ [BSLASH]) True []
         | n # rs' \<Rightarrow> split_tokens (cur @ EncodeRune n) True rs')
      else if r = byte CHR ''$'' \<and> rs \<noteq> [] \<and> hd rs = byte SQUOTE then
        (case decodeAnsiC [] (tl rs) of
           None \<Rightarrow> ([], False)
         | Some (decoded, rest) \<Rightarrow> split_tokens (cur @ decoded) True rest)
      else if r = byte SQUOTE \<and> rs \<noteq> [] \<and> hd rs = byte SQUOTE then
        split_tokens cur True (tl rs)
      else split_tokens (cur @ EncodeRune r) True rs)"
  by pat_completeness auto
termination
proof (relation "measure (\<lambda>(cur, inToken, rs). length rs)", goal_cases)
  case (6 cur inToken r rs x decoded rest)
  then show ?case using decodeAnsiC_shorter [of "[]" "tl rs"] by fastforce
qed auto

definition splitQuotedTokens :: "string \<Rightarrow> string list \<times> bool" where
  "splitQuotedTokens line = split_tokens [] False (runes line)"

section \<open>Decoding a line into fields\<close>

datatype auditEncoding = encodingBashQuote | encodingPercentPath

definition auditEncodingForProvider :: "string \<Rightarrow> auditEncoding" where
  "auditEncodingForProvider provider =
     (if TrimSpace provider = ''apple-container'' then encodingPercentPath else encodingBashQuote)"

record AuditField =
  af_key :: string
  af_value :: string

datatype audit_error =
    Untokenizable
  | NulInToken string
  | BareToken string
  | DuplicateAuditKey string
  | DecodedNul string

definition audit_tokens :: "auditEncoding \<Rightarrow> string \<Rightarrow> string list \<times> bool" where
  "audit_tokens enc line =
     (if enc = encodingPercentPath then (Fields line, True) else splitQuotedTokens line)"

fun lenient_fields ::
  "auditEncoding \<Rightarrow> string list \<Rightarrow> string list \<Rightarrow> (audit_error, AuditField list) result" where
  "lenient_fields enc seen [] = Inr []"
| "lenient_fields enc seen (tok # toks) =
     (case cut CHR ''='' tok of
        None \<Rightarrow> lenient_fields enc seen toks
      | Some (key, v) \<Rightarrow>
          if key \<in> set seen then Inl (DuplicateAuditKey key)
          else
            (let v' = (if enc = encodingPercentPath then DecodeAuditFieldValue key v else v) in
             case lenient_fields enc (key # seen) toks of
               Inl e \<Rightarrow> Inl e
             | Inr fs \<Rightarrow> Inr (\<lparr>af_key = key, af_value = v'\<rparr> # fs)))"

definition decodeAuditLine :: "string \<Rightarrow> auditEncoding \<Rightarrow> (audit_error, AuditField list) result" where
  "decodeAuditLine line enc =
     (case audit_tokens enc line of
        (tokens, ok) \<Rightarrow> if ok then lenient_fields enc [] tokens else Inl Untokenizable)"

fun strict_fields ::
  "auditEncoding \<Rightarrow> string list \<Rightarrow> string list \<Rightarrow> (audit_error, AuditField list) result" where
  "strict_fields enc seen [] = Inr []"
| "strict_fields enc seen (tok # toks) =
     (if NUL \<in> set tok then Inl (NulInToken tok)
      else case cut CHR ''='' tok of
        None \<Rightarrow> Inl (BareToken tok)
      | Some (key, v) \<Rightarrow>
          if key \<in> set seen then Inl (DuplicateAuditKey key)
          else
            (let v' = (if enc = encodingPercentPath then DecodeAuditFieldValue key v else v) in
             if enc = encodingPercentPath \<and> NUL \<in> set v' then Inl (DecodedNul key)
             else case strict_fields enc (key # seen) toks of
                    Inl e \<Rightarrow> Inl e
                  | Inr fs \<Rightarrow> Inr (\<lparr>af_key = key, af_value = v'\<rparr> # fs)))"

definition DecodeAuditLineStrict ::
  "string \<Rightarrow> string \<Rightarrow> (audit_error, AuditField list) result" where
  "DecodeAuditLineStrict line targetProvider =
     (let enc = auditEncodingForProvider targetProvider in
      case audit_tokens enc line of
        (tokens, ok) \<Rightarrow> if ok then strict_fields enc [] tokens else Inl Untokenizable)"

definition AuditLineClaimsSession :: "string \<Rightarrow> string \<Rightarrow> string \<Rightarrow> bool" where
  "AuditLineClaimsSession line targetProvider sessionID =
     list_ex (\<lambda>tok. list_ex (\<lambda>seg. cut CHR ''='' seg = Some (''session_id'', sessionID))
        (split_on NUL tok))
       (fst (audit_tokens (auditEncodingForProvider targetProvider) line))"

definition AuditLineTokenizable :: "string \<Rightarrow> string \<Rightarrow> bool" where
  "AuditLineTokenizable line targetProvider =
     snd (audit_tokens (auditEncodingForProvider targetProvider) line)"

section \<open>The percent encoding round trip\<close>

lemma decode_pct: "decodeAuditPathValue (pct c @ s) = c # decodeAuditPathValue s"
  using byte_div16 [of c] by (simp add: pct_def unhex_hex_upper)

lemma decode_plain:
  "c \<noteq> CHR ''%'' \<Longrightarrow> decodeAuditPathValue (c # s) = c # decodeAuditPathValue s"
  by (cases "c # s" rule: decodeAuditPathValue.cases) (auto split: option.splits)

lemma decode_encode: "decodeAuditPathValue (encodeAuditPathValue v) = v"
  by (induction v) (auto simp: encodeAuditPathValue_def decode_pct decode_plain)

lemma hex_upper_graphic: "n < 16 \<Longrightarrow> graphic (hex_upper n)"
  by (auto simp: hex_upper_def graphic_def)

lemma encode_graphic: "list_all graphic (encodeAuditPathValue v)"
proof (induction v)
  case (Cons c v)
  have "list_all graphic (pct c)"
    using byte_div16 [of c] by (simp add: pct_def hex_upper_graphic) (simp add: graphic_def)
  moreover have "\<not> (c = CHR ''%'' \<or> byte c \<le> 0x20 \<or> 0x7f \<le> byte c) \<Longrightarrow> graphic c"
    by (simp add: graphic_def)
  ultimately show ?case using Cons by (auto simp: encodeAuditPathValue_def)
qed (simp add: encodeAuditPathValue_def)

section \<open>The bash quoting round trip\<close>

lemma runes_of_runes_append: "list_all ValidRune rs \<Longrightarrow> runes (of_runes rs @ s) = rs @ runes s"
  by (induction rs) (auto simp: runes_EncodeRune)

text \<open>The quoted form as runes.\<close>

definition ansi_runes :: "rune \<Rightarrow> rune list" where
  "ansi_runes r = (if unprintable r \<or> r = byte BSLASH \<or> r = byte SQUOTE then map byte (ansi_rune r) else [r])"

definition quote_runes :: "rune list \<Rightarrow> rune list" where
  "quote_runes rs =
     (if rs = [] then [byte SQUOTE, byte SQUOTE]
      else if list_ex unprintable rs then
        [byte CHR ''$'', byte SQUOTE] @ concat (map ansi_runes rs) @ [byte SQUOTE]
      else concat (map (\<lambda>r. if isShellSafeRune r then [r] else [byte BSLASH, r]) rs))"

lemma runes_Nil_iff [simp]: "runes s = [] \<longleftrightarrow> s = []"
  by (cases s) auto

lemma of_runes_append [simp]: "of_runes (xs @ ys) = of_runes xs @ of_runes ys"
  by (simp add: of_runes_def)

lemma char_of_byte_consts:
  "char_of (39 :: nat) = SQUOTE" "char_of (36 :: nat) = CHR ''$''" "char_of (92 :: nat) = BSLASH"
  by code_simp+

lemma ansi_rune_ascii:
  "unprintable r \<or> r = byte BSLASH \<or> r = byte SQUOTE \<Longrightarrow> list_all (\<lambda>c. byte c < 0x80) (ansi_rune r)"
  by (auto simp: ansi_rune_def unprintable_def octal3_def)

lemma of_runes_ansi: "of_runes (ansi_runes r) = ansi_rune r"
proof (cases "unprintable r \<or> r = byte BSLASH \<or> r = byte SQUOTE")
  case True
  with ansi_rune_ascii show ?thesis by (simp only: ansi_runes_def if_True of_runes_ascii)
next
  case False
  then show ?thesis by (auto simp: ansi_runes_def ansi_rune_def unprintable_def)
qed

lemma of_runes_concat: "of_runes (concat xss) = concat (map of_runes xss)"
  by (induction xss) auto

lemma bashQuote_runes:
  assumes "ValidString t"
  shows "bashQuote t = of_runes (quote_runes (runes t))"
proof -
  have t: "of_runes (runes t) = t" using assms by (simp add: ValidString_def)
  have safe: "list_all isShellSafeRune rs \<Longrightarrow>
    concat (map (\<lambda>r. if isShellSafeRune r then [r] else [byte BSLASH, r]) rs) = rs" for rs
    by (induction rs) auto
  have esc: "of_runes (concat (map (\<lambda>r. if isShellSafeRune r then [r] else [byte BSLASH, r]) rs)) =
    concat (map (\<lambda>r. if isShellSafeRune r then EncodeRune r else BSLASH # EncodeRune r) rs)" for rs
    by (induction rs) (auto simp: char_of_byte_consts)
  consider "t = []" | "t \<noteq> []" "list_ex unprintable (runes t)"
    | "t \<noteq> []" "\<not> list_ex unprintable (runes t)" "isShellSafe t"
    | "t \<noteq> []" "\<not> list_ex unprintable (runes t)" "\<not> isShellSafe t" by blast
  then show ?thesis
  proof cases
    case 1
    then show ?thesis by (simp add: bashQuote_def quote_runes_def char_of_byte_consts)
  next
    case 2
    then show ?thesis
      by (simp add: bashQuote_def quote_runes_def hasUnprintable_def of_runes_concat of_runes_ansi
          char_of_byte_consts comp_def)
  next
    case 3
    then show ?thesis
      by (simp add: bashQuote_def quote_runes_def hasUnprintable_def safe [unfolded isShellSafe_def]
          isShellSafe_def t)
  next
    case 4
    then show ?thesis
      by (simp add: bashQuote_def quote_runes_def hasUnprintable_def esc del: map_eq_conv)
  qed
qed

lemma ValidRune_ascii: "r < 256 \<Longrightarrow> ValidRune r"
  by (simp add: ValidRune_def)

lemma ValidRune_bytes: "list_all ValidRune (map byte s)"
  by (simp add: list_all_iff ValidRune_ascii byte_less)

lemma quote_runes_Valid: "list_all ValidRune rs \<Longrightarrow> list_all ValidRune (quote_runes rs)"
proof -
  assume v: "list_all ValidRune rs"
  have a: "list_all ValidRune (ansi_runes r)" if "ValidRune r" for r
    using that ValidRune_bytes by (simp add: ansi_runes_def)
  have "list_all ValidRune (concat (map ansi_runes rs))"
    using v a by (induction rs) auto
  moreover have "list_all ValidRune
      (concat (map (\<lambda>r. if isShellSafeRune r then [r] else [byte BSLASH, r]) rs))"
    using v by (induction rs) (auto simp: ValidRune_ascii)
  ultimately show ?thesis by (simp add: quote_runes_def ValidRune_ascii)
qed

lemma octal_digits: "r div 64 * 64 + (r div 8 mod 8) * 8 + r mod 8 = (r :: nat)"
proof -
  have "8 * (r div 8) + r mod 8 = r" "8 * (r div 8 div 8) + r div 8 mod 8 = r div 8"
    by simp_all
  moreover have "r div 8 div 8 = r div 64" by (simp flip: div_mult2_eq)
  ultimately show ?thesis by linarith
qed

lemma decodeAnsiC_octal:
  assumes "d < 2" "e < 8" "f < 8"
  shows "decodeAnsiC b (92 # (48 + d) # (48 + e) # (48 + f) # rest) =
    decodeAnsiC (b @ [char_of (d * 64 + e * 8 + f)]) rest"
proof -
  have "d = 0 \<or> d = 1" using assms by auto
  then have "ansi_control (48 + d) = None" by (auto simp: ansi_control_def)
  then show ?thesis using assms by (simp add: isOctal_def numeral_2_eq_2 numeral_3_eq_3)
qed

lemma decodeAnsiC_rune:
  assumes "ValidRune r"
  shows "decodeAnsiC b (ansi_runes r @ rest) = decodeAnsiC (b @ EncodeRune r) rest"
proof -
  consider "r = 10 \<or> r = 9 \<or> r = 13 \<or> r = 92 \<or> r = 39"
    | "unprintable r" "r \<noteq> 10" "r \<noteq> 9" "r \<noteq> 13" "r \<noteq> 92" "r \<noteq> 39"
    | "\<not> unprintable r" "r \<noteq> 92" "r \<noteq> 39"
    by (auto simp: unprintable_def)
  then show ?thesis
  proof cases
    case 1
    then show ?thesis
      by (auto simp: ansi_runes_def ansi_rune_def unprintable_def ansi_control_def)
  next
    case 2
    then have r: "r < 128" by (auto simp: unprintable_def)
    then have m: "r div 64 < 2" "r div 8 mod 8 < 8" "r mod 8 < 8" by simp_all
    have "ansi_runes r = [92, 48 + r div 64, 48 + r div 8 mod 8, 48 + r mod 8]"
      using 2 m r by (simp add: ansi_runes_def ansi_rune_def octal3_def)
    then show ?thesis using decodeAnsiC_octal [OF m] r octal_digits [of r] by simp
  next
    case 3
    then show ?thesis by (simp add: ansi_runes_def)
  qed
qed

lemma decodeAnsiC_block:
  assumes "list_all ValidRune rs"
  shows "decodeAnsiC b (concat (map ansi_runes rs) @ 39 # rest) = Some (b @ of_runes rs, rest)"
  using assms by (induction rs arbitrary: b) (auto simp: decodeAnsiC_rune simp del: decodeAnsiC.simps(2), simp)

lemma split_plain:
  assumes "\<not> list_ex unprintable rs"
  shows "split_tokens cur True
      (concat (map (\<lambda>r. if isShellSafeRune r then [r] else [byte BSLASH, r]) rs) @ rest) =
    split_tokens (cur @ of_runes rs) True rest"
  using assms
proof (induction rs arbitrary: cur)
  case (Cons r rs)
  then have "isShellSafeRune r \<Longrightarrow> r \<noteq> 32 \<and> r \<noteq> 9 \<and> r \<noteq> 92 \<and> r \<noteq> 36 \<and> r \<noteq> 39"
    by (auto simp: isShellSafeRune_def)
  with Cons show ?case by simp
qed simp

lemma split_enter: "r \<noteq> 32 \<Longrightarrow> r \<noteq> 9 \<Longrightarrow> split_tokens cur b (r # rs) = split_tokens cur True (r # rs)"
  by simp

lemma quote_runes_first: "\<exists>r ys. quote_runes rs = r # ys \<and> r \<noteq> 32 \<and> r \<noteq> 9"
  by (cases rs) (auto simp: quote_runes_def isShellSafeRune_def unprintable_def)

lemma split_quote:
  assumes "list_all ValidRune rs"
  shows "split_tokens cur b (quote_runes rs @ rest) = split_tokens (cur @ of_runes rs) True rest"
proof -
  obtain r ys where "quote_runes rs = r # ys" "r \<noteq> 32" "r \<noteq> 9" using quote_runes_first by metis
  then have "split_tokens cur b (quote_runes rs @ rest) = split_tokens cur True (quote_runes rs @ rest)"
    using split_enter [of r cur b "ys @ rest"] by simp
  also have "\<dots> = split_tokens (cur @ of_runes rs) True rest"
  proof (cases "rs = [] \<or> list_ex unprintable rs")
    case True
    then show ?thesis
    proof
      assume "rs = []"
      then show ?thesis by (simp add: quote_runes_def)
    next
      assume u: "list_ex unprintable rs"
      then have "rs \<noteq> []" by auto
      with u show ?thesis
        using decodeAnsiC_block [OF assms, of "[]" rest] by (simp add: quote_runes_def)
    qed
  next
    case False
    then show ?thesis using split_plain [of rs cur rest] by (simp add: quote_runes_def)
  qed
  finally show ?thesis .
qed

lemma runes_bashQuote:
  assumes "ValidString t"
  shows "runes (bashQuote t @ s) = quote_runes (runes t) @ runes s"
  using assms by (simp add: bashQuote_runes runes_of_runes_append quote_runes_Valid runes_Valid)

lemma runes_space: "byte c < 0x80 \<Longrightarrow> runes (c # s) = byte c # runes s"
  by (simp add: DecodeRune_def)

lemma split_command:
  assumes "list_all ValidString args"
  shows "split_tokens [] False (runes (concat (map (\<lambda>arg. bashQuote arg @ '' '') args))) = (args, True)"
  using assms
proof (induction args)
  case (Cons t args)
  then have "of_runes (runes t) = t" by (simp add: ValidString_def)
  with Cons show ?case
    by (simp add: runes_bashQuote runes_space split_quote runes_Valid del: runes.simps)
qed simp

lemma splitQuotedTokens_command:
  assumes "list_all ValidString args"
  shows "splitQuotedTokens (butlast (EmitCommand args)) = (args, True)"
proof -
  have "butlast (EmitCommand args) = ''  '' @ concat (map (\<lambda>arg. bashQuote arg @ '' '') args)"
    by (simp add: EmitCommand_def butlast_append)
  then show ?thesis
    using split_command [OF assms]
    by (simp add: splitQuotedTokens_def runes_space del: runes.simps)
qed

section \<open>Strictly decoded fields\<close>

definition field_token :: "AuditField \<Rightarrow> string" where
  "field_token f = af_key f @ ''='' @ af_value f"

definition field_ok :: "AuditField \<Rightarrow> bool" where
  "field_ok f \<longleftrightarrow> CHR ''='' \<notin> set (af_key f) \<and> NUL \<notin> set (af_key f) \<and> NUL \<notin> set (af_value f)"

text \<open>What one token says: its key, and its value as the encoding of the provider reads it.\<close>

definition token_field :: "auditEncoding \<Rightarrow> string \<Rightarrow> AuditField \<Rightarrow> bool" where
  "token_field enc tok f \<longleftrightarrow>
     (\<exists>raw. tok = af_key f @ ''='' @ raw \<and> NUL \<notin> set tok \<and>
        af_value f = (if enc = encodingPercentPath then DecodeAuditFieldValue (af_key f) raw else raw)) \<and>
     field_ok f"

lemma token_field_cut:
  "token_field enc tok f \<longleftrightarrow>
     NUL \<notin> set tok \<and>
     (\<exists>key v. cut CHR ''='' tok = Some (key, v) \<and>
        (let v' = (if enc = encodingPercentPath then DecodeAuditFieldValue key v else v) in
         \<not> (enc = encodingPercentPath \<and> NUL \<in> set v') \<and> f = \<lparr>af_key = key, af_value = v'\<rparr>))"
  by (cases f) (auto simp: token_field_def field_ok_def cut_Some_iff Let_def)

lemma strict_fields_iff:
  "strict_fields enc seen toks = Inr fs \<longleftrightarrow>
     list_all2 (token_field enc) toks fs \<and> distinct (map af_key fs) \<and> set (map af_key fs) \<inter> set seen = {}"
proof (induction enc seen toks arbitrary: fs rule: strict_fields.induct)
  case (2 enc seen tok toks)
  show ?case
  proof (cases "NUL \<in> set tok \<or> cut CHR ''='' tok = None")
    case True
    then have "\<not> token_field enc tok f" for f unfolding token_field_cut by (auto simp del: cut_None)
    moreover have "strict_fields enc seen (tok # toks) \<noteq> Inr fs"
      using True by (auto simp del: cut_None split: option.splits)
    ultimately show ?thesis by (auto simp: list_all2_Cons1)
  next
    case False
    then obtain key v where n: "NUL \<notin> set tok" and c: "cut CHR ''='' tok = Some (key, v)" by (auto simp del: cut_None)
    let ?v = "if enc = encodingPercentPath then DecodeAuditFieldValue key v else v"
    have tf: "token_field enc tok f \<longleftrightarrow>
        \<not> (enc = encodingPercentPath \<and> NUL \<in> set ?v) \<and> f = \<lparr>af_key = key, af_value = ?v\<rparr>" for f
      using n c by (simp add: token_field_cut Let_def)
    show ?thesis
    proof (cases "key \<in> set seen \<or> enc = encodingPercentPath \<and> NUL \<in> set ?v")
      case True
      then have "strict_fields enc seen (tok # toks) \<noteq> Inr fs" using n c by (auto simp: Let_def)
      moreover have "\<not> token_field enc tok f \<or> af_key f \<in> set seen" for f using True tf by auto
      ultimately show ?thesis by (cases fs) auto
    next
      case False
      then have IH: "strict_fields enc (key # seen) toks = Inr fs' \<longleftrightarrow>
          list_all2 (token_field enc) toks fs' \<and> distinct (map af_key fs') \<and>
          set (map af_key fs') \<inter> set (key # seen) = {}" for fs'
        using "2.IH" [OF n c refl _ refl] by blast
      have sf: "strict_fields enc seen (tok # toks) = Inr fs \<longleftrightarrow>
          (\<exists>fs'. strict_fields enc (key # seen) toks = Inr fs' \<and> fs = \<lparr>af_key = key, af_value = ?v\<rparr> # fs')"
        using n c False by (auto simp: Let_def split: sum.splits)
      have la: "list_all2 (token_field enc) (tok # toks) fs \<longleftrightarrow>
          (\<exists>fs'. fs = \<lparr>af_key = key, af_value = ?v\<rparr> # fs' \<and> list_all2 (token_field enc) toks fs')"
        unfolding list_all2_Cons1 tf using False by blast
      from False have "key \<notin> set seen" by blast
      then show ?thesis unfolding sf la IH by (auto simp: disjoint_iff)
    qed
  qed
qed auto

lemma strict_fields_ok:
  assumes "strict_fields enc seen toks = Inr fs"
  shows "distinct (map af_key fs) \<and> set (map af_key fs) \<inter> set seen = {} \<and> list_all field_ok fs \<and>
    length fs = length toks"
proof -
  have "list_all2 (token_field enc) toks fs" using assms strict_fields_iff by blast
  then have "list_all field_ok fs" "length fs = length toks"
    by (induction rule: list_all2_induct) (auto simp: token_field_def)
  then show ?thesis using assms strict_fields_iff by blast
qed

lemma strict_fields_bash:
  assumes "distinct (map af_key fs)" "set (map af_key fs) \<inter> set seen = {}" "list_all field_ok fs"
  shows "strict_fields encodingBashQuote seen (map field_token fs) = Inr fs"
  using assms
proof (induction fs arbitrary: seen)
  case (Cons f fs)
  have "cut CHR ''='' (field_token f) = Some (af_key f, af_value f)"
    using Cons.prems(3) by (simp add: field_token_def field_ok_def)
  moreover have "NUL \<notin> set (field_token f)"
    using Cons.prems(3) by (simp add: field_token_def field_ok_def)
  moreover have "strict_fields encodingBashQuote (af_key f # seen) (map field_token fs) = Inr fs"
    using Cons.prems by (intro Cons.IH) auto
  ultimately show ?case using Cons.prems by simp
qed simp

section \<open>Properties\<close>

text \<open>
  C5: the tokenizer of the audit readers inverts the launcher's quoting: a command line written
  by \<open>EmitCommand\<close>, whatever spaces, quotes, backslashes, dollar signs, control or multi-byte
  characters its arguments hold, is split into exactly those arguments, and the line is
  tokenizable.
\<close>

theorem bashQuote_roundtrip:
  assumes "list_all ValidString args"
  shows "splitQuotedTokens (butlast (EmitCommand args)) = (args, True)"
  using assms by (rule splitQuotedTokens_command)

definition tricky_args :: "string list" where
  "tricky_args = [[], ''argv=a b'', [SQUOTE, BSLASH, DQUOTE, CHR ''$''], [NL, CHR ''x'', CHR 0x07],
     [CHR 0xC3, CHR 0xA9]]"

theorem bashQuote_roundtrip_witness:
  "list_all ValidString tricky_args \<and>
   splitQuotedTokens (butlast (EmitCommand tricky_args)) = (tricky_args, True)"
proof -
  have "list_all ValidString tricky_args" by code_simp
  then show ?thesis using bashQuote_roundtrip [of tricky_args] by simp
qed

text \<open>
  The percent encoding of a path field is exact on every byte string and safe in a
  whitespace-delimited line: what it writes is printable ASCII with no space, and the decoder of
  a path field gives the original bytes back.
\<close>

theorem encodeAuditPathValue_roundtrip:
  "DecodeAuditFieldValue ''workspace'' (encodeAuditPathValue v) = v \<and>
   DecodeAuditFieldValue ''workspace_origin'' (encodeAuditPathValue v) = v \<and>
   list_all graphic (encodeAuditPathValue v)"
  by (simp add: DecodeAuditFieldValue_def percentEncodedAuditFields_def decode_encode encode_graphic)

text \<open>
  C10: the strict decoder is fail-closed and exact. It accepts a line exactly when the line is tokenizable and
  every token, in order, is \<open>key=raw\<close> without a NUL byte, with keys that are all different, and
  returns one field for each token: its key, and its raw value, which is percent-decoded where the
  provider encodes the field. A bare token, a repeated key and a NUL byte, decoded or not, are refused.
\<close>

theorem DecodeAuditLineStrict_exact:
  "DecodeAuditLineStrict line provider = Inr fs \<longleftrightarrow>
     AuditLineTokenizable line provider \<and>
     list_all2 (token_field (auditEncodingForProvider provider))
       (fst (audit_tokens (auditEncodingForProvider provider) line)) fs \<and>
     distinct (map af_key fs)"
  using strict_fields_iff [of "auditEncodingForProvider provider" "[]"]
  by (cases "audit_tokens (auditEncodingForProvider provider) line")
    (simp add: DecodeAuditLineStrict_def AuditLineTokenizable_def)

end
