(* ===== verification/Audit_Seal.thy ===== *)
theory Audit_Seal
  imports Audit_Line
begin

text \<open>
  The signed audit chain: \<open>AuditRecordDigest\<close> of \<open>internal/host/hoststate\<close>, the bounded
  reader of \<open>internal/host/auditlog\<close> and the verifier and signer of
  \<open>internal/host/auditseal\<close>. The cryptographic packages and the key store are parameters:
  \<open>H\<close> is \<open>sha256.Sum256\<close>, and the record \<open>crypto\<close> has the signature scheme, the
  base64 text encoding and what \<open>internal/host/keystore\<close> loads from the signing directory.
  A log is what opening its path gives: an error or the bytes of the file; a read that fails midway counts as a failed
  open, since either way the caller gets an error and no records.
\<close>

section \<open>The record digest\<close>

definition AuditRecordDigest :: "(string \<Rightarrow> string) \<Rightarrow> string \<Rightarrow> string \<Rightarrow> string list \<Rightarrow> string" where
  "AuditRecordDigest H prevDigest timestamp args =
     hex_encode (H (join [NUL] ([prevDigest, timestamp] @ args)))"

section \<open>The bounded line reader\<close>

definition MaxLineBytes :: nat where "MaxLineBytes = 2 ^ 20"

definition MaxLogBytes :: nat where "MaxLogBytes = 64 * 2 ^ 20"

datatype open_error = NotExist | OpenFailed

datatype read_error = LogTooLarge | LineTooLong nat

text \<open>
  \<open>bufio.Reader.ReadSlice\<close> hands a line out in fragments of the buffer's 64 KiB: the checks
  of one line of \<open>n\<close> bytes, with \<open>tot\<close> bytes read before it. The result is the new total.
\<close>

function charge_line :: "nat \<Rightarrow> nat \<Rightarrow> nat \<Rightarrow> nat \<Rightarrow> (read_error, nat) result" where
  "charge_line lineNumber tot sofar n =
     (let f = min 65536 n in
      if MaxLogBytes < tot + f then Inl LogTooLarge
      else if MaxLineBytes < sofar + f then Inl (LineTooLong (Suc lineNumber))
      else if n \<le> 65536 then Inr (tot + f)
      else charge_line lineNumber (tot + f) (sofar + f) (n - f))"
  by pat_completeness auto
termination by (relation "measure (\<lambda>(_, _, _, n). n)") auto

declare charge_line.simps [simp del]

text \<open>The lines of a file, each with its terminator; the last one may have none.\<close>

fun physical_lines :: "string \<Rightarrow> string list" where
  "physical_lines [] = []"
| "physical_lines (c # cs) =
     (if c = NL then [NL] # physical_lines cs
      else case physical_lines cs of
             [] \<Rightarrow> [[c]]
           | l # ls \<Rightarrow> (c # l) # ls)"

text \<open>
  The loop of \<open>ForEachLine\<close>, with the callback as a function on the caller's state that stops
  with an error of its own.
\<close>

fun for_each_line ::
  "(string \<Rightarrow> 's \<Rightarrow> ('e, 's) result) \<Rightarrow> nat \<Rightarrow> nat \<Rightarrow> string list \<Rightarrow> 's \<Rightarrow> (read_error + 'e, 's) result"
where
  "for_each_line fn lineNumber tot [] st = Inr st"
| "for_each_line fn lineNumber tot (l # ls) st =
     (case charge_line lineNumber tot 0 (length l) of
        Inl e \<Rightarrow> Inl (Inl e)
      | Inr tot' \<Rightarrow>
          (case fn l st of
             Inl e \<Rightarrow> Inl (Inr e)
           | Inr st' \<Rightarrow> for_each_line fn (Suc lineNumber) tot' ls st'))"

definition ForEachLine ::
  "string \<Rightarrow> (string \<Rightarrow> 's \<Rightarrow> ('e, 's) result) \<Rightarrow> 's \<Rightarrow> (read_error + 'e, 's) result" where
  "ForEachLine data fn st = for_each_line fn 0 0 (physical_lines data) st"

section \<open>The chain walk\<close>

record chainRecord =
  cr_timestamp :: string
  cr_prev :: string
  cr_digest :: string
  cr_args :: "string list"

datatype chain_error =
    UndecodableRecord audit_error
  | MissingDigest nat
  | DigestMismatch nat
  | BrokenLink nat
  | UnchainedRecord

datatype walk_error =
    UntokenizableRecord nat
  | MalformedSessionRecord audit_error

datatype seal_error =
    NoAuditLog
  | LogOpenError
  | LogReadError read_error
  | WalkError walk_error
  | NoSessionRecords
  | ChainError chain_error
  | SessionIdRequired
  | KeyUnavailable
  | SignFailed
  | BadSealVersion
  | BadSealAlgorithm
  | SealSessionMismatch
  | BadSignatureEncoding
  | SignatureMismatch
  | RecordOutsideChain chain_error
  | NoSealedHead

record sessionMatch =
  sm_head :: string
  sm_err :: "chain_error option"
  sm_fields :: "AuditField list"

definition add_field :: "AuditField \<Rightarrow> chainRecord \<Rightarrow> chainRecord" where
  "add_field f rec =
     (if af_key f = ''timestamp'' then rec\<lparr>cr_timestamp := af_value f\<rparr>
      else if af_key f = ''prev_digest'' then rec\<lparr>cr_prev := af_value f\<rparr>
      else if af_key f = ''record_digest'' then rec\<lparr>cr_digest := af_value f\<rparr>
      else rec\<lparr>cr_args := cr_args rec @ [field_token f]\<rparr>)"

definition chain_record :: "AuditField list \<Rightarrow> chainRecord" where
  "chain_record fs =
     fold add_field fs \<lparr>cr_timestamp = [], cr_prev = [], cr_digest = [], cr_args = []\<rparr>"

definition has_digest :: "AuditField list \<Rightarrow> bool" where
  "has_digest fs = list_ex (\<lambda>f. af_key f = ''record_digest'') fs"

record walk =
  w_expected :: string
  w_head :: string
  w_started :: bool
  w_err :: "chain_error option"
  w_matches :: "sessionMatch list"
  w_logical :: nat

definition init_walk :: walk where
  "init_walk = \<lparr>w_expected = [], w_head = [], w_started = False, w_err = None, w_matches = [],
     w_logical = 0\<rparr>"

text \<open>The chain verdict of one decoded record: the body of \<open>if chainErr == nil\<close>.\<close>

definition walk_link :: "(string \<Rightarrow> string) \<Rightarrow> nat \<Rightarrow> AuditField list \<Rightarrow> walk \<Rightarrow> walk" where
  "walk_link H i fs w =
     (if w_err w \<noteq> None then w
      else
        (let rec = chain_record fs; started = (w_started w \<or> has_digest fs);
             w = w\<lparr>w_started := started\<rparr> in
         if \<not> started then w
         else if cr_digest rec = [] then w\<lparr>w_err := Some (MissingDigest i)\<rparr>
         else if AuditRecordDigest H (cr_prev rec) (cr_timestamp rec) (cr_args rec) \<noteq> cr_digest rec
           then w\<lparr>w_err := Some (DigestMismatch i)\<rparr>
         else if cr_prev rec \<noteq> w_expected w then w\<lparr>w_err := Some (BrokenLink i)\<rparr>
         else w\<lparr>w_expected := cr_digest rec, w_head := cr_digest rec\<rparr>))"

definition walk_match :: "AuditField list \<Rightarrow> walk \<Rightarrow> walk" where
  "walk_match fs w =
     (let err = (if w_err w = None \<and> \<not> w_started w then Some UnchainedRecord else w_err w) in
      w\<lparr>w_matches := w_matches w @ [\<lparr>sm_head = w_head w, sm_err = err, sm_fields = fs\<rparr>]\<rparr>)"

definition walk_line ::
  "(string \<Rightarrow> string) \<Rightarrow> string \<Rightarrow> string \<Rightarrow> string \<Rightarrow> walk \<Rightarrow> (walk_error, walk) result" where
  "walk_line H targetProvider sessionID rawLine w =
     (let line = TrimSpace rawLine in
      if line = [] then Inr w
      else
        (let i = w_logical w; w = w\<lparr>w_logical := Suc i\<rparr> in
         if \<not> AuditLineTokenizable line targetProvider then Inl (UntokenizableRecord (Suc i))
         else
           (let claims = AuditLineClaimsSession line targetProvider sessionID in
            case DecodeAuditLineStrict line targetProvider of
              Inl e \<Rightarrow>
                if claims then Inl (MalformedSessionRecord e)
                else Inr (if w_err w = None then w\<lparr>w_err := Some (UndecodableRecord e)\<rparr> else w)
            | Inr fs \<Rightarrow>
                (let w = walk_link H i fs w in
                 Inr (if claims then walk_match fs w else w)))))"

definition walkSessionChain ::
  "(string \<Rightarrow> string) \<Rightarrow> (open_error, string) result \<Rightarrow> string \<Rightarrow> string \<Rightarrow>
   (seal_error, sessionMatch list) result" where
  "walkSessionChain H log targetProvider sessionID =
     (case log of
        Inl NotExist \<Rightarrow> Inl NoAuditLog
      | Inl OpenFailed \<Rightarrow> Inl LogOpenError
      | Inr data \<Rightarrow>
          (case ForEachLine data (walk_line H targetProvider sessionID) init_walk of
             Inl (Inl e) \<Rightarrow> Inl (LogReadError e)
           | Inl (Inr e) \<Rightarrow> Inl (WalkError e)
           | Inr w \<Rightarrow> if w_matches w = [] then Inl NoSessionRecords else Inr (w_matches w)))"

definition recomputeSessionHead ::
  "(string \<Rightarrow> string) \<Rightarrow> (open_error, string) result \<Rightarrow> string \<Rightarrow> string \<Rightarrow> (seal_error, string) result"
where
  "recomputeSessionHead H log targetProvider sessionID =
     (case walkSessionChain H log targetProvider sessionID of
        Inl e \<Rightarrow> Inl e
      | Inr matches \<Rightarrow>
          (case sm_err (last matches) of
             Some e \<Rightarrow> Inl (ChainError e) | None \<Rightarrow> Inr (sm_head (last matches))))"

section \<open>Seals\<close>

record Seal =
  sl_version :: int
  sl_session_id :: string
  sl_head_digest :: string
  sl_key_id :: string
  sl_algorithm :: string
  sl_signature :: string
  sl_signed_at :: string

definition Algorithm :: string where
  "Algorithm = ''ecdsa-p256-sha256''"

definition signedMessage :: "string \<Rightarrow> string \<Rightarrow> string" where
  "signedMessage sessionID head =
     ''workcell-session-audit-seal'' @ [NL] @ ''v1'' @ [NL] @ sessionID @ [NL] @ head @ [NL]"

text \<open>
  The host key: \<open>host_key\<close> is what \<open>LoadOrCreateSigningKey\<close> returns, \<open>public_key\<close> is
  \<open>LoadPublicKey\<close>, \<open>sign_asn1\<close> and \<open>verify_asn1\<close> are the signature scheme.
\<close>

record ('k, 'p) crypto =
  sha256 :: "string \<Rightarrow> string"
  host_key :: "('k \<times> string) option"
  public_key :: "string \<Rightarrow> 'p option"
  sign_asn1 :: "'k \<Rightarrow> string \<Rightarrow> string option"
  verify_asn1 :: "'p \<Rightarrow> string \<Rightarrow> string \<Rightarrow> bool"
  b64_encode :: "string \<Rightarrow> string"
  b64_decode :: "string \<Rightarrow> string option"

definition SignSessionHead ::
  "('k, 'p) crypto \<Rightarrow> (open_error, string) result \<Rightarrow> string \<Rightarrow> string \<Rightarrow> string \<Rightarrow>
   (seal_error, Seal) result" where
  "SignSessionHead C log targetProvider sessionID signedAt =
     (if TrimSpace sessionID = [] then Inl SessionIdRequired
      else case recomputeSessionHead (sha256 C) log targetProvider sessionID of
        Inl e \<Rightarrow> Inl e
      | Inr head \<Rightarrow>
          (case host_key C of
             None \<Rightarrow> Inl KeyUnavailable
           | Some (key, keyID) \<Rightarrow>
               (case sign_asn1 C key (sha256 C (signedMessage sessionID head)) of
                  None \<Rightarrow> Inl SignFailed
                | Some sig \<Rightarrow>
                    Inr \<lparr>sl_version = 1, sl_session_id = sessionID, sl_head_digest = head,
                         sl_key_id = keyID, sl_algorithm = Algorithm,
                         sl_signature = b64_encode C sig, sl_signed_at = signedAt\<rparr>)))"

definition checkSealHeader :: "string \<Rightarrow> Seal \<Rightarrow> (seal_error, unit) result" where
  "checkSealHeader sessionID seal =
     (if sl_version seal \<noteq> 1 then Inl BadSealVersion
      else if sl_algorithm seal \<noteq> Algorithm then Inl BadSealAlgorithm
      else if sl_session_id seal \<noteq> sessionID then Inl SealSessionMismatch
      else Inr ())"

definition verifySealSignature ::
  "('k, 'p) crypto \<Rightarrow> string \<Rightarrow> string \<Rightarrow> Seal \<Rightarrow> (seal_error, unit) result" where
  "verifySealSignature C sessionID head seal =
     (case checkSealHeader sessionID seal of
        Inl e \<Rightarrow> Inl e
      | Inr _ \<Rightarrow>
          (case b64_decode C (sl_signature seal) of
             None \<Rightarrow> Inl BadSignatureEncoding
           | Some sig \<Rightarrow>
               (case public_key C (sl_key_id seal) of
                  None \<Rightarrow> Inl KeyUnavailable
                | Some pub \<Rightarrow>
                    if verify_asn1 C pub (sha256 C (signedMessage sessionID head)) sig
                    then Inr () else Inl SignatureMismatch)))"

definition VerifySessionSeal ::
  "('k, 'p) crypto \<Rightarrow> (open_error, string) result \<Rightarrow> string \<Rightarrow> string \<Rightarrow> Seal \<Rightarrow>
   (seal_error, string) result" where
  "VerifySessionSeal C log targetProvider sessionID seal =
     (case checkSealHeader sessionID seal of
        Inl e \<Rightarrow> Inl e
      | Inr _ \<Rightarrow>
          (case recomputeSessionHead (sha256 C) log targetProvider sessionID of
             Inl e \<Rightarrow> Inl e
           | Inr head \<Rightarrow>
               (case verifySealSignature C sessionID head seal of
                  Inl e \<Rightarrow> Inl e | Inr _ \<Rightarrow> Inr head)))"

text \<open>
  The backward search for the sealed head and the records up to it: \<open>rev_prefix\<close> is
  \<open>matches[:i+1]\<close>, reversed.
\<close>

fun match_records :: "sessionMatch list \<Rightarrow> (seal_error, AuditField list list) result" where
  "match_records [] = Inr []"
| "match_records (m # ms) =
     (case sm_err m of
        Some e \<Rightarrow> Inl (RecordOutsideChain e)
      | None \<Rightarrow>
          (case match_records ms of
             Inl e \<Rightarrow> Inl e | Inr records \<Rightarrow> Inr (sm_fields m # records)))"

fun sealed_prefix :: "string \<Rightarrow> sessionMatch list \<Rightarrow> (seal_error, AuditField list list) result" where
  "sealed_prefix head [] = Inl NoSealedHead"
| "sealed_prefix head (m # rev_prefix) =
     (if sm_err m \<noteq> None \<or> sm_head m \<noteq> head then sealed_prefix head rev_prefix
      else match_records (rev (m # rev_prefix)))"

definition SealedSessionRecords ::
  "('k, 'p) crypto \<Rightarrow> (open_error, string) result \<Rightarrow> string \<Rightarrow> string \<Rightarrow> Seal \<Rightarrow>
   (seal_error, AuditField list list) result" where
  "SealedSessionRecords C log targetProvider sessionID seal =
     (case verifySealSignature C sessionID (sl_head_digest seal) seal of
        Inl e \<Rightarrow> Inl e
      | Inr _ \<Rightarrow>
          (case walkSessionChain (sha256 C) log targetProvider sessionID of
             Inl e \<Rightarrow> Inl e
           | Inr matches \<Rightarrow> sealed_prefix (sl_head_digest seal) (rev matches)))"

section \<open>What a verified log says\<close>

text \<open>
  The decoded records of the non-blank lines, and the chain: the records from the first one
  with a digest on.
\<close>

definition line_fields :: "string \<Rightarrow> string \<Rightarrow> AuditField list option" where
  "line_fields provider l =
     (case DecodeAuditLineStrict (TrimSpace l) provider of Inl _ \<Rightarrow> None | Inr fs \<Rightarrow> Some fs)"

definition records :: "string list \<Rightarrow> string list" where
  "records ls = filter (\<lambda>l. TrimSpace l \<noteq> []) ls"

definition decodes :: "string \<Rightarrow> string list \<Rightarrow> bool" where
  "decodes provider ls = list_all (\<lambda>l. line_fields provider l \<noteq> None) (records ls)"

definition log_chain :: "string \<Rightarrow> string list \<Rightarrow> chainRecord list" where
  "log_chain provider ls =
     map chain_record (dropWhile (\<lambda>fs. \<not> has_digest fs)
       (List.map_filter (line_fields provider) (records ls)))"

definition digest_input :: "chainRecord \<Rightarrow> string" where
  "digest_input r = join [NUL] ([cr_prev r, cr_timestamp r] @ cr_args r)"

fun links :: "(string \<Rightarrow> string) \<Rightarrow> string \<Rightarrow> chainRecord list \<Rightarrow> bool" where
  "links H prev [] = True"
| "links H prev (r # rs) =
     (cr_prev r = prev \<and> cr_digest r \<noteq> [] \<and> hex_encode (H (digest_input r)) = cr_digest r \<and>
      links H (cr_digest r) rs)"

definition chain_head :: "chainRecord list \<Rightarrow> string" where
  "chain_head c = (if c = [] then [] else cr_digest (last c))"

definition claims :: "string \<Rightarrow> string \<Rightarrow> string \<Rightarrow> bool" where
  "claims provider sessionID l \<longleftrightarrow>
     TrimSpace l \<noteq> [] \<and> AuditLineClaimsSession (TrimSpace l) provider sessionID"

definition verified :: "(string \<Rightarrow> string) \<Rightarrow> string \<Rightarrow> string list \<Rightarrow> bool" where
  "verified H provider ls \<longleftrightarrow>
     decodes provider ls \<and> log_chain provider ls \<noteq> [] \<and> links H [] (log_chain provider ls)"

lemma links_snoc:
  "links H p (c @ [r]) \<longleftrightarrow> links H p c \<and> cr_prev r = (if c = [] then p else cr_digest (last c)) \<and>
     cr_digest r \<noteq> [] \<and> hex_encode (H (digest_input r)) = cr_digest r"
  by (induction c arbitrary: p) auto

lemma records_snoc: "records (ls @ [l]) = records ls @ (if TrimSpace l = [] then [] else [l])"
  by (simp add: records_def)

lemma dropWhile_snoc:
  "dropWhile P (xs @ [x]) =
   (if dropWhile P xs \<noteq> [] then dropWhile P xs @ [x] else if P x then [] else [x])"
  by (induction xs) auto

lemma log_chain_blank: "TrimSpace l = [] \<Longrightarrow> log_chain provider (ls @ [l]) = log_chain provider ls"
  by (simp add: log_chain_def records_snoc)

lemma log_chain_snoc:
  assumes "TrimSpace l \<noteq> []" "line_fields provider l = Some fs"
  shows "log_chain provider (ls @ [l]) =
    (if log_chain provider ls \<noteq> [] \<or> has_digest fs then log_chain provider ls @ [chain_record fs] else [])"
  using assms
  by (auto simp: log_chain_def records_snoc List.map_filter_def dropWhile_snoc
      split: if_splits)

section \<open>The walk verifies the chain\<close>

definition chain_inv :: "(string \<Rightarrow> string) \<Rightarrow> string \<Rightarrow> string list \<Rightarrow> walk \<Rightarrow> bool" where
  "chain_inv H provider ps w \<longleftrightarrow>
     (w_err w = None \<longrightarrow>
        decodes provider ps \<and> w_started w = (log_chain provider ps \<noteq> []) \<and>
        links H [] (log_chain provider ps) \<and> w_head w = chain_head (log_chain provider ps) \<and>
        w_expected w = w_head w)"

text \<open>\<open>qs\<close> is the log up to the \<open>i\<close>-th record that claims the session.\<close>

definition session_prefix ::
  "string \<Rightarrow> string \<Rightarrow> string list \<Rightarrow> nat \<Rightarrow> string list \<Rightarrow> bool" where
  "session_prefix provider sessionID ps i qs \<longleftrightarrow>
     prefix qs ps \<and> qs \<noteq> [] \<and> claims provider sessionID (last qs) \<and>
     length (filter (claims provider sessionID) qs) = Suc i"

definition match_ok ::
  "(string \<Rightarrow> string) \<Rightarrow> string \<Rightarrow> string \<Rightarrow> string list \<Rightarrow> nat \<Rightarrow> sessionMatch \<Rightarrow> bool" where
  "match_ok H provider sessionID ps i m \<longleftrightarrow>
     (\<exists>qs. session_prefix provider sessionID ps i qs \<and>
        line_fields provider (last qs) = Some (sm_fields m) \<and>
        (sm_err m = None \<longrightarrow>
           verified H provider qs \<and> sm_head m = chain_head (log_chain provider qs)))"

definition walk_inv :: "(string \<Rightarrow> string) \<Rightarrow> string \<Rightarrow> string \<Rightarrow> string list \<Rightarrow> walk \<Rightarrow> bool" where
  "walk_inv H provider sessionID ps w \<longleftrightarrow>
     chain_inv H provider ps w \<and>
     length (w_matches w) = length (filter (claims provider sessionID) ps) \<and>
     (\<forall>i < length (w_matches w). match_ok H provider sessionID ps i (w_matches w ! i))"

lemma decodes_snoc:
  "decodes provider (ps @ [l]) \<longleftrightarrow>
     decodes provider ps \<and> (TrimSpace l \<noteq> [] \<longrightarrow> line_fields provider l \<noteq> None)"
  by (auto simp: decodes_def records_snoc)

lemma decodes_append: "decodes provider (ps @ ls) \<Longrightarrow> decodes provider ps"
  by (simp add: decodes_def records_def)

lemma log_chain_prefix: "decodes provider (ps @ ls) \<Longrightarrow> \<exists>d. log_chain provider (ps @ ls) = log_chain provider ps @ d"
proof (induction ls rule: rev_induct)
  case (snoc l ls)
  have d: "decodes provider ((ps @ ls) @ [l])" using snoc.prems by simp
  then obtain d where IH: "log_chain provider (ps @ ls) = log_chain provider ps @ d"
    using snoc.IH decodes_append by blast
  show ?case
  proof (cases "TrimSpace l = []")
    case True
    then show ?thesis using IH log_chain_blank [of l provider "ps @ ls"] by simp
  next
    case False
    then obtain fs where "line_fields provider l = Some fs" using d decodes_snoc by blast
    then show ?thesis using IH log_chain_snoc [OF False, of provider fs "ps @ ls"] by auto
  qed
qed simp

lemma match_ok_snoc: "match_ok H provider sid ps i m \<Longrightarrow> match_ok H provider sid (ps @ [l]) i m"
  unfolding match_ok_def session_prefix_def by (metis prefix_prefix)

lemma chain_head_snoc: "chain_head (c @ [r]) = cr_digest r"
  by (simp add: chain_head_def)

lemma walk_link_chain:
  assumes inv: "chain_inv H provider ps w" and l: "TrimSpace l \<noteq> []" "line_fields provider l = Some fs"
  shows "chain_inv H provider (ps @ [l]) (walk_link H i fs w)"
proof (cases "w_err w")
  case None
  let ?c = "log_chain provider ps" and ?r = "chain_record fs"
  have I: "decodes provider ps" "w_started w = (?c \<noteq> [])" "links H [] ?c"
    "w_head w = chain_head ?c" "w_expected w = chain_head ?c"
    using inv None by (auto simp: chain_inv_def)
  have d: "decodes provider (ps @ [l])" using I l by (simp add: decodes_snoc)
  have dig: "AuditRecordDigest H (cr_prev ?r) (cr_timestamp ?r) (cr_args ?r) = hex_encode (H (digest_input ?r))"
    by (simp add: AuditRecordDigest_def digest_input_def)
  show ?thesis
  proof (cases "?c \<noteq> [] \<or> has_digest fs")
    case False
    then show ?thesis
      using None I d l by (simp add: chain_inv_def walk_link_def log_chain_snoc Let_def chain_head_def)
  next
    case True
    then have c: "log_chain provider (ps @ [l]) = ?c @ [?r]" using l by (simp add: log_chain_snoc)
    show ?thesis
      using None I d True unfolding chain_inv_def c
      by (auto simp: walk_link_def Let_def dig links_snoc chain_head_def)
  qed
qed (simp add: chain_inv_def walk_link_def)

lemma walk_link_matches [simp]: "w_matches (walk_link H i fs w) = w_matches w"
  by (simp add: walk_link_def Let_def)

lemma walk_match_chain: "chain_inv H provider ps (walk_match fs w) = chain_inv H provider ps w"
  by (simp add: chain_inv_def walk_match_def Let_def)

lemma walk_match_new:
  assumes inv: "chain_inv H provider (ps @ [l]) w" and l: "claims provider sid l"
    "line_fields provider l = Some fs"
    and n: "length (filter (claims provider sid) ps) = n"
  shows "match_ok H provider sid (ps @ [l]) n (last (w_matches (walk_match fs w)))"
proof -
  let ?m = "last (w_matches (walk_match fs w))"
  have "session_prefix provider sid (ps @ [l]) n (ps @ [l])"
    using l n by (simp add: session_prefix_def)
  moreover have "sm_fields ?m = fs" by (simp add: walk_match_def Let_def)
  moreover have "sm_err ?m = None \<longrightarrow> verified H provider (ps @ [l]) \<and>
      sm_head ?m = chain_head (log_chain provider (ps @ [l]))"
    using inv by (auto simp: walk_match_def Let_def chain_inv_def verified_def split: if_splits)
  ultimately show ?thesis using l unfolding match_ok_def by (metis last_snoc)
qed

lemma walk_line_inv:
  assumes step: "walk_line H provider sid l w = Inr w'" and inv: "walk_inv H provider sid ps w"
  shows "walk_inv H provider sid (ps @ [l]) w'"
proof (cases "TrimSpace l = []")
  case True
  then have "w' = w" "\<not> claims provider sid l" using step by (auto simp: walk_line_def claims_def)
  then show ?thesis
    using inv True match_ok_snoc
    by (auto simp: walk_inv_def chain_inv_def log_chain_blank decodes_snoc)
next
  case nonblank: False
  let ?w = "w\<lparr>w_logical := Suc (w_logical w)\<rparr>"
  have inv': "chain_inv H provider ps ?w" "length (w_matches w) = length (filter (claims provider sid) ps)"
    "\<forall>i < length (w_matches w). match_ok H provider sid (ps @ [l]) i (w_matches w ! i)"
    using inv match_ok_snoc by (auto simp: walk_inv_def chain_inv_def)
  have cl: "claims provider sid l \<longleftrightarrow> AuditLineClaimsSession (TrimSpace l) provider sid"
    using nonblank by (simp add: claims_def)
  show ?thesis
  proof (cases "DecodeAuditLineStrict (TrimSpace l) provider")
    case (Inl e)
    then have "\<not> claims provider sid l" "w_err w' \<noteq> None" "w_matches w' = w_matches w"
      using step nonblank cl by (auto simp: walk_line_def Let_def split: if_splits)
    then show ?thesis using inv' by (auto simp: walk_inv_def chain_inv_def)
  next
    case (Inr fs)
    then have lf: "line_fields provider l = Some fs" by (simp add: line_fields_def)
    let ?v = "walk_link H (w_logical w) fs ?w"
    have v: "chain_inv H provider (ps @ [l]) ?v" using walk_link_chain [OF inv'(1) nonblank lf] .
    have w': "w' = (if claims provider sid l then walk_match fs ?v else ?v)"
      using step nonblank Inr cl by (auto simp: walk_line_def Let_def split: if_splits)
    show ?thesis
    proof (cases "claims provider sid l")
      case True
      have "match_ok H provider sid (ps @ [l]) (length (w_matches w)) (last (w_matches w'))"
        using walk_match_new [OF v True lf] w' True inv'(2) by simp
      moreover have "w_matches w' = w_matches w @ [last (w_matches w')]"
        using w' True by (simp add: walk_match_def Let_def)
      ultimately show ?thesis
        using v w' True inv' unfolding walk_inv_def
        by (smt (verit) filter_append length_append length_Cons list.size(3) filter.simps
            walk_match_chain nth_append less_Suc_eq add.right_neutral add_Suc_right nth_append_length)
    next
      case False
      then show ?thesis using v w' inv' by (simp add: walk_inv_def)
    qed
  qed
qed

lemma for_each_line_inv:
  assumes "for_each_line (walk_line H provider sid) n tot ls w = Inr w'" "walk_inv H provider sid ps w"
  shows "walk_inv H provider sid (ps @ ls) w'"
  using assms
proof (induction ls arbitrary: n tot w ps)
  case (Cons l ls)
  then obtain tot' w1 where "walk_line H provider sid l w = Inr w1"
    "for_each_line (walk_line H provider sid) (Suc n) tot' ls w1 = Inr w'"
    by (auto split: sum.splits)
  with Cons show ?case using walk_line_inv [of H provider sid l w w1 ps] by force
qed simp

lemma walkSessionChain_inv:
  assumes "walkSessionChain H log provider sid = Inr matches"
  obtains data where "log = Inr data" "matches \<noteq> []"
    "length matches = length (filter (claims provider sid) (physical_lines data))"
    "\<forall>i < length matches. match_ok H provider sid (physical_lines data) i (matches ! i)"
proof -
  from assms obtain data w where w: "log = Inr data" "matches = w_matches w" "matches \<noteq> []"
    "for_each_line (walk_line H provider sid) 0 0 (physical_lines data) init_walk = Inr w"
    by (auto simp: walkSessionChain_def ForEachLine_def split: sum.splits open_error.splits if_splits)
  have "walk_inv H provider sid [] init_walk"
    by (simp add: walk_inv_def chain_inv_def init_walk_def decodes_def records_def log_chain_def
        chain_head_def List.map_filter_def)
  from for_each_line_inv [OF w(4) this] w that show ?thesis by (auto simp: walk_inv_def)
qed

text \<open>
  \<open>sealed_chain\<close>: the log up to the last record of the session decodes strictly and its
  digests link from the root to that record; \<open>c\<close> is the chain.
\<close>

definition sealed_chain ::
  "(string \<Rightarrow> string) \<Rightarrow> string \<Rightarrow> string \<Rightarrow> (open_error, string) result \<Rightarrow> chainRecord list \<Rightarrow> bool" where
  "sealed_chain H provider sessionID log c \<longleftrightarrow>
     (\<exists>data qs rest. log = Inr data \<and> physical_lines data = qs @ rest \<and> qs \<noteq> [] \<and>
        claims provider sessionID (last qs) \<and> list_all (\<lambda>l. \<not> claims provider sessionID l) rest \<and>
        verified H provider qs \<and> c = log_chain provider qs)"

lemma recomputeSessionHead_chain:
  assumes "recomputeSessionHead H log provider sid = Inr head"
  obtains c where "sealed_chain H provider sid log c" "c \<noteq> []" "links H [] c" "head = cr_digest (last c)"
proof -
  from assms obtain matches where m: "walkSessionChain H log provider sid = Inr matches"
    "sm_err (last matches) = None" "head = sm_head (last matches)"
    by (auto simp: recomputeSessionHead_def split: sum.splits option.splits)
  obtain data where d: "log = Inr data" "matches \<noteq> []"
    and n: "length matches = length (filter (claims provider sid) (physical_lines data))"
    and ok: "\<forall>i < length matches. match_ok H provider sid (physical_lines data) i (matches ! i)"
    using walkSessionChain_inv [OF m(1)] by metis
  have "match_ok H provider sid (physical_lines data) (length matches - 1) (last matches)"
    using ok d(2) by (simp add: last_conv_nth)
  then obtain qs where qs: "session_prefix provider sid (physical_lines data) (length matches - 1) qs"
    "verified H provider qs" "head = chain_head (log_chain provider qs)"
    using m by (auto simp: match_ok_def)
  then obtain rest where rest: "physical_lines data = qs @ rest"
    by (auto simp: session_prefix_def prefix_def)
  have "0 < length matches" using d(2) by simp
  moreover have "length (filter (claims provider sid) qs) = Suc (length matches - 1)"
    using qs(1) by (simp add: session_prefix_def)
  moreover have "length matches =
      length (filter (claims provider sid) qs) + length (filter (claims provider sid) rest)"
    using n rest by simp
  ultimately have "length (filter (claims provider sid) rest) = 0" by linarith
  then have "filter (claims provider sid) rest = []" by simp
  then have "list_all (\<lambda>l. \<not> claims provider sid l) rest" by (simp add: filter_empty_conv list_all_iff)
  then have "sealed_chain H provider sid log (log_chain provider qs)"
    using qs rest d(1) by (auto simp: sealed_chain_def session_prefix_def)
  with qs(2,3) show ?thesis by (auto simp: verified_def chain_head_def intro!: that)
qed

section \<open>The digest input determines the record\<close>

definition record_ok :: "chainRecord \<Rightarrow> bool" where
  "record_ok r \<longleftrightarrow> NUL \<notin> set (cr_prev r) \<and> NUL \<notin> set (cr_timestamp r) \<and> list_all (\<lambda>a. NUL \<notin> set a) (cr_args r)"

text \<open>What the signature covers of a record: everything but the stored digest itself.\<close>

definition content :: "chainRecord \<Rightarrow> string \<times> string \<times> string list" where
  "content r = (cr_prev r, cr_timestamp r, cr_args r)"

lemma digest_input_inj:
  assumes "record_ok r" "record_ok s" "digest_input r = digest_input s"
  shows "content r = content s"
proof -
  have "[cr_prev r, cr_timestamp r] @ cr_args r = [cr_prev s, cr_timestamp s] @ cr_args s"
    using assms by (intro join_inj [where c = NUL]) (auto simp: digest_input_def record_ok_def list_all_iff)
  then show ?thesis by (simp add: content_def)
qed

lemma fold_add_field_ok:
  "list_all field_ok fs \<Longrightarrow> record_ok r \<Longrightarrow> record_ok (fold add_field fs r)"
  by (induction fs arbitrary: r) (auto simp: add_field_def record_ok_def field_ok_def field_token_def)

lemma chain_record_ok: "list_all field_ok fs \<Longrightarrow> record_ok (chain_record fs)"
  unfolding chain_record_def by (erule fold_add_field_ok) (simp add: record_ok_def)

lemma line_fields_ok: "line_fields provider l = Some fs \<Longrightarrow> list_all field_ok fs"
  using strict_fields_ok
  by (auto simp: line_fields_def DecodeAuditLineStrict_def Let_def split: sum.splits prod.splits if_splits)

lemma log_chain_ok: "list_all record_ok (log_chain provider ls)"
proof -
  have "list_all (list_all field_ok) (List.map_filter (line_fields provider) ls')" for ls'
    by (induction ls') (auto split: option.splits dest: line_fields_ok)
  then show ?thesis
    by (auto simp: log_chain_def list_all_iff chain_record_ok dest: set_dropWhileD)
qed

definition collision :: "(string \<Rightarrow> string) \<Rightarrow> string set \<Rightarrow> string set \<Rightarrow> bool" where
  "collision H X Y \<longleftrightarrow> (\<exists>x \<in> X. \<exists>y \<in> Y. x \<noteq> y \<and> H x = H y)"

lemma links_same_head:
  assumes "links H [] c" "links H [] d" "list_all record_ok c" "list_all record_ok d"
    and "chain_head c = chain_head d"
  shows "map content c = map content d \<or>
    collision H (digest_input ` set c) (digest_input ` set d)"
  using assms
proof (induction c arbitrary: d rule: rev_induct)
  case Nil
  then show ?case by (cases d rule: rev_cases) (auto simp: links_snoc chain_head_def)
next
  case (snoc r c)
  from snoc.prems have "chain_head d = cr_digest r" "cr_digest r \<noteq> []"
    by (simp_all add: links_snoc chain_head_snoc)
  then obtain d' s where d: "d = d' @ [s]" by (cases d rule: rev_cases) (auto simp: chain_head_def)
  have rs: "cr_digest r = cr_digest s" using snoc.prems d by (simp add: chain_head_snoc)
  then have H: "H (digest_input r) = H (digest_input s)"
    using snoc.prems d hex_encode_inj by (simp add: links_snoc)
  show ?case
  proof (cases "digest_input r = digest_input s")
    case False
    with H d show ?thesis by (auto simp: collision_def)
  next
    case True
    then have eq: "content r = content s"
      using digest_input_inj snoc.prems d by simp
    then have "chain_head c = chain_head d'"
      using snoc.prems d by (simp add: content_def links_snoc chain_head_def)
    moreover have "links H [] c" "links H [] d'" "list_all record_ok c" "list_all record_ok d'"
      using snoc.prems d by (simp_all add: links_snoc)
    ultimately have "map content c = map content d' \<or>
        collision H (digest_input ` set c) (digest_input ` set d')"
      using snoc.IH by blast
    with eq d show ?thesis by (auto simp: collision_def)
  qed
qed

lemma sealed_chain_ok: "sealed_chain H provider sid log c \<Longrightarrow> list_all record_ok c"
  using log_chain_ok by (auto simp: sealed_chain_def)

lemma same_head_same_chain:
  assumes "recomputeSessionHead H log1 provider sid = Inr head"
    and "recomputeSessionHead H log2 provider' sid' = Inr head"
  obtains c d where "sealed_chain H provider sid log1 c" "sealed_chain H provider' sid' log2 d"
    "map content c = map content d \<or> collision H (digest_input ` set c) (digest_input ` set d)"
proof -
  obtain c where c: "sealed_chain H provider sid log1 c" "c \<noteq> []" "links H [] c" "head = cr_digest (last c)"
    using assms(1) recomputeSessionHead_chain by metis
  obtain d where d: "sealed_chain H provider' sid' log2 d" "d \<noteq> []" "links H [] d" "head = cr_digest (last d)"
    using assms(2) recomputeSessionHead_chain by metis
  have "chain_head c = chain_head d" using c d by (simp add: chain_head_def)
  then show ?thesis
    using links_same_head [OF c(3) d(3) sealed_chain_ok [OF c(1)] sealed_chain_ok [OF d(1)]] c(1) d(1) that
    by blast
qed

text \<open>The signature of the seal verifies for a digest that is not the one that was signed.\<close>

definition forgery :: "('k, 'p) crypto \<Rightarrow> Seal \<Rightarrow> string \<Rightarrow> string \<Rightarrow> bool" where
  "forgery C seal signed digest \<longleftrightarrow>
     digest \<noteq> signed \<and>
     (\<exists>pub sig. public_key C (sl_key_id seal) = Some pub \<and> b64_decode C (sl_signature seal) = Some sig \<and>
        verify_asn1 C pub digest sig)"

lemma VerifySessionSeal_head:
  assumes "VerifySessionSeal C log provider sid seal = Inr head"
  obtains sig pub where "recomputeSessionHead (sha256 C) log provider sid = Inr head"
    "b64_decode C (sl_signature seal) = Some sig" "public_key C (sl_key_id seal) = Some pub"
    "verify_asn1 C pub (sha256 C (signedMessage sid head)) sig"
  using assms
  by (auto simp: VerifySessionSeal_def verifySealSignature_def split: sum.splits option.splits if_splits)

lemma SignSessionHead_seal:
  assumes "SignSessionHead C log provider sid signedAt = Inr seal"
  shows "recomputeSessionHead (sha256 C) log provider sid = Inr (sl_head_digest seal)"
  using assms by (auto simp: SignSessionHead_def split: if_splits sum.splits option.splits)

lemma sign_and_verify:
  assumes "recomputeSessionHead (sha256 C) log provider sid = Inr head" "TrimSpace sid \<noteq> []"
    and "host_key C = Some (key, keyID)" "public_key C keyID = Some pub"
    and "\<And>d. \<exists>sig. sign_asn1 C key d = Some sig \<and> verify_asn1 C pub d sig"
    and "\<And>sig. b64_decode C (b64_encode C sig) = Some sig"
  obtains seal where "SignSessionHead C log provider sid signedAt = Inr seal" "sl_head_digest seal = head"
    "VerifySessionSeal C log provider sid seal = Inr head"
proof -
  obtain sig where "sign_asn1 C key (sha256 C (signedMessage sid head)) = Some sig"
    "verify_asn1 C pub (sha256 C (signedMessage sid head)) sig"
    using assms(5) by blast
  then show ?thesis
    using assms(1-4,6) that
    by (auto simp: SignSessionHead_def VerifySessionSeal_def verifySealSignature_def checkSealHeader_def)
qed

lemma signedMessage_head: "signedMessage sid h = signedMessage sid h' \<longleftrightarrow> h = h'"
  by (simp add: signedMessage_def)

lemma signedMessage_inj:
  assumes "signedMessage s h = signedMessage s' h'" "NL \<notin> set h" "NL \<notin> set h'"
  shows "s = s' \<and> h = h'"
proof -
  have "s @ NL # h = s' @ NL # h'" using assms(1) by (simp add: signedMessage_def)
  then have "rev h @ NL # rev s = rev h' @ NL # rev s'"
    by (metis append.assoc append_Cons append_Nil rev.simps(2) rev_append)
  then have "cut NL (rev h @ NL # rev s) = cut NL (rev h' @ NL # rev s')" by simp
  then show ?thesis using assms(2,3) by simp
qed

section \<open>The sealed prefix\<close>

lemma match_records_Inr:
  "match_records ms = Inr recs \<Longrightarrow> recs = map sm_fields ms \<and> list_all (\<lambda>m. sm_err m = None) ms"
  by (induction ms arbitrary: recs) (auto split: option.splits sum.splits)

lemma sealed_prefix_Inr:
  assumes "sealed_prefix head ms = Inr recs"
  shows "\<exists>ys m zs. rev ms = ys @ m # zs \<and> sm_head m = head \<and> recs = map sm_fields (ys @ [m]) \<and>
    list_all (\<lambda>m. sm_err m = None) (ys @ [m])"
  using assms
proof (induction ms)
  case (Cons m ms)
  show ?case
  proof (cases "sm_err m \<noteq> None \<or> sm_head m \<noteq> head")
    case True
    with Cons obtain ys m' zs where "rev ms = ys @ m' # zs" "sm_head m' = head"
      "recs = map sm_fields (ys @ [m'])" "list_all (\<lambda>m. sm_err m = None) (ys @ [m'])"
      by (metis sealed_prefix.simps(2))
    then show ?thesis by (metis append.assoc append_Cons rev.simps(2))
  next
    case False
    then have "match_records (rev ms @ [m]) = Inr recs" using Cons.prems by simp
    then show ?thesis using match_records_Inr False by (metis rev.simps(2))
  qed
qed simp

lemma session_prefix_last:
  assumes "session_prefix provider sid ps i qs"
  shows "filter (claims provider sid) ps ! i = last qs"
proof -
  obtain qs' l where q: "qs = qs' @ [l]" using assms by (cases qs rule: rev_cases) (auto simp: session_prefix_def)
  obtain rest where "ps = qs @ rest" using assms by (auto simp: session_prefix_def prefix_def)
  with q assms show ?thesis by (auto simp: session_prefix_def nth_append)
qed

lemma session_prefix_chain:
  assumes "session_prefix provider sid ps i qs" "verified H provider qs" "line_fields provider (last qs) = Some fs"
  shows "chain_record fs \<in> set (log_chain provider qs) \<and> last (log_chain provider qs) = chain_record fs"
proof -
  obtain qs' l where q: "qs = qs' @ [l]" using assms(1) by (cases qs rule: rev_cases) (auto simp: session_prefix_def)
  then have "TrimSpace l \<noteq> []" using assms(1) by (simp add: session_prefix_def claims_def)
  from log_chain_snoc [OF this, of provider fs qs'] show ?thesis
    using assms(2,3) q by (auto simp: verified_def split: if_splits)
qed

lemma session_prefix_mono:
  assumes "session_prefix provider sid ps k qs'" "session_prefix provider sid ps i qs" "k \<le> i"
  shows "prefix qs' qs"
proof (rule ccontr)
  assume "\<not> prefix qs' qs"
  moreover have "prefix qs' qs \<or> prefix qs qs'"
    using assms(1,2) prefix_same_cases by (auto simp: session_prefix_def)
  ultimately obtain rest where r: "qs' = qs @ rest" "rest \<noteq> []" by (auto simp: prefix_def)
  then have "claims provider sid (last rest)" using assms(1) by (simp add: session_prefix_def)
  then have "filter (claims provider sid) rest \<noteq> []" using r(2) by (auto simp: filter_empty_conv intro!: bexI [of _ "last rest"])
  then have "0 < length (filter (claims provider sid) rest)" by blast
  then show False using assms r(1) by (auto simp: session_prefix_def)
qed

lemma sealed_records_prefix:
  assumes w: "walkSessionChain H log provider sid = Inr matches"
    and s: "sealed_prefix head (rev matches) = Inr recs"
  shows "\<exists>data qs. log = Inr data \<and> prefix qs (physical_lines data) \<and> verified H provider qs \<and>
    chain_head (log_chain provider qs) = head \<and>
    map Some recs = map (line_fields provider) (filter (claims provider sid) qs) \<and>
    set (map chain_record recs) \<subseteq> set (log_chain provider qs) \<and>
    recs \<noteq> [] \<and> last (log_chain provider qs) = chain_record (last recs)"
proof -
  obtain data where d: "log = Inr data"
    and ok: "\<forall>i < length matches. match_ok H provider sid (physical_lines data) i (matches ! i)"
    using walkSessionChain_inv [OF w] by metis
  obtain ys m zs where m: "matches = ys @ m # zs" "sm_head m = head" "recs = map sm_fields (ys @ [m])"
    and err: "list_all (\<lambda>m. sm_err m = None) (ys @ [m])"
    using sealed_prefix_Inr [OF s] by auto
  let ?i = "length ys"
  have "match_ok H provider sid (physical_lines data) ?i m"
    using ok [rule_format, of ?i] m(1) by simp
  then obtain qs where qs: "session_prefix provider sid (physical_lines data) ?i qs"
    "verified H provider qs" "head = chain_head (log_chain provider qs)"
    and last: "line_fields provider (last qs) = Some (last recs)"
    using m err by (auto simp: match_ok_def)
  have len: "length (filter (claims provider sid) qs) = Suc ?i" using qs(1) by (simp add: session_prefix_def)
  have rec: "map Some recs ! k = map (line_fields provider) (filter (claims provider sid) qs) ! k \<and>
      chain_record (recs ! k) \<in> set (log_chain provider qs)" if k: "k \<le> ?i" for k
  proof -
    have mk: "recs ! k = sm_fields (matches ! k)" "k < length matches" "matches ! k = (ys @ [m]) ! k"
      using k m by (auto simp: nth_append)
    moreover have "sm_err ((ys @ [m]) ! k) = None" using err k by (simp add: list_all_length less_Suc_eq_le)
    ultimately obtain qs' where qs': "session_prefix provider sid (physical_lines data) k qs'"
      "line_fields provider (last qs') = Some (recs ! k)" "verified H provider qs'"
      using ok by (auto simp: match_ok_def)
    then have "line_fields provider (filter (claims provider sid) (physical_lines data) ! k) = Some (recs ! k)"
      using session_prefix_last by metis
    moreover have "filter (claims provider sid) (physical_lines data) ! k = filter (claims provider sid) qs ! k"
      using qs(1) len k by (auto simp: session_prefix_def prefix_def nth_append)
    moreover have "length recs = Suc ?i" using m(3) by simp
    moreover obtain rest where "qs = qs' @ rest" using session_prefix_mono [OF qs'(1) qs(1) k] by (auto simp: prefix_def)
    then have "set (log_chain provider qs') \<subseteq> set (log_chain provider qs)"
      using log_chain_prefix [of provider qs' rest] qs(2) by (auto simp: verified_def)
    then have "chain_record (recs ! k) \<in> set (log_chain provider qs)"
      using session_prefix_chain [OF qs'(1,3,2)] by blast
    ultimately show ?thesis using k len by simp
  qed
  then have "map Some recs = map (line_fields provider) (filter (claims provider sid) qs)"
    using len m(3) by (intro nth_equalityI) (auto simp: less_Suc_eq_le)
  moreover have "set (map chain_record recs) \<subseteq> set (log_chain provider qs)"
  proof -
    have "length recs = Suc ?i" using m(3) by simp
    then show ?thesis using rec by (auto simp: less_Suc_eq_le in_set_conv_nth [of _ recs])
  qed
  moreover have "last (log_chain provider qs) = chain_record (last recs)"
    using session_prefix_chain [OF qs(1,2) last] by simp
  ultimately show ?thesis using d qs m(3) by (auto simp: session_prefix_def)
qed

section \<open>Properties\<close>

text \<open>
  C1: a seal is tamper evident. Take a seal that \<open>SignSessionHead\<close> made for a session from a
  log, and any log that \<open>VerifySessionSeal\<close> accepts for that seal. Both logs have a verified chain up to the
  session's last record, and the two chains have the same records (previous digest, timestamp
  and every field, in order); or the two logs hold an explicit SHA-256 collision; or the seal's signature
  is a forgery, which verifies under the pinned key for the digest of the second log's head, a digest that differs
  from the one that was signed. Nothing is assumed of the hash or of the signature scheme.
\<close>

theorem seal_tamper_evident:
  assumes "SignSessionHead C log1 provider sid signedAt = Inr seal"
    and "VerifySessionSeal C log2 provider sid seal = Inr head"
  shows "\<exists>c1 c2. sealed_chain (sha256 C) provider sid log1 c1 \<and> sealed_chain (sha256 C) provider sid log2 c2 \<and>
    (map content c1 = map content c2 \<or>
     collision (sha256 C) (insert (signedMessage sid (sl_head_digest seal)) (digest_input ` set c1))
       (insert (signedMessage sid head) (digest_input ` set c2)) \<or>
     forgery C seal (sha256 C (signedMessage sid (sl_head_digest seal))) (sha256 C (signedMessage sid head)))"
proof -
  note h1 = SignSessionHead_seal [OF assms(1)]
  obtain sig pub where h2: "recomputeSessionHead (sha256 C) log2 provider sid = Inr head"
    and v: "b64_decode C (sl_signature seal) = Some sig" "public_key C (sl_key_id seal) = Some pub"
      "verify_asn1 C pub (sha256 C (signedMessage sid head)) sig"
    using VerifySessionSeal_head [OF assms(2)] by metis
  obtain c d where c: "sealed_chain (sha256 C) provider sid log1 c" and d: "sealed_chain (sha256 C) provider sid log2 d"
    and eq: "head = sl_head_digest seal \<Longrightarrow>
      map content c = map content d \<or> collision (sha256 C) (digest_input ` set c) (digest_input ` set d)"
  proof (cases "head = sl_head_digest seal")
    case True
    from same_head_same_chain [OF h1 h2 [unfolded True]] show thesis using that by metis
  next
    case False
    from recomputeSessionHead_chain [OF h1] recomputeSessionHead_chain [OF h2] show thesis using that False by metis
  qed
  consider "head = sl_head_digest seal"
    | "signedMessage sid (sl_head_digest seal) \<noteq> signedMessage sid head"
      "sha256 C (signedMessage sid (sl_head_digest seal)) = sha256 C (signedMessage sid head)"
    | "sha256 C (signedMessage sid (sl_head_digest seal)) \<noteq> sha256 C (signedMessage sid head)"
    using signedMessage_head by metis
  then show ?thesis
  proof cases
    case 1
    then show ?thesis using c d eq unfolding collision_def by blast
  next
    case 2
    then show ?thesis using c d unfolding collision_def by blast
  next
    case 3
    then have "forgery C seal (sha256 C (signedMessage sid (sl_head_digest seal))) (sha256 C (signedMessage sid head))"
      using v by (auto simp: forgery_def)
    then show ?thesis using c d by blast
  qed
qed

text \<open>A concrete key, signature and digest, and a log of one chained record.\<close>

definition sample_crypto :: "(unit, unit) crypto" where
  "sample_crypto =
     \<lparr>sha256 = (\<lambda>s. s), host_key = Some ((), ''k1''),
      public_key = (\<lambda>k. if k = ''k1'' then Some () else None),
      sign_asn1 = (\<lambda>_ d. Some d), verify_asn1 = (\<lambda>_ d sig. d = sig),
      b64_encode = (\<lambda>s. s), b64_decode = (\<lambda>s. Some s)\<rparr>"

definition sample_head :: string where
  "sample_head = AuditRecordDigest (\<lambda>s. s) [] [] [''event=x'', ''session_id=s1'']"

definition sample_log :: "(open_error, string) result" where
  "sample_log = Inr (''event=x session_id=s1 record_digest='' @ sample_head @ [NL])"

definition sample_seal :: Seal where
  "sample_seal = \<lparr>sl_version = 1, sl_session_id = ''s1'', sl_head_digest = sample_head,
     sl_key_id = ''k1'', sl_algorithm = Algorithm,
     sl_signature = signedMessage ''s1'' sample_head, sl_signed_at = []\<rparr>"

lemma sample_signed:
  "SignSessionHead sample_crypto sample_log ''apple-container'' ''s1'' [] = Inr sample_seal"
  by code_simp

theorem seal_tamper_evident_witness:
  "\<exists>c1 c2. sealed_chain (sha256 sample_crypto) ''apple-container'' ''s1'' sample_log c1 \<and>
    sealed_chain (sha256 sample_crypto) ''apple-container'' ''s1'' sample_log c2 \<and>
    (map content c1 = map content c2 \<or>
     collision (sha256 sample_crypto)
       (insert (signedMessage ''s1'' (sl_head_digest sample_seal)) (digest_input ` set c1))
       (insert (signedMessage ''s1'' sample_head) (digest_input ` set c2)) \<or>
     forgery sample_crypto sample_seal (sha256 sample_crypto (signedMessage ''s1'' (sl_head_digest sample_seal)))
       (sha256 sample_crypto (signedMessage ''s1'' sample_head)))"
proof -
  have "VerifySessionSeal sample_crypto sample_log ''apple-container'' ''s1'' sample_seal = Inr sample_head"
    by code_simp
  then show ?thesis by (rule seal_tamper_evident [OF sample_signed])
qed

text \<open>
  C9: a seal verifies on the log it was made from, where the key store returns the public key of
  the key it signed with and the signature scheme and the base64 text are correct; the verdict is
  the signed head.
\<close>

theorem SignSessionHead_verifies:
  assumes "SignSessionHead C log provider sid signedAt = Inr seal"
    and "host_key C = Some (key, keyID)" "public_key C keyID = Some pub"
    and "\<And>d sig. sign_asn1 C key d = Some sig \<Longrightarrow> verify_asn1 C pub d sig"
    and "\<And>sig. b64_decode C (b64_encode C sig) = Some sig"
  shows "VerifySessionSeal C log provider sid seal = Inr (sl_head_digest seal)"
  using assms
  by (auto simp: SignSessionHead_def VerifySessionSeal_def verifySealSignature_def checkSealHeader_def
      split: if_splits sum.splits option.splits)

theorem SignSessionHead_verifies_witness:
  "VerifySessionSeal sample_crypto sample_log ''apple-container'' ''s1'' sample_seal =
     Inr (sl_head_digest sample_seal)"
  by (rule SignSessionHead_verifies [OF sample_signed])
    (auto simp: sample_crypto_def)

text \<open>
  C8: what \<open>SealedSessionRecords\<close> returns is signed. The seal's signature verifies over the head
  that the seal names, the log has a prefix whose chain links from the root to that head, and
  the returned records are exactly the decoded records of the session in that prefix, in log
  order. Each of them is a record of the linked chain, so a record from before the first digest, which the signature does not
  cover, is never among them, and the last one carries the sealed head.
\<close>

theorem SealedSessionRecords_signed:
  assumes "SealedSessionRecords C log provider sid seal = Inr recs"
  shows "verifySealSignature C sid (sl_head_digest seal) seal = Inr () \<and>
    (\<exists>data qs. log = Inr data \<and> prefix qs (physical_lines data) \<and> verified (sha256 C) provider qs \<and>
      chain_head (log_chain provider qs) = sl_head_digest seal \<and>
      map Some recs = map (line_fields provider) (filter (claims provider sid) qs) \<and>
      set (map chain_record recs) \<subseteq> set (log_chain provider qs) \<and>
      recs \<noteq> [] \<and> cr_digest (chain_record (last recs)) = sl_head_digest seal)"
proof -
  from assms obtain matches where "verifySealSignature C sid (sl_head_digest seal) seal = Inr ()"
    "walkSessionChain (sha256 C) log provider sid = Inr matches"
    "sealed_prefix (sl_head_digest seal) (rev matches) = Inr recs"
    by (auto simp: SealedSessionRecords_def split: sum.splits)
  then show ?thesis using sealed_records_prefix by (fastforce simp: chain_head_def verified_def)
qed

definition sample_records :: "AuditField list list" where
  "sample_records = [[\<lparr>af_key = ''event'', af_value = ''x''\<rparr>, \<lparr>af_key = ''session_id'', af_value = ''s1''\<rparr>,
     \<lparr>af_key = ''record_digest'', af_value = sample_head\<rparr>]]"

theorem SealedSessionRecords_signed_witness:
  "verifySealSignature sample_crypto ''s1'' (sl_head_digest sample_seal) sample_seal = Inr () \<and>
    (\<exists>data qs. sample_log = Inr data \<and> prefix qs (physical_lines data) \<and>
      verified (sha256 sample_crypto) ''apple-container'' qs \<and>
      chain_head (log_chain ''apple-container'' qs) = sl_head_digest sample_seal \<and>
      map Some sample_records =
        map (line_fields ''apple-container'') (filter (claims ''apple-container'' ''s1'') qs) \<and>
      set (map chain_record sample_records) \<subseteq> set (log_chain ''apple-container'' qs) \<and>
      sample_records \<noteq> [] \<and> cr_digest (chain_record (last sample_records)) = sl_head_digest sample_seal)"
proof -
  have "SealedSessionRecords sample_crypto sample_log ''apple-container'' ''s1'' sample_seal = Inr sample_records"
    by code_simp
  then show ?thesis by (rule SealedSessionRecords_signed)
qed

end
