(* ===== verification/Audit_Append.thy ===== *)
theory Audit_Append
  imports Audit_Seal
begin

text \<open>
  The audit writer of the Apple container target (\<open>internal/applecontainer/audit.go\<close>,
  \<open>recovery.go\<close>, \<open>session_helpers.go\<close>): the chain framing of a line, the locked append
  with its roll back, the readers that filter a session's lines and the healing of torn start
  evidence. The log file is a record; the outcome of each system call the append makes is a
  field of \<open>append_io\<close>, so every error return is a branch of the model. \<open>H\<close> is
  \<open>sha256.Sum256\<close>.
\<close>

section \<open>Chain framing\<close>

definition lastRecordDigest :: "string \<Rightarrow> string" where
  "lastRecordDigest data =
     fold (\<lambda>tok acc. case cut CHR ''='' tok of
              Some (k, v) \<Rightarrow> if k = ''record_digest'' then v else acc | None \<Rightarrow> acc)
       (concat (map Fields (split_on NL data))) []"

text \<open>The decoded \<open>key=value\<close> argument of one token.\<close>

definition decoded_arg :: "string \<Rightarrow> string" where
  "decoded_arg tok =
     (case cut CHR ''='' tok of
        None \<Rightarrow> tok @ ''='' @ DecodeAuditFieldValue tok []
      | Some (key, v) \<Rightarrow> key @ ''='' @ DecodeAuditFieldValue key v)"

definition chainAuditLine :: "(string \<Rightarrow> string) \<Rightarrow> string \<Rightarrow> string \<Rightarrow> string \<times> string" where
  "chainAuditLine H prevDigest line =
     (let args = map decoded_arg (Fields line);
          digest = AuditRecordDigest H prevDigest [] args;
          line' = (if prevDigest \<noteq> [] then line @ '' prev_digest='' @ prevDigest else line)
      in (line' @ '' record_digest='' @ digest, digest))"

fun chain_lines :: "(string \<Rightarrow> string) \<Rightarrow> string \<Rightarrow> string list \<Rightarrow> string list option" where
  "chain_lines H prev [] = Some []"
| "chain_lines H prev (l # ls) =
     (let (c, prev') = chainAuditLine H prev l in
      if MaxLineBytes < length c + 1 then None
      else map_option (\<lambda>cs. c # cs) (chain_lines H prev' ls))"

section \<open>The append\<close>

record log_file =
  lf_regular :: bool
  lf_links :: nat
  lf_mode :: nat
  lf_data :: string

datatype lock_result = Locked | WouldBlock | LockError

record append_io =
  io_parent :: bool
  io_open :: bool
  io_open_stat :: bool
  io_chmod :: bool
  io_reopen :: bool
  io_reopen_stat :: bool
  io_flock :: "nat \<Rightarrow> lock_result"
  io_fstat :: bool
  io_pread :: bool
  io_read :: bool
  io_write :: "nat option"
  io_truncate :: bool
  io_rollback_sync :: bool
  io_sync :: bool
  io_dirsync :: bool

datatype append_error =
    ParentError | OpenError | NotRegular | MultiplyLinked nat | ChmodError | ReopenError
  | LockFailed | Contended | StatError | TailError | LogOversized | LogUnreadable
  | LineOversized | LogWouldExceed | WriteError | RollbackError | RollbackSyncError
  | SyncError | DirSyncError

definition auditLockAttempts :: nat where
  "auditLockAttempts = 50"

fun acquire :: "(nat \<Rightarrow> lock_result) \<Rightarrow> nat \<Rightarrow> nat \<Rightarrow> append_error option" where
  "acquire flock attempt 0 = Some Contended"
| "acquire flock attempt (Suc n) =
     (case flock attempt of
        Locked \<Rightarrow> None
      | LockError \<Rightarrow> Some LockFailed
      | WouldBlock \<Rightarrow> acquire flock (Suc attempt) n)"

definition validateAuditLogFd :: "bool \<Rightarrow> log_file \<Rightarrow> append_error option" where
  "validateAuditLogFd stat_ok f =
     (if \<not> stat_ok then Some StatError
      else if \<not> lf_regular f then Some NotRegular
      else if lf_links f \<noteq> 1 then Some (MultiplyLinked (lf_links f))
      else None)"

text \<open>The payload under the lock: the healing prefix and the chained lines.\<close>

definition heal_prefix :: "string \<Rightarrow> string" where
  "heal_prefix data = (if data \<noteq> [] \<and> last data \<noteq> NL then [NL] else [])"

definition append_payload ::
  "(string \<Rightarrow> string) \<Rightarrow> string \<Rightarrow> string \<Rightarrow> (append_error, string) result" where
  "append_payload H data line =
     (if MaxLogBytes < length data then Inl LogOversized
      else case chain_lines H (lastRecordDigest data) (split_on NL line) of
        None \<Rightarrow> Inl LineOversized
      | Some chained \<Rightarrow>
          (let payload = heal_prefix data @ join [NL] chained @ [NL] in
           if MaxLogBytes < length data + length payload then Inl LogWouldExceed
           else Inr payload))"

text \<open>The write, and its roll back after a short write.\<close>

definition write_payload ::
  "append_io \<Rightarrow> log_file \<Rightarrow> string \<Rightarrow> (append_error, unit) result \<times> log_file" where
  "write_payload io f payload =
     (case io_write io of
        Some n \<Rightarrow>
          if \<not> io_truncate io then (Inl RollbackError, f\<lparr>lf_data := lf_data f @ take n payload\<rparr>)
          else if \<not> io_rollback_sync io then (Inl RollbackSyncError, f)
          else (Inl WriteError, f)
      | None \<Rightarrow>
          (let f' = f\<lparr>lf_data := lf_data f @ payload\<rparr> in
           if \<not> io_sync io then (Inl SyncError, f')
           else if \<not> io_dirsync io then (Inl DirSyncError, f')
           else (Inr (), f')))"

definition locked_append ::
  "(string \<Rightarrow> string) \<Rightarrow> append_io \<Rightarrow> log_file \<Rightarrow> string \<Rightarrow> (append_error, unit) result \<times> log_file" where
  "locked_append H io f line =
     (case acquire (io_flock io) 0 auditLockAttempts of
        Some e \<Rightarrow> (Inl e, f)
      | None \<Rightarrow>
          if \<not> io_fstat io then (Inl StatError, f)
          else if lf_data f \<noteq> [] \<and> \<not> io_pread io then (Inl TailError, f)
          else if length (lf_data f) \<le> MaxLogBytes \<and> \<not> io_read io then (Inl LogUnreadable, f)
          else case append_payload H (lf_data f) line of
                 Inl e \<Rightarrow> (Inl e, f)
               | Inr payload \<Rightarrow> write_payload io f payload)"

definition created_log :: log_file where
  "created_log = \<lparr>lf_regular = True, lf_links = 1, lf_mode = 384, lf_data = []\<rparr>"

definition appendAuditLine ::
  "(string \<Rightarrow> string) \<Rightarrow> append_io \<Rightarrow> log_file option \<Rightarrow> string \<Rightarrow>
   (append_error, unit) result \<times> log_file option" where
  "appendAuditLine H io file line =
     (if \<not> io_parent io then (Inl ParentError, file)
      else if \<not> io_open io then (Inl OpenError, file)
      else
        (let f = (case file of None \<Rightarrow> created_log | Some f \<Rightarrow> f) in
         case validateAuditLogFd (io_open_stat io) f of
           Some e \<Rightarrow> (Inl e, Some f)
         | None \<Rightarrow>
             if \<not> io_chmod io then (Inl ChmodError, Some f)
             else
               (let f = f\<lparr>lf_mode := 384\<rparr> in
                if \<not> io_reopen io then (Inl ReopenError, Some f)
                else case validateAuditLogFd (io_reopen_stat io) f of
                       Some e \<Rightarrow> (Inl e, Some f)
                     | None \<Rightarrow> apsnd Some (locked_append H io f line))))"

section \<open>Reading a session's lines\<close>

definition auditLineSentinel :: string where
  "auditLineSentinel = '' v=1''"

definition renderedAuditLine :: "string \<Rightarrow> string" where
  "renderedAuditLine line =
     (case Index (line @ '' '') (auditLineSentinel @ '' '') of
        Some i \<Rightarrow> take (i + length auditLineSentinel) line
      | None \<Rightarrow> line)"

text \<open>\<open>strings.TrimRight(s, "\n")\<close>.\<close>

definition trim_right_nl :: "string \<Rightarrow> string" where
  "trim_right_nl s = rev (dropWhile (\<lambda>c. c = NL) (rev s))"

definition filterAuditSessionLines :: "string \<Rightarrow> string \<Rightarrow> string list" where
  "filterAuditSessionLines data sessionID =
     filter (\<lambda>line. line \<noteq> [] \<and>
         list_ex (\<lambda>tok. cut CHR ''='' tok = Some (''session_id'', sessionID)) (Fields line))
       (map (renderedAuditLine \<circ> TrimSpace) (split_on NL (trim_right_nl data)))"

definition auditLineEvent :: "string \<Rightarrow> string" where
  "auditLineEvent line =
     (case find (\<lambda>tok. case cut CHR ''='' tok of Some (k, _) \<Rightarrow> k = ''event'' | None \<Rightarrow> False)
             (Fields line) of
        None \<Rightarrow> []
      | Some tok \<Rightarrow> snd (the (cut CHR ''='' tok)))"

definition auditHasEvents :: "string list \<Rightarrow> string list \<Rightarrow> bool" where
  "auditHasEvents recs events = list_all (\<lambda>e. e \<in> set (map auditLineEvent recs)) events"

text \<open>The scan of one line by \<open>auditLineFieldValue\<close>: whether the event matches, and the value.\<close>

definition scan_field :: "string \<Rightarrow> string \<Rightarrow> string \<Rightarrow> bool \<times> string \<Rightarrow> bool \<times> string" where
  "scan_field event key tok st =
     (case cut CHR ''='' tok of
        None \<Rightarrow> st
      | Some (k, v) \<Rightarrow>
          (fst st \<or> (k = ''event'' \<and> v = event), if k = key then v else snd st))"

fun auditLineFieldValue :: "string list \<Rightarrow> string \<Rightarrow> string \<Rightarrow> string" where
  "auditLineFieldValue [] event key = []"
| "auditLineFieldValue (line # ls) event key =
     (let (isEvent, val) = fold (scan_field event key) (Fields line) (False, []) in
      if isEvent then val else auditLineFieldValue ls event key)"

definition lastFieldKey :: "string \<Rightarrow> string" where
  "lastFieldKey line =
     (let toks = Fields line in
      if toks = [] then []
      else case cut CHR ''='' (last toks) of None \<Rightarrow> last toks | Some (k, _) \<Rightarrow> k)"

definition conflictingCompleteLine :: "string list \<Rightarrow> string \<Rightarrow> string \<Rightarrow> bool" where
  "conflictingCompleteLine ls event want =
     list_ex (\<lambda>line. \<not> HasPrefix want line \<and> auditLineFieldValue [line] event (lastFieldKey want) \<noteq> []) ls"

record startEvent =
  se_name :: string
  se_line :: string

datatype reconcile_error = ConflictingEvidence string | AppendFailed append_error

text \<open>The lines still missing, or the name of the first event with conflicting evidence.\<close>

fun missing_lines :: "string list \<Rightarrow> startEvent list \<Rightarrow> (reconcile_error, string list) result" where
  "missing_lines existing [] = Inr []"
| "missing_lines existing (e # es) =
     (if conflictingCompleteLine existing (se_name e) (se_line e)
        then Inl (ConflictingEvidence (se_name e))
      else case missing_lines existing es of
             Inl err \<Rightarrow> Inl err
           | Inr ms \<Rightarrow> Inr (if se_line e \<in> set existing then ms else se_line e # ms))"

definition reconcileStartEvents ::
  "(string \<Rightarrow> string) \<Rightarrow> append_io \<Rightarrow> log_file option \<Rightarrow> startEvent list \<Rightarrow> string list \<Rightarrow>
   (reconcile_error, nat) result \<times> log_file option" where
  "reconcileStartEvents H io file expected existing =
     (case missing_lines existing expected of
        Inl e \<Rightarrow> (Inl e, file)
      | Inr [] \<Rightarrow> (Inr 0, file)
      | Inr missing \<Rightarrow>
          (case appendAuditLine H io file (join [NL] missing) of
             (Inl e, file') \<Rightarrow> (Inl (AppendFailed e), file')
           | (Inr _, file') \<Rightarrow> (Inr (length missing), file')))"

section \<open>Physical lines\<close>

lemma physical_lines_snoc:
  "NL \<notin> set c \<Longrightarrow> physical_lines (c @ [NL]) = [c @ [NL]]"
  by (induction c) auto

lemma physical_lines_append:
  assumes "data = [] \<or> last data = NL"
  shows "physical_lines (data @ s) = physical_lines data @ physical_lines s"
  using assms
proof (induction data rule: physical_lines.induct)
  case (2 c cs)
  show ?case
  proof (cases "c = NL")
    case True
    with 2 show ?thesis by (cases cs) auto
  next
    case False
    with "2.prems" have "cs \<noteq> []" "last cs = NL" by (auto split: if_splits)
    with 2 False have "physical_lines (cs @ s) = physical_lines cs @ physical_lines s" by simp
    moreover have "physical_lines cs \<noteq> []"
      using \<open>cs \<noteq> []\<close> by (cases cs) (auto split: list.split)
    ultimately show ?thesis using False by (auto split: list.split)
  qed
qed simp

section \<open>A rendered line and its framing\<close>

definition tok_key :: "string \<Rightarrow> string" where
  "tok_key t = (case cut CHR ''='' t of None \<Rightarrow> t | Some (k, _) \<Rightarrow> k)"

definition framing :: "string list" where
  "framing = [''timestamp'', ''prev_digest'', ''record_digest'']"

text \<open>
  The lines the writer renders: tokens \<open>key=value\<close> of printable ASCII joined by single spaces,
  with distinct keys other than the framing keys and no percent-encoded NUL.
\<close>

definition tok_ok :: "string \<Rightarrow> bool" where
  "tok_ok t \<longleftrightarrow> list_all graphic t \<and> CHR ''='' \<in> set t \<and> NUL \<notin> set (decoded_arg t)"

definition rendered_ok :: "string \<Rightarrow> bool" where
  "rendered_ok line \<longleftrightarrow>
     (let toks = Fields line in
      toks \<noteq> [] \<and> join '' '' toks = line \<and> list_all tok_ok toks \<and> distinct (map tok_key toks) \<and>
      list_all (\<lambda>t. tok_key t \<notin> set framing) toks)"

definition frame_toks :: "string \<Rightarrow> string \<Rightarrow> string list" where
  "frame_toks prev d = (if prev = [] then [] else [''prev_digest='' @ prev]) @ [''record_digest='' @ d]"

lemma tok_cut:
  assumes "CHR ''='' \<in> set t"
  obtains k v where "cut CHR ''='' t = Some (k, v)" "t = k @ CHR ''='' # v" "CHR ''='' \<notin> set k"
proof -
  from assms obtain kv where "cut CHR ''='' t = Some kv" by (cases "cut CHR ''='' t") auto
  then show ?thesis using that cut_SomeD by (metis prod.exhaust)
qed

lemma tok_ok_neq: "tok_ok t \<Longrightarrow> t \<noteq> []"
  by (auto simp: tok_ok_def)

lemma decoded_arg_plain:
  "tok_key t \<notin> set percentEncodedAuditFields \<Longrightarrow> CHR ''='' \<in> set t \<Longrightarrow> decoded_arg t = t"
  by (erule tok_cut) (simp add: tok_key_def decoded_arg_def DecodeAuditFieldValue_def)

lemma graphic_NUL: "list_all graphic t \<Longrightarrow> NUL \<notin> set t"
  by (auto simp: list_all_iff graphic_def)

lemma graphic_NL: "list_all graphic t \<Longrightarrow> NL \<notin> set t"
  by (auto simp: list_all_iff graphic_def)

lemma graphic_words:
  "list_all graphic ''prev_digest=''" "list_all graphic ''record_digest=''"
  by (simp_all add: graphic_def)

lemma frame_keys:
  "tok_key (''prev_digest='' @ p) = ''prev_digest''" "tok_key (''record_digest='' @ d) = ''record_digest''"
  by (simp_all add: tok_key_def)

lemma frame_tok_keys:
  "map tok_key (frame_toks p d) = (if p = [] then [] else [''prev_digest'']) @ [''record_digest'']"
  by (simp add: frame_toks_def tok_key_def)

lemma frame_ok:
  assumes "list_all graphic p" "list_all graphic d"
  shows "list_all tok_ok (frame_toks p d)"
proof -
  have "tok_ok (''prev_digest='' @ p)" "tok_ok (''record_digest='' @ d)"
    using assms graphic_words graphic_NUL
    by (auto simp: tok_ok_def decoded_arg_plain frame_keys percentEncodedAuditFields_def simp del: append.simps)
  then show ?thesis by (simp add: frame_toks_def)
qed

lemma chainAuditLine_tokens:
  assumes "rendered_ok line"
  shows "fst (chainAuditLine H prev line) =
      join '' '' (Fields line @ frame_toks prev (snd (chainAuditLine H prev line)))"
proof -
  have j: "join '' '' (Fields line) = line" "Fields line \<noteq> []"
    using assms by (auto simp: rendered_ok_def Let_def)
  have "join '' '' (Fields line @ [''prev_digest='' @ prev]) = line @ '' prev_digest='' @ prev"
    using j by (subst join_snoc) simp_all
  then have "join '' '' ((Fields line @ [''prev_digest='' @ prev]) @ [''record_digest='' @ d]) =
      (line @ '' prev_digest='' @ prev) @ '' record_digest='' @ d" for d
    by (subst join_snoc) simp_all
  moreover have "join '' '' (Fields line @ [''record_digest='' @ d]) = line @ '' record_digest='' @ d" for d
    using j by (subst join_snoc) simp_all
  ultimately show ?thesis by (simp add: chainAuditLine_def frame_toks_def Let_def)
qed

abbreviation P :: string where
  "P \<equiv> ''apple-container''"

definition decoded_field :: "string \<Rightarrow> AuditField" where
  "decoded_field t = \<lparr>af_key = tok_key t,
     af_value = DecodeAuditFieldValue (tok_key t) (snd (the (cut CHR ''='' t)))\<rparr>"

lemma decoded_field_token: "CHR ''='' \<in> set t \<Longrightarrow> field_token (decoded_field t) = decoded_arg t"
  by (erule tok_cut) (simp add: decoded_field_def field_token_def decoded_arg_def tok_key_def)

lemma strict_fields_percent:
  assumes "list_all tok_ok toks" "distinct (map tok_key toks)" "set (map tok_key toks) \<inter> set seen = {}"
  shows "strict_fields encodingPercentPath seen toks = Inr (map decoded_field toks)"
  using assms
proof (induction toks arbitrary: seen)
  case (Cons t toks)
  have "CHR ''='' \<in> set t" using Cons.prems(1) by (simp add: tok_ok_def)
  then obtain k v where kv: "cut CHR ''='' t = Some (k, v)" "t = k @ CHR ''='' # v"
    by (rule tok_cut)
  then have k: "tok_key t = k" by (simp add: tok_key_def)
  have "NUL \<notin> set t" using Cons.prems(1) graphic_NUL by (simp add: tok_ok_def)
  moreover have "NUL \<notin> set (DecodeAuditFieldValue k v)"
    using Cons.prems(1) kv by (simp add: tok_ok_def decoded_arg_def)
  moreover have "strict_fields encodingPercentPath (k # seen) toks = Inr (map decoded_field toks)"
    using Cons.prems k by (intro Cons.IH) auto
  ultimately show ?case using kv k Cons.prems(3) by (simp add: decoded_field_def)
qed simp

lemma fold_add_args:
  assumes "list_all (\<lambda>f. af_key f \<notin> set framing) fs"
  shows "fold add_field fs r = r\<lparr>cr_args := cr_args r @ map field_token fs\<rparr>"
  using assms by (induction fs arbitrary: r) (auto simp: add_field_def framing_def)

lemma chain_record_framed:
  assumes "list_all (\<lambda>t. tok_key t \<notin> set framing) toks" "list_all tok_ok toks"
  shows "chain_record (map decoded_field (toks @ frame_toks p d)) =
    \<lparr>cr_timestamp = [], cr_prev = p, cr_digest = d, cr_args = map decoded_arg toks\<rparr>"
proof -
  have f: "list_all (\<lambda>f. af_key f \<notin> set framing) (map decoded_field toks)"
    using assms(1) by (simp add: list_all_iff decoded_field_def)
  have "map field_token (map decoded_field toks) = map decoded_arg toks"
    using assms(2) by (simp add: list_all_iff tok_ok_def decoded_field_token)
  then show ?thesis
    by (simp add: chain_record_def fold_add_args [OF f] frame_toks_def add_field_def decoded_field_def
        DecodeAuditFieldValue_def percentEncodedAuditFields_def tok_key_def)
qed

lemma P_encoding: "auditEncodingForProvider P = encodingPercentPath"
  by code_simp

lemma ascii_space_NL: "ascii_space NL"
  by code_simp

lemma framed_fields:
  assumes r: "rendered_ok line" and g: "list_all graphic prev" "list_all graphic d"
  shows "Fields (join '' '' (Fields line @ frame_toks prev d)) = Fields line @ frame_toks prev d"
    and "TrimSpace (join '' '' (Fields line @ frame_toks prev d) @ [NL]) =
      join '' '' (Fields line @ frame_toks prev d)"
    and "line_fields P (join '' '' (Fields line @ frame_toks prev d) @ [NL]) =
      Some (map decoded_field (Fields line @ frame_toks prev d))"
    and "NL \<notin> set (join '' '' (Fields line @ frame_toks prev d))"
proof -
  let ?toks = "Fields line @ frame_toks prev d"
  let ?c = "join '' '' ?toks"
  have r': "list_all tok_ok (Fields line)" "distinct (map tok_key (Fields line))"
    "list_all (\<lambda>t. tok_key t \<notin> set framing) (Fields line)" "Fields line \<noteq> []"
    using r by (auto simp: rendered_ok_def Let_def)
  have ok: "list_all tok_ok ?toks" using r'(1) frame_ok [OF g] by simp
  then have w: "\<forall>w \<in> set ?toks. w \<noteq> [] \<and> list_all graphic w"
    unfolding list_all_iff [of tok_ok] using tok_ok_neq tok_ok_def by blast
  then show F: "Fields ?c = ?toks" by (rule Fields_join)
  have dist: "distinct (map tok_key ?toks)"
    using r'(2,3) unfolding map_append distinct_append frame_tok_keys
    by (auto simp: list_all_iff framing_def)
  have ends: "?c \<noteq> [] \<and> graphic (hd ?c) \<and> graphic (last ?c)"
    using w by (rule join_graphic_ends) (simp add: r')
  have "TrimSpace ?c = ?c" using ends by (intro TrimSpace_id) auto
  moreover have "TrimSpace (?c @ [NL]) = TrimSpace ?c"
    using ends ascii_space_NL by (rule TrimSpace_snoc_space)
  ultimately show T: "TrimSpace (?c @ [NL]) = ?c" by simp
  have "strict_fields encodingPercentPath [] ?toks = Inr (map decoded_field ?toks)"
    using ok dist by (intro strict_fields_percent) auto
  then show "line_fields P (?c @ [NL]) = Some (map decoded_field ?toks)"
    using F by (simp add: line_fields_def T DecodeAuditLineStrict_def P_encoding audit_tokens_def)
  show "NL \<notin> set ?c" using w by (rule join_graphic_NL)
qed

section \<open>A log the writer keeps\<close>

definition last_digest_tok :: "string \<Rightarrow> string \<Rightarrow> string" where
  "last_digest_tok tok acc =
     (case cut CHR ''='' tok of Some (k, v) \<Rightarrow> if k = ''record_digest'' then v else acc | None \<Rightarrow> acc)"

lemma lastRecordDigest_fold:
  "lastRecordDigest data = fold last_digest_tok (concat (map Fields (split_on NL data))) []"
  by (simp add: lastRecordDigest_def last_digest_tok_def [abs_def])

lemma Fields_Nil [simp]: "Fields [] = []"
  by (simp add: Fields_def)

lemma lastRecordDigest_append:
  assumes "data = [] \<or> last data = NL" "NL \<notin> set c" "Fields c = toks @ [''record_digest='' @ d]"
  shows "lastRecordDigest (data @ c @ [NL]) = d"
proof -
  obtain pre where "concat (map Fields (split_on NL (data @ c @ [NL]))) = pre @ toks @ [''record_digest='' @ d]"
  proof (cases data rule: rev_cases)
    case Nil
    then show ?thesis using assms(2,3) that [of "[]"] by (simp add: split_on_mid split_on_fresh)
  next
    case (snoc x y)
    then have "split_on NL (data @ c @ [NL]) = split_on NL x @ [c, []]"
      using assms(1,2) by (simp add: split_on_mid split_on_fresh)
    then show ?thesis using assms(3) that [of "concat (map Fields (split_on NL x))"] by simp
  qed
  then show ?thesis by (simp add: lastRecordDigest_fold last_digest_tok_def)
qed

text \<open>
  The invariant of the log: whole lines within the reader's limits, every one strictly
  decodable, the digests linked from the root, and the digest that the next append links to is
  the head of the chain.
\<close>

definition log_ok :: "(string \<Rightarrow> string) \<Rightarrow> string \<Rightarrow> bool" where
  "log_ok H data \<longleftrightarrow>
     (data = [] \<or> last data = NL) \<and> length data \<le> MaxLogBytes \<and>
     list_all (\<lambda>l. length l \<le> MaxLineBytes) (physical_lines data) \<and>
     decodes P (physical_lines data) \<and> links H [] (log_chain P (physical_lines data)) \<and>
     lastRecordDigest data = chain_head (log_chain P (physical_lines data)) \<and>
     list_all graphic (lastRecordDigest data)"

lemma AuditRecordDigest_graphic: "list_all graphic (AuditRecordDigest H p t a)"
  by (simp add: AuditRecordDigest_def hex_encode_graphic)

text \<open>The line stands in the log with its framing, in a chain that holds its record.\<close>

definition chained_in :: "string \<Rightarrow> string \<Rightarrow> bool" where
  "chained_in data line \<longleftrightarrow>
     (\<exists>ps p d rest r. list_all graphic p \<and> list_all graphic d \<and>
        physical_lines data = ps @ (join '' '' (Fields line @ frame_toks p d) @ [NL]) # rest \<and>
        r \<in> set (log_chain P (ps @ [join '' '' (Fields line @ frame_toks p d) @ [NL]])) \<and>
        cr_args r = map decoded_arg (Fields line))"

lemma chained_in_append:
  assumes "chained_in data line" "data = [] \<or> last data = NL"
  shows "chained_in (data @ payload) line"
  using assms(1) physical_lines_append [OF assms(2), of payload] unfolding chained_in_def by fastforce

lemma log_ok_step:
  assumes ok: "log_ok H data" and r: "rendered_ok line"
    and c: "chainAuditLine H (lastRecordDigest data) line = (c, d)"
    and lim: "length c + 1 \<le> MaxLineBytes" "length (data @ c @ [NL]) \<le> MaxLogBytes"
    and H: "\<And>x. H x \<noteq> []"
  shows "log_ok H (data @ c @ [NL])" "lastRecordDigest (data @ c @ [NL]) = d"
    "chained_in (data @ c @ [NL]) line"
proof -
  let ?p = "lastRecordDigest data" and ?toks = "Fields line"
  have end_nl: "data = [] \<or> last data = NL" and gp: "list_all graphic ?p"
    using ok by (auto simp: log_ok_def)
  have d: "d = AuditRecordDigest H ?p [] (map decoded_arg ?toks)"
    using c by (simp add: chainAuditLine_def Let_def)
  have gd: "list_all graphic d" unfolding d by (rule AuditRecordDigest_graphic)
  have cj: "c = join '' '' (?toks @ frame_toks ?p d)" using chainAuditLine_tokens [OF r, of H ?p] c by simp
  note ff = framed_fields [OF r gp gd, folded cj]
  have pl: "physical_lines (data @ c @ [NL]) = physical_lines data @ [c @ [NL]]"
    using physical_lines_append [OF end_nl] physical_lines_snoc [OF ff(4)] by simp
  have nb: "TrimSpace (c @ [NL]) \<noteq> []" using ff(1,2) by (auto simp: frame_toks_def)
  have lf: "line_fields P (c @ [NL]) = Some (map decoded_field (?toks @ frame_toks ?p d))" by (rule ff(3))
  have hd: "has_digest (map decoded_field (?toks @ frame_toks ?p d))"
    by (simp add: has_digest_def frame_toks_def decoded_field_def tok_key_def)
  let ?r = "chain_record (map decoded_field (?toks @ frame_toks ?p d))"
  have rec: "?r = \<lparr>cr_timestamp = [], cr_prev = ?p, cr_digest = d, cr_args = map decoded_arg ?toks\<rparr>"
    using r by (intro chain_record_framed) (auto simp: rendered_ok_def Let_def)
  have lc: "log_chain P (physical_lines (data @ c @ [NL])) = log_chain P (physical_lines data) @ [?r]"
    unfolding pl using log_chain_snoc [OF nb lf] hd by simp
  then have "?r \<in> set (log_chain P (physical_lines data @ [c @ [NL]]))" using pl by simp
  then show "chained_in (data @ c @ [NL]) line"
    unfolding chained_in_def using pl cj gp gd rec
    by (intro exI [of _ "physical_lines data"] exI [of _ ?p] exI [of _ d] exI [of _ "[]"] exI [of _ ?r]) simp
  show lr: "lastRecordDigest (data @ c @ [NL]) = d"
    using lastRecordDigest_append [OF end_nl ff(4)] ff(1) by (simp add: frame_toks_def)
  have "d \<noteq> []" unfolding d AuditRecordDigest_def using H by (metis length_0_conv length_hex_encode mult_eq_0_iff zero_neq_numeral)
  moreover have "links H [] (log_chain P (physical_lines data))"
    "?p = chain_head (log_chain P (physical_lines data))"
    using ok by (simp_all add: log_ok_def)
  ultimately have "links H [] (log_chain P (physical_lines (data @ c @ [NL])))"
    unfolding lc rec links_snoc using d
    by (simp add: AuditRecordDigest_def digest_input_def chain_head_def)
  moreover have "decodes P (physical_lines (data @ c @ [NL]))"
    unfolding pl using ok lf by (simp add: decodes_snoc log_ok_def)
  moreover have "chain_head (log_chain P (physical_lines (data @ c @ [NL]))) = d"
    unfolding lc rec by (simp add: chain_head_def)
  ultimately show "log_ok H (data @ c @ [NL])"
    using ok lim lr gd pl by (simp add: log_ok_def)
qed

section \<open>A log the writer kept verifies\<close>

lemma charge_line_ok:
  "tot + n \<le> MaxLogBytes \<Longrightarrow> k + n \<le> MaxLineBytes \<Longrightarrow> charge_line i tot k n = Inr (tot + n)"
proof (induction i tot k n rule: charge_line.induct)
  case (1 i tot k n)
  show ?case
  proof (cases "n \<le> 65536")
    case True
    with 1 show ?thesis by (simp add: charge_line.simps [of i tot k n])
  next
    case False
    then have "charge_line i (tot + 65536) (k + 65536) (n - 65536) = Inr (tot + n)"
      using 1 by simp
    with False "1.prems" show ?thesis by (simp add: charge_line.simps [of i tot k n])
  qed
qed

lemma walk_line_complete:
  assumes inv: "chain_inv H provider ps w" "w_err w = None"
    and ok: "decodes provider (ps @ [l])" "links H [] (log_chain provider (ps @ [l]))"
  shows "\<exists>w'. walk_line H provider sid l w = Inr w' \<and> w_err w' = None"
proof (cases "TrimSpace l = []")
  case True
  with inv show ?thesis by (simp add: walk_line_def)
next
  case False
  with ok(1) obtain fs where fs: "DecodeAuditLineStrict (TrimSpace l) provider = Inr fs"
    and lf: "line_fields provider l = Some fs"
    by (auto simp: decodes_snoc line_fields_def split: sum.splits)
  have tok: "AuditLineTokenizable (TrimSpace l) provider"
    using fs by (auto simp: AuditLineTokenizable_def DecodeAuditLineStrict_def Let_def split: prod.splits if_splits)
  let ?w = "w\<lparr>w_logical := Suc (w_logical w)\<rparr>"
  have c: "log_chain provider (ps @ [l]) = (if log_chain provider ps \<noteq> [] \<or> has_digest fs
      then log_chain provider ps @ [chain_record fs] else [])"
    using log_chain_snoc [OF False lf] .
  have I: "w_started w = (log_chain provider ps \<noteq> [])" "w_expected w = chain_head (log_chain provider ps)"
    using inv by (auto simp: chain_inv_def)
  have "w_err (walk_link H (w_logical w) fs ?w) = None"
    using inv I ok(2) unfolding c
    by (auto simp: walk_link_def Let_def links_snoc AuditRecordDigest_def digest_input_def chain_head_def
        split: if_splits)
  then show ?thesis using False fs tok by (auto simp: walk_line_def Let_def walk_match_def)
qed

lemma links_prefix: "links H p (c @ d) \<Longrightarrow> links H p c"
  by (induction c arbitrary: p) auto

lemma for_each_line_complete:
  assumes "walk_inv H provider sid ps w" "w_err w = None"
    and "decodes provider (ps @ ls)" "links H [] (log_chain provider (ps @ ls))"
    and "list_all (\<lambda>l. length l \<le> MaxLineBytes) ls" "tot + length (concat ls) \<le> MaxLogBytes"
  shows "\<exists>w'. for_each_line (walk_line H provider sid) n tot ls w = Inr w' \<and> w_err w' = None \<and>
    walk_inv H provider sid (ps @ ls) w'"
  using assms
proof (induction ls arbitrary: n tot w ps)
  case (Cons l ls)
  have dec: "decodes provider ((ps @ [l]) @ ls)" and lk: "links H [] (log_chain provider ((ps @ [l]) @ ls))"
    using Cons.prems by simp_all
  then have "decodes provider (ps @ [l])" "links H [] (log_chain provider (ps @ [l]))"
    using decodes_append log_chain_prefix links_prefix by metis+
  then obtain w1 where w1: "walk_line H provider sid l w = Inr w1" "w_err w1 = None"
    using walk_line_complete Cons.prems(1,2) by (metis walk_inv_def)
  have inv1: "walk_inv H provider sid (ps @ [l]) w1" using walk_line_inv [OF w1(1) Cons.prems(1)] .
  have ch: "charge_line n tot 0 (length l) = Inr (tot + length l)"
    using Cons.prems(5,6) by (intro charge_line_ok) auto
  from Cons.IH [OF inv1 w1(2) dec lk, of "tot + length l" "Suc n"] Cons.prems(5,6) w1 ch
  show ?case by simp
qed simp

lemma concat_physical_lines [simp]: "concat (physical_lines s) = s"
  by (induction s rule: physical_lines.induct) (auto split: list.split)

lemma for_each_line_snoc:
  "for_each_line fn n tot (ls @ [l]) w = Inr w' \<Longrightarrow> \<exists>w1. fn l w1 = Inr w'"
  by (induction ls arbitrary: n tot w) (auto split: sum.splits)

lemma for_each_line_append:
  "for_each_line fn n tot (xs @ ys) w = Inr w' \<Longrightarrow>
   \<exists>w1 n' tot'. for_each_line fn n tot xs w = Inr w1 \<and> for_each_line fn n' tot' ys w1 = Inr w'"
  by (induction xs arbitrary: n tot w) (auto split: sum.splits)

lemma walk_line_claims:
  assumes "walk_line H provider sid l w = Inr w'" "claims provider sid l"
  shows "\<exists>fs v. w' = walk_match fs v"
  using assms by (auto simp: walk_line_def claims_def Let_def split: if_splits sum.splits)

lemma walk_line_unclaimed:
  "walk_line H provider sid l w = Inr w' \<Longrightarrow> \<not> claims provider sid l \<Longrightarrow> w_matches w' = w_matches w"
  by (auto simp: walk_line_def claims_def Let_def split: if_splits sum.splits)

lemma for_each_line_unclaimed:
  "for_each_line (walk_line H provider sid) n tot ls w = Inr w' \<Longrightarrow> list_all (\<lambda>l. \<not> claims provider sid l) ls \<Longrightarrow>
   w_matches w' = w_matches w"
  by (induction ls arbitrary: n tot w) (auto split: sum.splits dest: walk_line_unclaimed)

lemma log_ok_recompute:
  assumes ok: "log_ok H data" and ls: "physical_lines data = qs @ rest" "qs \<noteq> []"
    and cl: "claims P sid (last qs)" "list_all (\<lambda>l. \<not> claims P sid l) rest"
    and ne: "log_chain P qs \<noteq> []"
  shows "recomputeSessionHead H (Inr data) P sid = Inr (chain_head (log_chain P qs))"
proof -
  have init: "walk_inv H P sid [] init_walk" "w_err init_walk = None"
    by (simp_all add: walk_inv_def chain_inv_def init_walk_def decodes_def records_def log_chain_def
        chain_head_def List.map_filter_def)
  have all: "decodes P (qs @ rest)" "links H [] (log_chain P (qs @ rest))" "length (concat (qs @ rest)) \<le> MaxLogBytes"
    "list_all (\<lambda>l. length l \<le> MaxLineBytes) (qs @ rest)"
    using ok by (simp_all add: log_ok_def flip: ls(1))
  then have qs: "decodes P qs" "links H [] (log_chain P qs)"
    using decodes_append log_chain_prefix links_prefix by metis+
  obtain w where w: "for_each_line (walk_line H P sid) 0 0 (qs @ rest) init_walk = Inr w"
    using for_each_line_complete [OF init, of "qs @ rest" 0 0] all by auto
  obtain v where v: "for_each_line (walk_line H P sid) 0 0 qs init_walk = Inr v" "w_err v = None" "walk_inv H P sid qs v"
    using for_each_line_complete [OF init, of qs 0 0] qs all by auto
  have m: "w_matches w = w_matches v"
    using for_each_line_append [OF w] v(1) for_each_line_unclaimed cl(2) by fastforce
  obtain w1 where "walk_line H P sid (last qs) w1 = Inr v"
    using v(1) ls(2) for_each_line_snoc by (metis append_butlast_last_id)
  then obtain fs u where u: "v = walk_match fs u" using walk_line_claims [OF _ cl(1)] by metis
  have "chain_inv H P qs u" "w_err u = None"
    using v(2,3) by (simp_all add: u walk_inv_def walk_match_chain, simp add: walk_match_def Let_def)
  then have "w_started u" "w_head u = chain_head (log_chain P qs)"
    using ne by (auto simp: chain_inv_def)
  with \<open>w_err u = None\<close> have "w_matches v \<noteq> []" "sm_err (last (w_matches v)) = None"
    "sm_head (last (w_matches v)) = chain_head (log_chain P qs)"
    by (simp_all add: u walk_match_def Let_def)
  then show ?thesis
    using w m ls(1) by (simp add: recomputeSessionHead_def walkSessionChain_def ForEachLine_def)
qed

text \<open>A chained line that claims the session: the log up to the last such line is what the verifier takes as the head.\<close>

lemma log_ok_session:
  assumes ok: "log_ok H data" and ls: "physical_lines data = ps @ l # rest" and cl: "claims P sid l"
    and r: "r \<in> set (log_chain P (ps @ [l]))"
  shows "\<exists>c. sealed_chain H P sid (Inr data) c \<and> recomputeSessionHead H (Inr data) P sid = Inr (chain_head c) \<and> r \<in> set c"
proof -
  have "\<exists>x \<in> set (l # rest). claims P sid x" using cl by simp
  from split_list_last_prop [OF this]
  obtain ys x zs where x: "l # rest = ys @ x # zs" "claims P sid x" "\<forall>z \<in> set zs. \<not> claims P sid z"
    by blast
  let ?qs = "ps @ ys @ [x]"
  have "physical_lines data = ps @ (ys @ x # zs)" unfolding ls x(1) ..
  then have qs: "physical_lines data = ?qs @ zs" by simp
  have last: "claims P sid (last ?qs)" "list_all (\<lambda>l. \<not> claims P sid l) zs"
    using x(2,3) by (simp_all add: list_all_iff)
  have "\<exists>ys'. ys @ [x] = l # ys'" using x(1) by (cases ys) auto
  then obtain ys' where ys': "?qs = (ps @ [l]) @ ys'" by auto
  have dec: "decodes P ?qs" "links H [] (log_chain P ?qs)"
    using ok decodes_append [of P ?qs zs] log_chain_prefix [of P ?qs zs] links_prefix
    unfolding log_ok_def qs by metis+
  have in_qs: "r \<in> set (log_chain P ?qs)"
    using r dec(1) log_chain_prefix [of P "ps @ [l]" ys'] unfolding ys' by auto
  then have ne: "log_chain P ?qs \<noteq> []" by auto
  have "sealed_chain H P sid (Inr data) (log_chain P ?qs)"
    unfolding sealed_chain_def verified_def using qs last dec ne by blast
  then show ?thesis using log_ok_recompute [OF ok qs _ last ne] in_qs by blast
qed

section \<open>The append keeps the log\<close>

lemma chain_lines_ok:
  assumes "log_ok H data" "list_all rendered_ok ls" "ls \<noteq> []"
    and "chain_lines H (lastRecordDigest data) ls = Some cs"
    and "length (data @ join [NL] cs @ [NL]) \<le> MaxLogBytes" and H: "\<And>x. H x \<noteq> []"
  shows "log_ok H (data @ join [NL] cs @ [NL]) \<and> list_all (chained_in (data @ join [NL] cs @ [NL])) ls"
  using assms(1-5)
proof (induction ls arbitrary: data cs)
  case (Cons l ls)
  let ?p = "lastRecordDigest data"
  obtain c d where c: "chainAuditLine H ?p l = (c, d)" by fastforce
  then obtain cs' where lim: "length c + 1 \<le> MaxLineBytes" and cs: "cs = c # cs'"
    and cs': "chain_lines H d ls = Some cs'"
    using Cons.prems(4) by (auto simp: Let_def split: if_splits)
  let ?data = "data @ c @ [NL]"
  have j: "join [NL] cs = c @ (if cs' = [] then [] else NL # join [NL] cs')"
    by (cases cs') (simp_all add: cs)
  then have "length ?data \<le> MaxLogBytes" using Cons.prems(5) by (auto split: if_splits)
  moreover have r: "rendered_ok l" using Cons.prems(2) by simp
  ultimately have st: "log_ok H ?data" "lastRecordDigest ?data = d" "chained_in ?data l"
    using log_ok_step [OF Cons.prems(1) _ c lim _ H] by blast+
  show ?case
  proof (cases "ls = []")
    case True
    with cs' have "cs' = []" by simp
    then show ?thesis using j st True by simp
  next
    case False
    with cs' have "cs' \<noteq> []" by (cases ls) (auto simp: Let_def split: if_splits prod.splits)
    then have eq: "data @ join [NL] cs @ [NL] = ?data @ join [NL] cs' @ [NL]" using j by simp
    have "chain_lines H (lastRecordDigest ?data) ls = Some cs'" using st(2) cs' by simp
    then show ?thesis
      using Cons.IH [OF st(1)] Cons.prems(2,5) False chained_in_append [OF st(3)] unfolding eq by simp
  qed
qed simp

lemma append_payload_ok:
  assumes "log_ok H data" "append_payload H data (join [NL] ls) = Inr payload"
    and "list_all rendered_ok ls" "ls \<noteq> []" and H: "\<And>x. H x \<noteq> []"
  shows "log_ok H (data @ payload) \<and> list_all (chained_in (data @ payload)) ls"
proof -
  have "heal_prefix data = []" using assms(1) by (auto simp: heal_prefix_def log_ok_def)
  moreover have "split_on NL (join [NL] ls) = ls"
  proof (rule split_on_join)
    have "NL \<notin> set l" if r: "rendered_ok l" for l
    proof -
      have "\<forall>w \<in> set (Fields l). w \<noteq> [] \<and> list_all graphic w" "join '' '' (Fields l) = l"
        using r tok_ok_neq by (auto simp: rendered_ok_def Let_def list_all_iff tok_ok_def)
      then show ?thesis using join_graphic_NL by metis
    qed
    then show "\<forall>w \<in> set ls. NL \<notin> set w" using assms(3) by (simp add: list_all_iff)
  qed (rule assms(4))
  ultimately obtain cs where "chain_lines H (lastRecordDigest data) ls = Some cs"
    "payload = join [NL] cs @ [NL]" "length (data @ payload) \<le> MaxLogBytes"
    using assms(2) by (auto simp: append_payload_def Let_def split: if_splits option.splits)
  then show ?thesis using chain_lines_ok [OF assms(1,3,4) _ _ H] by simp
qed

definition log_data :: "log_file option \<Rightarrow> string" where
  "log_data file = (case file of None \<Rightarrow> [] | Some f \<Rightarrow> lf_data f)"

lemma created_log_data [simp]: "lf_data created_log = []"
  by (simp add: created_log_def)

text \<open>What a call of the append can leave behind.\<close>

definition append_outcome :: "(string \<Rightarrow> string) \<Rightarrow> string \<Rightarrow> string \<Rightarrow> (append_error, unit) result \<Rightarrow> string \<Rightarrow> bool" where
  "append_outcome H old line r new =
     (case r of
        Inr _ \<Rightarrow> append_payload H old line \<in> range Inr \<and> new = old @ projr (append_payload H old line)
      | Inl e \<Rightarrow>
          if e = SyncError \<or> e = DirSyncError then new = old @ projr (append_payload H old line)
          else if e = RollbackError then prefix old new else new = old)"

lemma locked_append_outcome:
  assumes "locked_append H io f line = (r, f')"
  shows "append_outcome H (lf_data f) line r (lf_data f')"
proof (cases "acquire (io_flock io) 0 auditLockAttempts")
  case (Some e)
  have "acquire fl k n \<noteq> Some SyncError" "acquire fl k n \<noteq> Some DirSyncError"
    "acquire fl k n \<noteq> Some RollbackError" for fl k n
    by (induction fl k n rule: acquire.induct) (auto split: lock_result.splits)
  with Some assms show ?thesis by (auto simp: locked_append_def append_outcome_def)
next
  case None
  have np: "append_payload H (lf_data f) line = Inl e \<Longrightarrow> e \<noteq> SyncError \<and> e \<noteq> DirSyncError \<and> e \<noteq> RollbackError" for e
    by (auto simp: append_payload_def Let_def split: if_splits option.splits)
  show ?thesis
  proof (cases "append_payload H (lf_data f) line")
    case (Inl e)
    with None assms np show ?thesis
      by (auto simp: locked_append_def append_outcome_def split: if_splits)
  next
    case (Inr payload)
    with None assms show ?thesis
      by (auto simp: locked_append_def write_payload_def append_outcome_def Let_def
          split: if_splits option.splits)
  qed
qed

lemma apsnd_Some_eq: "apsnd Some x = (r, y) \<longleftrightarrow> (\<exists>y'. x = (r, y') \<and> y = Some y')"
  by (cases x) auto

lemma appendAuditLine_Inr:
  assumes "appendAuditLine H io file line = (Inr (), file')"
  shows "\<exists>payload. append_payload H (log_data file) line = Inr payload \<and> log_data file' = log_data file @ payload"
proof -
  let ?f = "(case file of None \<Rightarrow> created_log | Some f \<Rightarrow> f)\<lparr>lf_mode := 384\<rparr>"
  from assms obtain f' where "locked_append H io ?f line = (Inr (), f')" "file' = Some f'"
    by (auto simp: appendAuditLine_def Let_def apsnd_Some_eq split: if_splits option.splits)
  with locked_append_outcome [of H io ?f line] have
    "append_outcome H (lf_data ?f) line (Inr ()) (log_data file')" by (simp add: log_data_def)
  moreover have "lf_data ?f = log_data file" by (simp add: log_data_def split: option.split)
  ultimately show ?thesis by (auto simp: append_outcome_def)
qed

lemma framed_claims:
  assumes r: "rendered_ok line" and t: "t \<in> set (Fields line)" "cut CHR ''='' t = Some (''session_id'', sid)"
    and g: "list_all graphic p" "list_all graphic d"
  shows "claims P sid (join '' '' (Fields line @ frame_toks p d) @ [NL])"
proof -
  note ff = framed_fields [OF r g]
  have "list_all graphic t" using r t(1) by (auto simp: rendered_ok_def Let_def list_all_iff tok_ok_def)
  then have "split_on NUL t = [t]" by (simp add: split_on_fresh graphic_NUL)
  with t show ?thesis
    unfolding claims_def ff(2) AuditLineClaimsSession_def P_encoding audit_tokens_def
    using ff(1) by (auto simp: list_ex_iff intro: bexI [of _ t])
qed

section \<open>Properties\<close>

text \<open>
  C7: an append is all or nothing. Whatever system call fails, the log holds its old bytes, or the
  old bytes and the whole payload (after success, and after a failed sync of a complete write);
  only when the roll back of a short write itself fails does a fragment stay, and even then no
  old byte is lost.
\<close>

theorem appendAuditLine_atomic:
  "case appendAuditLine H io file line of
     (r, file') \<Rightarrow> append_outcome H (log_data file) line r (log_data file')"
proof -
  obtain r file' where a: "appendAuditLine H io file line = (r, file')" by fastforce
  let ?f = "(case file of None \<Rightarrow> created_log | Some f \<Rightarrow> f)"
  have f: "lf_data ?f = log_data file" by (simp add: log_data_def split: option.split)
  have v: "validateAuditLogFd b g \<noteq> Some e" if "e = SyncError \<or> e = DirSyncError \<or> e = RollbackError" for b g e
    using that by (auto simp: validateAuditLogFd_def)
  have n: "validateAuditLogFd False g = Some StatError" for g by (simp add: validateAuditLogFd_def)
  show ?thesis
  proof (cases "validateAuditLogFd (io_open_stat io) ?f = None \<and> io_parent io \<and> io_open io \<and> io_chmod io \<and> io_reopen io \<and> io_reopen_stat io")
    case True
    then obtain f' where "locked_append H io (?f\<lparr>lf_mode := 384\<rparr>) line = (r, f')" "file' = Some f'"
      using a by (auto simp: appendAuditLine_def Let_def validateAuditLogFd_def apsnd_Some_eq split: if_splits)
    with locked_append_outcome [of H io "?f\<lparr>lf_mode := 384\<rparr>" line r f'] f a show ?thesis
      by (simp add: log_data_def)
  next
    case False
    then have "log_data file' = log_data file \<and>
        (\<exists>e. r = Inl e \<and> e \<noteq> SyncError \<and> e \<noteq> DirSyncError \<and> e \<noteq> RollbackError)"
      using a f v by (auto simp: appendAuditLine_def Let_def log_data_def n split: if_splits option.splits)
    then show ?thesis using a by (auto simp: append_outcome_def)
  qed
qed

text \<open>
  C2: what the writer appends can be sealed and verified. On a log that satisfies the invariant, after a successful
  append of lines as the writer renders them (every token \<open>key=value\<close> in printable ASCII, keys all different and none of the framing
  keys) the log satisfies the invariant again, and for the session of each appended line \<open>SignSessionHead\<close>
  succeeds and \<open>VerifySessionSeal\<close> accepts the seal on the new log; the sealed chain holds the record of that line
  and its head is the sealed digest. SHA-256 is any function with a non-empty digest, and the host key signs, verifies what it
  signed, and is pinned.
\<close>

theorem append_then_verify:
  assumes "\<And>x. sha256 C x \<noteq> []" and "log_ok (sha256 C) (log_data file)" and "list_all rendered_ok ls"
    and "appendAuditLine (sha256 C) io file (join [NL] ls) = (Inr (), file')"
    and "l \<in> set ls" "t \<in> set (Fields l)" "cut CHR ''='' t = Some (''session_id'', sid)" "TrimSpace sid \<noteq> []"
    and "host_key C = Some (key, keyID)" "public_key C keyID = Some pub"
    and "\<And>d. \<exists>sig. sign_asn1 C key d = Some sig \<and> verify_asn1 C pub d sig"
    and "\<And>sig. b64_decode C (b64_encode C sig) = Some sig"
  shows "log_ok (sha256 C) (log_data file') \<and>
    (\<exists>seal c r. SignSessionHead C (Inr (log_data file')) P sid signedAt = Inr seal \<and>
       VerifySessionSeal C (Inr (log_data file')) P sid seal = Inr (sl_head_digest seal) \<and>
       sealed_chain (sha256 C) P sid (Inr (log_data file')) c \<and> sl_head_digest seal = chain_head c \<and>
       r \<in> set c \<and> cr_args r = map decoded_arg (Fields l))"
proof -
  obtain payload where pl: "append_payload (sha256 C) (log_data file) (join [NL] ls) = Inr payload"
    "log_data file' = log_data file @ payload"
    using appendAuditLine_Inr [OF assms(4)] by blast
  have "ls \<noteq> []" using assms(5) by auto
  from append_payload_ok [OF assms(2) pl(1) assms(3) this assms(1)] pl(2)
  have ok: "log_ok (sha256 C) (log_data file')" and "chained_in (log_data file') l"
    using assms(5) by (auto simp: list_all_iff)
  then obtain ps p d rest r where gr: "list_all graphic p" "list_all graphic d"
    and line: "physical_lines (log_data file') = ps @ (join '' '' (Fields l @ frame_toks p d) @ [NL]) # rest"
    and r: "r \<in> set (log_chain P (ps @ [join '' '' (Fields l @ frame_toks p d) @ [NL]]))" "cr_args r = map decoded_arg (Fields l)"
    by (auto simp: chained_in_def)
  have "rendered_ok l" using assms(3,5) by (simp add: list_all_iff)
  from framed_claims [OF this assms(6,7) gr] obtain c where c: "sealed_chain (sha256 C) P sid (Inr (log_data file')) c"
    "recomputeSessionHead (sha256 C) (Inr (log_data file')) P sid = Inr (chain_head c)" "r \<in> set c"
    using log_ok_session [OF ok line _ r(1)] by blast
  obtain seal where "SignSessionHead C (Inr (log_data file')) P sid signedAt = Inr seal" "sl_head_digest seal = chain_head c"
    "VerifySessionSeal C (Inr (log_data file')) P sid seal = Inr (sl_head_digest seal)"
    using sign_and_verify [OF c(2) assms(8-12)] by metis
  then show ?thesis using ok c(1,3) r(2) by blast
qed

definition sample_io :: append_io where
  "sample_io = \<lparr>io_parent = True, io_open = True, io_open_stat = True, io_chmod = True, io_reopen = True, io_reopen_stat = True,
     io_flock = (\<lambda>n. if n = 0 then WouldBlock else Locked), io_fstat = True, io_pread = True,
     io_read = True, io_write = None, io_truncate = True, io_rollback_sync = True,
     io_sync = True, io_dirsync = True\<rparr>"

definition sample_lines :: "string list" where
  "sample_lines = [''event=a session_id=s0'', ''event=b session_id=s1 workspace=/a%20b'']"

text \<open>A hash that is not the identity, and a key whose signature is the digest.\<close>

definition sample_host :: "(unit, unit) crypto" where
  "sample_host = sample_crypto\<lparr>sha256 := (\<lambda>s. CHR ''h'' # take 2 (rev s))\<rparr>"

definition sample_appended :: "log_file option" where
  "sample_appended = snd (appendAuditLine (sha256 sample_host) sample_io None (join [NL] sample_lines))"

theorem append_then_verify_witness:
  "log_ok (sha256 sample_host) (log_data sample_appended) \<and>
   (\<exists>seal c r. SignSessionHead sample_host (Inr (log_data sample_appended)) P ''s0'' [] = Inr seal \<and>
      VerifySessionSeal sample_host (Inr (log_data sample_appended)) P ''s0'' seal = Inr (sl_head_digest seal) \<and>
      sealed_chain (sha256 sample_host) P ''s0'' (Inr (log_data sample_appended)) c \<and> sl_head_digest seal = chain_head c \<and>
      r \<in> set c \<and> cr_args r = map decoded_arg (Fields ''event=a session_id=s0''))"
proof (rule append_then_verify [of _ None sample_lines sample_io _ _ "''session_id=s0''"])
  show "log_ok (sha256 sample_host) (log_data None)" by code_simp
  show "list_all rendered_ok sample_lines" by code_simp
  have "fst (appendAuditLine (sha256 sample_host) sample_io None (join [NL] sample_lines)) = Inr ()" by code_simp
  then show "appendAuditLine (sha256 sample_host) sample_io None (join [NL] sample_lines) = (Inr (), sample_appended)"
    unfolding sample_appended_def by (metis prod.collapse)
  show "''session_id=s0'' \<in> set (Fields ''event=a session_id=s0'')" by code_simp
  show "TrimSpace ''s0'' \<noteq> []" by code_simp
qed (simp_all add: sample_lines_def sample_host_def sample_crypto_def)

end
