(* ===== verification/Session_Record.thy ===== *)
theory Session_Record
  imports Go_Filepath Go_Sort
begin

text \<open>
  The session records of \<open>internal/host/sessions/sessions.go\<close>: the record and its display
  helpers, normalization, validation, the merge of an update into the stored record, grouping of
  parallel sessions, and the listing over several state roots. The struct has a version and 42
  string fields, so it is a record with the version and a function from the field enumeration;
  \<open>field_name\<close> gives the JSON name of a field. \<open>encoding/json\<close> is the parameter \<open>json\<close>:
  \<open>marshal\<close> is \<open>json.MarshalIndent\<close>, \<open>unmarshal\<close> a strict decode of one object with no
  trailing content.
\<close>

section \<open>The record\<close>

datatype sfield =
        SessionID | Profile | TargetKind | TargetProvider | TargetID | TargetAssuranceClass
    | RuntimeAPI | WorkspaceTransport | Agent | Mode | Status | UI | ExecutionPath | Workspace
    | WorkspaceOrigin | WorkspaceRoot | WorktreePath | GitBranch | GitHead | GitBase
    | ContainerName | MonitorPID | LiveStatus | SessionAuditDir | AuditLogPath | DebugLogPath
    | FileTraceLogPath | TranscriptLogPath | StartedAt | ObservedAt | FinishedAt | ExitStatus
    | InitialAssurance | CurrentAssurance | FinalAssurance | WorkspaceControlPlane
    | WorkspaceRepoMcp | CredentialMode | BootstrapID | ImageRef | ParentSessionID
    | EgressEnforcement

definition all_fields :: "sfield list" where
  "all_fields =
     [SessionID, Profile, TargetKind, TargetProvider, TargetID, TargetAssuranceClass,
      RuntimeAPI, WorkspaceTransport, Agent, Mode, Status, UI, ExecutionPath, Workspace,
      WorkspaceOrigin, WorkspaceRoot, WorktreePath, GitBranch, GitHead, GitBase, ContainerName,
      MonitorPID, LiveStatus, SessionAuditDir, AuditLogPath, DebugLogPath, FileTraceLogPath,
      TranscriptLogPath, StartedAt, ObservedAt, FinishedAt, ExitStatus, InitialAssurance,
      CurrentAssurance, FinalAssurance, WorkspaceControlPlane, WorkspaceRepoMcp,
      CredentialMode, BootstrapID, ImageRef, ParentSessionID, EgressEnforcement]"

fun field_name :: "sfield \<Rightarrow> string" where
  "field_name SessionID = ''session_id''"
| "field_name Profile = ''profile''"
| "field_name TargetKind = ''target_kind''"
| "field_name TargetProvider = ''target_provider''"
| "field_name TargetID = ''target_id''"
| "field_name TargetAssuranceClass = ''target_assurance_class''"
| "field_name RuntimeAPI = ''runtime_api''"
| "field_name WorkspaceTransport = ''workspace_transport''"
| "field_name Agent = ''agent''"
| "field_name Mode = ''mode''"
| "field_name Status = ''status''"
| "field_name UI = ''ui''"
| "field_name ExecutionPath = ''execution_path''"
| "field_name Workspace = ''workspace''"
| "field_name WorkspaceOrigin = ''workspace_origin''"
| "field_name WorkspaceRoot = ''workspace_root''"
| "field_name WorktreePath = ''worktree_path''"
| "field_name GitBranch = ''git_branch''"
| "field_name GitHead = ''git_head''"
| "field_name GitBase = ''git_base''"
| "field_name ContainerName = ''container_name''"
| "field_name MonitorPID = ''monitor_pid''"
| "field_name LiveStatus = ''live_status''"
| "field_name SessionAuditDir = ''session_audit_dir''"
| "field_name AuditLogPath = ''audit_log_path''"
| "field_name DebugLogPath = ''debug_log_path''"
| "field_name FileTraceLogPath = ''file_trace_log_path''"
| "field_name TranscriptLogPath = ''transcript_log_path''"
| "field_name StartedAt = ''started_at''"
| "field_name ObservedAt = ''observed_at''"
| "field_name FinishedAt = ''finished_at''"
| "field_name ExitStatus = ''exit_status''"
| "field_name InitialAssurance = ''initial_assurance''"
| "field_name CurrentAssurance = ''current_assurance''"
| "field_name FinalAssurance = ''final_assurance''"
| "field_name WorkspaceControlPlane = ''workspace_control_plane''"
| "field_name WorkspaceRepoMcp = ''workspace_repo_mcp''"
| "field_name CredentialMode = ''credential_mode''"
| "field_name BootstrapID = ''bootstrap_id''"
| "field_name ImageRef = ''image_ref''"
| "field_name ParentSessionID = ''parent_session_id''"
| "field_name EgressEnforcement = ''egress_enforcement''"

record SessionRecord =
  version :: int
  str_of :: "sfield \<Rightarrow> string"

abbreviation str :: "SessionRecord \<Rightarrow> sfield \<Rightarrow> string" where
  "str r f \<equiv> str_of r f"

definition set_str :: "SessionRecord \<Rightarrow> sfield \<Rightarrow> string \<Rightarrow> SessionRecord" where
  "set_str r f v = r\<lparr>str_of := (str_of r)(f := v)\<rparr>"

definition emptySessionRecord :: SessionRecord where
  "emptySessionRecord = \<lparr>version = 1, str_of = (\<lambda>_. [])\<rparr>"

section \<open>Normalization and display\<close>

definition blank :: "string \<Rightarrow> bool" where
  "blank s \<longleftrightarrow> TrimSpace s = []"

fun firstNonEmpty :: "string list \<Rightarrow> string" where
  "firstNonEmpty [] = []"
| "firstNonEmpty (v # vs) = (if \<not> blank v then v else firstNonEmpty vs)"

definition deriveWorkspaceTransport :: "SessionRecord \<Rightarrow> string" where
  "deriveWorkspaceTransport r =
     (let workspace = TrimSpace (str r Workspace);
          workspaceOrigin = TrimSpace (str r WorkspaceOrigin);
          worktreePath = TrimSpace (str r WorktreePath) in
      if workspace = [] then []
      else if (workspaceOrigin \<noteq> [] \<and> workspaceOrigin \<noteq> workspace) \<or>
              (worktreePath \<noteq> [] \<and> worktreePath \<noteq> workspace) then ''isolated-worktree-mount''
      else ''workspace-mount'')"

definition default_field :: "sfield \<Rightarrow> string \<Rightarrow> SessionRecord \<Rightarrow> SessionRecord" where
  "default_field f v r = (if blank (str r f) then set_str r f v else r)"

definition normalizeSessionRecord :: "SessionRecord \<Rightarrow> SessionRecord" where
  "normalizeSessionRecord r =
     (let r = default_field TargetKind ''local_vm'' r;
          r = default_field TargetProvider ''colima'' r;
          r = default_field TargetID (TrimSpace (str r Profile)) r;
          r = default_field TargetAssuranceClass ''strict'' r;
          r = default_field RuntimeAPI ''docker'' r
      in default_field WorkspaceTransport (deriveWorkspaceTransport r) r)"

definition SessionControlMode :: "SessionRecord \<Rightarrow> string" where
  "SessionControlMode r =
     (if \<not> blank (str r MonitorPID) then ''detached''
      else
        (let workspace = TrimSpace (str r Workspace);
             workspaceOrigin = TrimSpace (str r WorkspaceOrigin);
             worktreePath = TrimSpace (str r WorktreePath);
             currentStatus = (if blank (str r LiveStatus) then TrimSpace (str r Status)
                              else TrimSpace (str r LiveStatus)) in
         if currentStatus \<in> {''starting'', ''running'', ''stopping''} then
           (if workspace \<noteq> [] \<and> workspaceOrigin \<noteq> [] \<and> workspace = workspaceOrigin \<and>
               (worktreePath = [] \<or> worktreePath = workspace) then ''attached''
            else if \<not> blank (str r Profile) \<and> \<not> blank (str r ContainerName) then ''detached''
            else ''attached'')
         else ''attached''))"

definition SessionDisplayLiveStatus :: "SessionRecord \<Rightarrow> string" where
  "SessionDisplayLiveStatus r = firstNonEmpty [TrimSpace (str r LiveStatus), TrimSpace (str r Status)]"

definition SessionAssuranceSummary :: "SessionRecord \<Rightarrow> string" where
  "SessionAssuranceSummary r =
     firstNonEmpty [TrimSpace (str r CurrentAssurance), TrimSpace (str r FinalAssurance),
       TrimSpace (str r InitialAssurance)]"

definition SessionDisplayWorkspace :: "SessionRecord \<Rightarrow> string" where
  "SessionDisplayWorkspace r =
     (if \<not> blank (str r WorkspaceOrigin) then str r WorkspaceOrigin else str r Workspace)"

definition SessionDisplayWorktree :: "SessionRecord \<Rightarrow> string" where
  "SessionDisplayWorktree r =
     (if \<not> blank (str r WorktreePath) then str r WorktreePath else str r Workspace)"

definition SessionDisplayGitBranch :: "SessionRecord \<Rightarrow> string" where
  "SessionDisplayGitBranch r = (if \<not> blank (str r GitBranch) then str r GitBranch else ''none'')"

definition SessionTargetSummary :: "SessionRecord \<Rightarrow> string" where
  "SessionTargetSummary record =
     (let r = normalizeSessionRecord record in
      join ''/'' (filter (\<lambda>v. v \<noteq> [])
        (map (\<lambda>f. TrimSpace (str r f)) [TargetKind, TargetProvider, TargetID])))"

definition line :: "string \<Rightarrow> string \<Rightarrow> string" where
  "line name v = name @ ''='' @ v"

definition SessionDiffMetadataLines :: "SessionRecord \<Rightarrow> string list" where
  "SessionDiffMetadataLines record =
     (let r = normalizeSessionRecord record in
       [line ''target_kind'' (str r TargetKind),
        line ''target_provider'' (str r TargetProvider), line ''target_id'' (str r TargetID),
        line ''target_assurance_class'' (str r TargetAssuranceClass),
        line ''runtime_api'' (str r RuntimeAPI),
        line ''workspace_transport'' (str r WorkspaceTransport),
        line ''workspace'' (str r Workspace),
        line ''workspace_origin'' (str r WorkspaceOrigin),
        line ''workspace_root'' (str r WorkspaceRoot),
        line ''worktree_path'' (str r WorktreePath), line ''git_branch'' (str r GitBranch),
        line ''git_head'' (str r GitHead), line ''git_base'' (str r GitBase),
        line ''status'' (str r Status), line ''live_status'' (str r LiveStatus),
        line ''current_assurance'' (str r CurrentAssurance),
        line ''audit_log_path'' (str r AuditLogPath),
        line ''debug_log_path'' (str r DebugLogPath),
        line ''file_trace_log_path'' (str r FileTraceLogPath),
        line ''transcript_log_path'' (str r TranscriptLogPath),
        line ''container_name'' (str r ContainerName), line ''observed_at'' (str r ObservedAt),
        line ''workspace_control_plane'' (str r WorkspaceControlPlane),
        line ''workspace_repo_mcp'' (str r WorkspaceRepoMcp)])"

definition SessionRuntimeMetadataLines :: "SessionRecord \<Rightarrow> string list" where
  "SessionRuntimeMetadataLines record =
     (let r = normalizeSessionRecord record in
       [line ''session_id'' (str r SessionID), line ''profile'' (str r Profile),
        line ''target_kind'' (str r TargetKind),
        line ''target_provider'' (str r TargetProvider), line ''target_id'' (str r TargetID),
        line ''target_assurance_class'' (str r TargetAssuranceClass),
        line ''runtime_api'' (str r RuntimeAPI),
        line ''workspace_transport'' (str r WorkspaceTransport),
        line ''workspace'' (str r Workspace),
        line ''workspace_origin'' (str r WorkspaceOrigin),
        line ''workspace_root'' (str r WorkspaceRoot),
        line ''worktree_path'' (str r WorktreePath), line ''git_branch'' (str r GitBranch),
        line ''container_name'' (str r ContainerName), line ''status'' (str r Status),
        line ''mode'' (str r Mode), line ''monitor_pid'' (str r MonitorPID),
        line ''live_status'' (str r LiveStatus),
        line ''current_assurance'' (str r CurrentAssurance),
        line ''session_audit_dir'' (str r SessionAuditDir),
        line ''audit_log_path'' (str r AuditLogPath),
        line ''debug_log_path'' (str r DebugLogPath),
        line ''file_trace_log_path'' (str r FileTraceLogPath),
        line ''transcript_log_path'' (str r TranscriptLogPath),
        line ''observed_at'' (str r ObservedAt)])"

definition SessionShowLines :: "SessionRecord \<Rightarrow> string list" where
  "SessionShowLines record =
     (let r = normalizeSessionRecord record in
       [line ''session_id'' (str r SessionID), line ''profile'' (str r Profile),
        line ''target_kind'' (str r TargetKind),
        line ''target_provider'' (str r TargetProvider), line ''target_id'' (str r TargetID),
        line ''target_summary'' (SessionTargetSummary r),
        line ''target_assurance_class'' (str r TargetAssuranceClass),
        line ''runtime_api'' (str r RuntimeAPI), line ''control'' (SessionControlMode r),
        line ''agent'' (str r Agent), line ''mode'' (str r Mode), line ''ui'' (str r UI),
        line ''execution_path'' (str r ExecutionPath), line ''status'' (str r Status),
        line ''live_status'' (SessionDisplayLiveStatus r),
        line ''assurance'' (SessionAssuranceSummary r),
        line ''workspace_transport'' (str r WorkspaceTransport),
        line ''workspace'' (str r Workspace),
        line ''display_workspace'' (SessionDisplayWorkspace r),
        line ''display_worktree'' (SessionDisplayWorktree r),
        line ''display_git_branch'' (SessionDisplayGitBranch r),
        line ''workspace_origin'' (str r WorkspaceOrigin),
        line ''workspace_root'' (str r WorkspaceRoot),
        line ''worktree_path'' (str r WorktreePath), line ''git_branch'' (str r GitBranch),
        line ''git_head'' (str r GitHead), line ''git_base'' (str r GitBase),
        line ''container_name'' (str r ContainerName), line ''monitor_pid'' (str r MonitorPID),
        line ''started_at'' (str r StartedAt), line ''observed_at'' (str r ObservedAt),
        line ''finished_at'' (str r FinishedAt), line ''exit_status'' (str r ExitStatus),
        line ''initial_assurance'' (str r InitialAssurance),
        line ''current_assurance'' (str r CurrentAssurance),
        line ''final_assurance'' (str r FinalAssurance),
        line ''session_audit_dir'' (str r SessionAuditDir),
        line ''audit_log_path'' (str r AuditLogPath),
        line ''debug_log_path'' (str r DebugLogPath),
        line ''file_trace_log_path'' (str r FileTraceLogPath),
        line ''transcript_log_path'' (str r TranscriptLogPath),
        line ''workspace_control_plane'' (str r WorkspaceControlPlane),
        line ''workspace_repo_mcp'' (str r WorkspaceRepoMcp),
        line ''credential_mode'' (str r CredentialMode),
        line ''egress_enforcement'' (str r EgressEnforcement)])"

section \<open>Validation\<close>

datatype session_error =
    UnsupportedVersion int
  | NewlineInField sfield
  | MissingField sfield
  | UnsupportedStatus string
  | InvalidMonitorPID string
  | MonitorNeedsAuditDir
  | RunningWithFinish string
  | CompletedWithout sfield
  | UnsupportedField string
  | TerminalOverwrite string string
  | BadJson
  | MarshalFailed
  | RecordTooLarge

text \<open>The fields in the order in which the newline check reads them.\<close>

definition checkedFields :: "sfield list" where
  "checkedFields =
     [SessionID, Profile, TargetKind, TargetProvider, TargetID, TargetAssuranceClass,
      RuntimeAPI, WorkspaceTransport, Agent, Mode, Status, UI, ExecutionPath, Workspace,
      WorkspaceOrigin, WorkspaceRoot, WorktreePath, GitBranch, GitHead, GitBase, ContainerName,
      MonitorPID, LiveStatus, SessionAuditDir, AuditLogPath, DebugLogPath, FileTraceLogPath,
      TranscriptLogPath, StartedAt, ObservedAt, FinishedAt, ExitStatus, InitialAssurance,
      CurrentAssurance, FinalAssurance, WorkspaceControlPlane, WorkspaceRepoMcp,
      CredentialMode, EgressEnforcement, BootstrapID, ImageRef, ParentSessionID]"

definition requiredFields :: "sfield list" where
  "requiredFields =
     [SessionID, Profile, TargetKind, TargetProvider, TargetID, TargetAssuranceClass,
      RuntimeAPI, WorkspaceTransport, Agent, Mode, Status, Workspace, StartedAt]"

definition isTerminalSessionStatus :: "string \<Rightarrow> bool" where
  "isTerminalSessionStatus status \<longleftrightarrow> status \<in> {''exited'', ''failed'', ''aborted''}"

definition activeStatus :: "string \<Rightarrow> bool" where
  "activeStatus status \<longleftrightarrow> status \<in> {''starting'', ''running'', ''stopping''}"

definition validateStatusFields :: "SessionRecord \<Rightarrow> session_error option" where
  "validateStatusFields r =
     (if activeStatus (str r Status) then
        (if str r FinishedAt \<noteq> [] \<or> str r ExitStatus \<noteq> [] \<or> str r FinalAssurance \<noteq> []
         then Some (RunningWithFinish (str r Status)) else None)
      else map_option CompletedWithout
             (find (\<lambda>f. blank (str r f)) [FinishedAt, ExitStatus, FinalAssurance]))"

definition validateSessionRecord :: "SessionRecord \<Rightarrow> session_error option" where
  "validateSessionRecord r =
     (if version r \<noteq> 1 then Some (UnsupportedVersion (version r))
      else case find (\<lambda>f. ContainsAny (str r f) [CR, NL]) checkedFields of
        Some f \<Rightarrow> Some (NewlineInField f)
      | None \<Rightarrow>
        (case find (\<lambda>f. blank (str r f)) requiredFields of
           Some f \<Rightarrow> Some (MissingField f)
         | None \<Rightarrow>
             if \<not> activeStatus (str r Status) \<and> \<not> isTerminalSessionStatus (str r Status)
               then Some (UnsupportedStatus (str r Status))
             else if \<not> blank (str r MonitorPID) \<and>
                 (case Atoi (str r MonitorPID) of None \<Rightarrow> True | Some pid \<Rightarrow> pid \<le> 0)
               then Some (InvalidMonitorPID (str r MonitorPID))
             else if \<not> blank (str r MonitorPID) \<and> blank (str r SessionAuditDir)
               then Some MonitorNeedsAuditDir
             else validateStatusFields r))"

section \<open>Storing a record\<close>

record json =
  marshal :: "SessionRecord \<Rightarrow> string option"
  unmarshal :: "string \<Rightarrow> SessionRecord option"

definition MaxSessionRecordBytes :: nat where
  "MaxSessionRecordBytes = 2 ^ 20"

definition DecodeSessionRecord :: "json \<Rightarrow> string \<Rightarrow> (session_error, SessionRecord) result" where
  "DecodeSessionRecord J data =
     (case unmarshal J data of
        None \<Rightarrow> Inl BadJson
      | Some r \<Rightarrow>
          (let r = normalizeSessionRecord r in
           case validateSessionRecord r of Some e \<Rightarrow> Inl e | None \<Rightarrow> Inr r))"

text \<open>The keys an update may set: the JSON names of the string fields.\<close>

definition update_field :: "string \<Rightarrow> sfield option" where
  "update_field key = map_of (map (\<lambda>f. (field_name f, f)) all_fields) key"

fun apply_updates :: "(string \<times> string) list \<Rightarrow> SessionRecord \<Rightarrow> (session_error, SessionRecord) result" where
  "apply_updates [] r = Inr r"
| "apply_updates ((key, v) # updates) r =
     (case update_field key of
        None \<Rightarrow> Inl (UnsupportedField key)
      | Some f \<Rightarrow> apply_updates updates (set_str r f v))"

definition encode_merged ::
  "json \<Rightarrow> SessionRecord option \<Rightarrow> SessionRecord \<Rightarrow> (session_error, string) result" where
  "encode_merged J existing record =
     (if (case existing of None \<Rightarrow> False
          | Some e \<Rightarrow> isTerminalSessionStatus (str e Status) \<and> \<not> isTerminalSessionStatus (str record Status))
        then Inl (TerminalOverwrite (str (the existing) Status) (str record Status))
      else
        (let r = normalizeSessionRecord record in
         case validateSessionRecord r of
           Some e \<Rightarrow> Inl e
         | None \<Rightarrow>
             (case marshal J r of
                None \<Rightarrow> Inl MarshalFailed
              | Some text \<Rightarrow>
                  if MaxSessionRecordBytes < length (text @ [NL]) then Inl RecordTooLarge
                  else Inr (text @ [NL]))))"

definition encodeSessionRecordFrom ::
  "json \<Rightarrow> string option \<Rightarrow> (string \<times> string) list \<Rightarrow> (session_error, string) result" where
  "encodeSessionRecordFrom J existing updates =
     (case existing of
        None \<Rightarrow>
          (case apply_updates updates emptySessionRecord of
             Inl e \<Rightarrow> Inl e | Inr record \<Rightarrow> encode_merged J None record)
      | Some data \<Rightarrow>
          (case DecodeSessionRecord J data of
             Inl e \<Rightarrow> Inl e
           | Inr decoded \<Rightarrow>
               (case apply_updates updates decoded of
                  Inl e \<Rightarrow> Inl e | Inr record \<Rightarrow> encode_merged J (Some decoded) record)))"

section \<open>Grouping parallel sessions\<close>

record ParallelSessionGroup =
  OriginKey :: string
  Members :: "SessionRecord list"

definition SessionParallelGroupKey :: "SessionRecord \<Rightarrow> string" where
  "SessionParallelGroupKey r =
     (if \<not> blank (str r WorkspaceOrigin) then TrimSpace (str r WorkspaceOrigin)
      else TrimSpace (str r Workspace))"

text \<open>The loop that fills \<open>order\<close> and \<open>byKey\<close>.\<close>

fun group_step ::
  "SessionRecord \<Rightarrow> string list \<times> (string \<rightharpoonup> SessionRecord list) \<Rightarrow>
   string list \<times> (string \<rightharpoonup> SessionRecord list)" where
  "group_step r (order, byKey) =
     (let key = SessionParallelGroupKey r in
      case byKey key of
        None \<Rightarrow> (order @ [key], byKey(key \<mapsto> [r]))
      | Some rs \<Rightarrow> (order, byKey(key \<mapsto> rs @ [r])))"

definition GroupParallelSessions :: "SessionRecord list \<Rightarrow> ParallelSessionGroup list" where
  "GroupParallelSessions recs =
     (let (order, byKey) = fold group_step recs ([], \<lambda>_. None) in
      map (\<lambda>key. \<lparr>OriginKey = key, Members = (case byKey key of None \<Rightarrow> [] | Some rs \<Rightarrow> rs)\<rparr>)
        (sort order))"

definition inventory_member :: "SessionRecord \<Rightarrow> string list" where
  "inventory_member r =
     [line ''session_id'' (str r SessionID), line ''live_status'' (SessionDisplayLiveStatus r),
      line ''control'' (SessionControlMode r), line ''agent'' (str r Agent),
      line ''mode'' (str r Mode), line ''git_branch'' (SessionDisplayGitBranch r),
      line ''worktree'' (SessionDisplayWorktree r), line ''container_name'' (str r ContainerName)]"

definition SessionParallelInventoryLines :: "ParallelSessionGroup list \<Rightarrow> string list" where
  "SessionParallelInventoryLines groups =
     concat (map (\<lambda>g. [line ''origin'' (OriginKey g), line ''sessions'' (dec (length (Members g)))] @
         concat (map inventory_member (Members g))) groups)"

definition SessionMatchesWorkspace :: "SessionRecord \<Rightarrow> string \<Rightarrow> bool" where
  "SessionMatchesWorkspace r workspace \<longleftrightarrow>
     (let w = TrimSpace workspace in
      w = [] \<or> TrimSpace (str r Workspace) = w \<or> TrimSpace (str r WorkspaceOrigin) = w)"

section \<open>Listing the state roots\<close>

text \<open>
  A directory tree: \<open>os.ReadDir\<close> returns the entries in name order. \<open>Unreadable\<close> stands for a
  file that the owner-only reader refuses, with its content gone, and \<open>LockedDirectory\<close> for a directory that
  \<open>os.ReadDir\<close> fails on. The state root itself is what \<open>os.Stat\<close> finds, so a link to it has been followed.
\<close>

datatype node =
    Directory "(string \<times> node) list"
  | LockedDirectory
  | File string
  | Unreadable
  | Symlink

datatype list_error =
    RootNotDirectory string
  | NotDirectory string
  | ReadFailed string
  | BadRecord string session_error

record SessionRecordLocation =
  loc_record :: SessionRecord
  loc_path :: string

record SessionListOptions =
  opt_workspace :: string
  opt_profile :: string

definition is_dir :: "node \<Rightarrow> bool" where
  "is_dir n = (case n of Directory _ \<Rightarrow> True | LockedDirectory \<Rightarrow> True | _ \<Rightarrow> False)"

definition ReadDir :: "string \<Rightarrow> node \<Rightarrow> (list_error, (string \<times> node) list) result" where
  "ReadDir path n =
     (case n of Directory entries \<Rightarrow> Inr entries | LockedDirectory \<Rightarrow> Inl (ReadFailed path) | _ \<Rightarrow> Inl (NotDirectory path))"

text \<open>The entries that are directories, with their paths; links are skipped.\<close>

definition subdirs :: "string \<Rightarrow> (string \<times> node) list \<Rightarrow> (string \<times> node) list" where
  "subdirs parent entries = map (\<lambda>(name, n). (Join [parent, name], n)) (filter (\<lambda>(_, n). is_dir n) entries)"

text \<open>The three loops of \<open>targetStateDirs\<close>, from the inside out; the first error ends them.\<close>

fun for_dirs :: "(string \<Rightarrow> node \<Rightarrow> ('e, 'a list) result) \<Rightarrow> (string \<times> node) list \<Rightarrow> ('e, 'a list) result" where
  "for_dirs f [] = Inr []"
| "for_dirs f ((dir, n) # dirs) =
     (case f dir n of
        Inl e \<Rightarrow> Inl e
      | Inr xs \<Rightarrow> (case for_dirs f dirs of Inl e \<Rightarrow> Inl e | Inr rest \<Rightarrow> Inr (xs @ rest)))"

definition id_dirs :: "string \<Rightarrow> node \<Rightarrow> (list_error, (string \<times> node) list) result" where
  "id_dirs providerDir n = (case ReadDir providerDir n of Inl e \<Rightarrow> Inl e | Inr ids \<Rightarrow> Inr (subdirs providerDir ids))"

definition provider_dirs :: "string \<Rightarrow> node \<Rightarrow> (list_error, (string \<times> node) list) result" where
  "provider_dirs kindDir n =
     (case ReadDir kindDir n of Inl e \<Rightarrow> Inl e | Inr providers \<Rightarrow> for_dirs id_dirs (subdirs kindDir providers))"

definition targetStateDirs :: "string \<Rightarrow> node \<Rightarrow> (list_error, (string \<times> node) list) result" where
  "targetStateDirs targetsRoot n =
     (case ReadDir targetsRoot n of Inl e \<Rightarrow> Inl e | Inr kinds \<Rightarrow> for_dirs provider_dirs (subdirs targetsRoot kinds))"

text \<open>\<open>None\<close> is a root that does not exist.\<close>

definition sessionStateDirs :: "string \<Rightarrow> node option \<Rightarrow> (list_error, (string \<times> node) list) result" where
  "sessionStateDirs root n =
     (let root = Clean root in
      case n of
        None \<Rightarrow> Inr []
      | Some (Directory entries) \<Rightarrow>
          (let own = subdirs root entries; targetsRoot = Join [root, ''targets''] in
           case map_of entries ''targets'' of
             None \<Rightarrow> Inr own
           | Some Symlink \<Rightarrow> Inr own
           | Some targets \<Rightarrow>
               if is_dir targets
               then (case targetStateDirs targetsRoot targets of Inl e \<Rightarrow> Inl e | Inr dirs \<Rightarrow> Inr (dirs @ own))
               else Inl (NotDirectory targetsRoot))
      | Some LockedDirectory \<Rightarrow> Inl (ReadFailed root)
      | Some _ \<Rightarrow> Inl (RootNotDirectory root))"

definition keep_record :: "SessionListOptions \<Rightarrow> SessionRecord \<Rightarrow> bool" where
  "keep_record opts r \<longleftrightarrow>
     SessionMatchesWorkspace r (opt_workspace opts) \<and>
     (opt_profile opts = [] \<or> str r Profile = opt_profile opts)"

fun read_entries ::
  "json \<Rightarrow> SessionListOptions \<Rightarrow> string \<Rightarrow> (string \<times> node) list \<Rightarrow>
   (list_error, SessionRecordLocation list) result" where
  "read_entries J opts sessionDir [] = Inr []"
| "read_entries J opts sessionDir ((name, n) # es) =
     (let sessionPath = Join [sessionDir, name] in
      if \<not> HasSuffix name ''.json'' then read_entries J opts sessionDir es
      else case n of
        Directory _ \<Rightarrow> read_entries J opts sessionDir es
      | LockedDirectory \<Rightarrow> read_entries J opts sessionDir es
      | Symlink \<Rightarrow> read_entries J opts sessionDir es
      | Unreadable \<Rightarrow> Inl (ReadFailed sessionPath)
      | File data \<Rightarrow>
          (case DecodeSessionRecord J data of
             Inl e \<Rightarrow> Inl (BadRecord sessionPath e)
           | Inr r \<Rightarrow>
               (case read_entries J opts sessionDir es of
                  Inl e \<Rightarrow> Inl e
                | Inr locs \<Rightarrow>
                    Inr (if keep_record opts r then \<lparr>loc_record = r, loc_path = sessionPath\<rparr> # locs
                         else locs))))"

definition session_entries :: "string \<Rightarrow> node \<Rightarrow> (list_error, (string \<times> node) list) result" where
  "session_entries stateDir n =
     (let sessionDir = Join [stateDir, ''sessions''] in
      case n of
        Directory entries \<Rightarrow>
          (case map_of entries ''sessions'' of
             None \<Rightarrow> Inr []
           | Some Symlink \<Rightarrow> Inr []
           | Some m \<Rightarrow> ReadDir sessionDir m)
      | _ \<Rightarrow> Inl (ReadFailed sessionDir))"

fun read_state_dirs ::
  "json \<Rightarrow> SessionListOptions \<Rightarrow> (string \<times> node) list \<Rightarrow> (list_error, SessionRecordLocation list) result" where
  "read_state_dirs J opts [] = Inr []"
| "read_state_dirs J opts ((stateDir, n) # dirs) =
     (case session_entries stateDir n of
        Inl e \<Rightarrow> Inl e
      | Inr es \<Rightarrow>
          (case read_entries J opts (Join [stateDir, ''sessions'']) es of
             Inl e \<Rightarrow> Inl e
           | Inr locs \<Rightarrow>
               (case read_state_dirs J opts dirs of
                  Inl e \<Rightarrow> Inl e | Inr rest \<Rightarrow> Inr (locs @ rest))))"

definition listSessionRecordLocationsFromRoot ::
  "json \<Rightarrow> SessionListOptions \<Rightarrow> string \<Rightarrow> node option \<Rightarrow>
   (list_error, SessionRecordLocation list) result" where
  "listSessionRecordLocationsFromRoot J opts root n =
     (case sessionStateDirs root n of
        Inl e \<Rightarrow> Inl e | Inr dirs \<Rightarrow> read_state_dirs J opts dirs)"

definition newer :: "SessionRecordLocation \<Rightarrow> SessionRecordLocation \<Rightarrow> bool" where
  "newer a b =
     (if str (loc_record a) StartedAt = str (loc_record b) StartedAt
      then str (loc_record b) SessionID < str (loc_record a) SessionID
      else str (loc_record b) StartedAt < str (loc_record a) StartedAt)"

definition sortSessionRecordLocations :: "SessionRecordLocation list \<Rightarrow> SessionRecordLocation list" where
  "sortSessionRecordLocations locs = sort_stable newer locs"

abbreviation loc_id :: "SessionRecordLocation \<Rightarrow> string" where
  "loc_id l \<equiv> str (loc_record l) SessionID"

fun merge_roots ::
  "json \<Rightarrow> SessionListOptions \<Rightarrow> string list \<Rightarrow> (string \<times> node option) list \<Rightarrow>
   (list_error, SessionRecordLocation list) result" where
  "merge_roots J opts prior [] = Inr []"
| "merge_roots J opts prior ((root, n) # roots) =
     (case listSessionRecordLocationsFromRoot J opts root n of
        Inl e \<Rightarrow> Inl e
      | Inr current \<Rightarrow>
          (let fresh = filter (\<lambda>l. loc_id l \<notin> set prior) current in
           case merge_roots J opts (map loc_id fresh @ prior) roots of
             Inl e \<Rightarrow> Inl e | Inr rest \<Rightarrow> Inr (fresh @ rest)))"

definition ListSessionRecordLocationsInRoots ::
  "json \<Rightarrow> (string \<times> node option) list \<Rightarrow> SessionListOptions \<Rightarrow>
   (list_error, SessionRecordLocation list) result" where
  "ListSessionRecordLocationsInRoots J roots opts =
     (case merge_roots J opts [] roots of
        Inl e \<Rightarrow> Inl e | Inr locs \<Rightarrow> Inr (sortSessionRecordLocations locs))"

datatype find_error = ListFailed list_error | MultipleRecords string | NoRecord

definition FindSessionRecordWithPathInRoots ::
  "json \<Rightarrow> (string \<times> node option) list \<Rightarrow> string \<Rightarrow> (find_error, SessionRecord \<times> string) result" where
  "FindSessionRecordWithPathInRoots J roots sessionID =
     (case ListSessionRecordLocationsInRoots J roots \<lparr>opt_workspace = [], opt_profile = []\<rparr> of
        Inl e \<Rightarrow> Inl (ListFailed e)
      | Inr locs \<Rightarrow>
          (case filter (\<lambda>l. loc_id l = sessionID) locs of
             [] \<Rightarrow> Inl NoRecord
           | [l] \<Rightarrow> Inr (loc_record l, loc_path l)
           | _ \<Rightarrow> Inl (MultipleRecords sessionID)))"

definition canonicalAuditLogPath :: "SessionRecord \<Rightarrow> string \<Rightarrow> string option" where
  "canonicalAuditLogPath r recordPath =
     (let canonical = Join [Dir (Dir recordPath), ''workcell.audit.log''] in
      if \<not> blank (str r AuditLogPath) \<and> Clean (str r AuditLogPath) \<noteq> Clean canonical then None
      else Some canonical)"

definition auditLineHasSessionID :: "string \<Rightarrow> string \<Rightarrow> bool" where
  "auditLineHasSessionID l sessionID =
     list_ex (\<lambda>field. cut CHR ''='' field = Some (''session_id'', sessionID)) (Fields l)"

section \<open>Facts about records\<close>

lemma str_set_str [simp]: "str (set_str r f v) g = (if g = f then v else str r g)"
  "version (set_str r f v) = version r"
  by (simp_all add: set_str_def)

lemma set_str_same [simp]: "set_str (set_str r f v) f w = set_str r f w"
  by (simp add: set_str_def)

lemma set_str_id: "str r f = v \<Longrightarrow> set_str r f v = r"
  by (simp add: set_str_def fun_upd_idem)

definition defaultedFields :: "sfield list" where
  "defaultedFields = [TargetKind, TargetProvider, TargetID, TargetAssuranceClass, RuntimeAPI, WorkspaceTransport]"

lemma str_default_field:
  "str (default_field f v r) g = (if g = f \<and> blank (str r f) then v else str r g)"
  by (simp add: default_field_def)

lemma version_default_field [simp]: "version (default_field f v r) = version r"
  by (simp add: default_field_def)

lemma str_normalize:
  "str (normalizeSessionRecord r) f =
     (if blank (str r f) then
        (case f of
           TargetKind \<Rightarrow> ''local_vm'' | TargetProvider \<Rightarrow> ''colima''
         | TargetID \<Rightarrow> TrimSpace (str r Profile) | TargetAssuranceClass \<Rightarrow> ''strict''
         | RuntimeAPI \<Rightarrow> ''docker'' | WorkspaceTransport \<Rightarrow> deriveWorkspaceTransport r
         | _ \<Rightarrow> str r f)
      else str r f)"
  by (cases f) (simp_all add: normalizeSessionRecord_def Let_def str_default_field deriveWorkspaceTransport_def)

lemma normalize_other: "f \<notin> set defaultedFields \<Longrightarrow> str (normalizeSessionRecord r) f = str r f"
  by (cases f) (simp_all add: str_normalize defaultedFields_def)

lemma version_normalize [simp]: "version (normalizeSessionRecord r) = version r"
  by (simp add: normalizeSessionRecord_def Let_def)

lemma record_eqI: "version r = version s \<Longrightarrow> (\<And>f. str r f = str s f) \<Longrightarrow> r = (s :: SessionRecord)"
  by (cases r; cases s) auto

lemma derive_normalize: "deriveWorkspaceTransport (normalizeSessionRecord r) = deriveWorkspaceTransport r"
  by (simp add: deriveWorkspaceTransport_def normalize_other defaultedFields_def)

lemma normalize_idem: "normalizeSessionRecord (normalizeSessionRecord r) = normalizeSessionRecord r"
proof (rule record_eqI)
  fix f
  show "str (normalizeSessionRecord (normalizeSessionRecord r)) f = str (normalizeSessionRecord r) f"
    by (subst str_normalize) (cases f; simp add: str_normalize derive_normalize blank_def)
qed simp

lemma checkedFields_all: "set checkedFields = UNIV" "set all_fields = UNIV"
proof -
  have "f \<in> set checkedFields \<and> f \<in> set all_fields" for f
    by (cases f) (simp_all add: checkedFields_def all_fields_def)
  then show "set checkedFields = UNIV" "set all_fields = UNIV" by auto
qed

section \<open>Valid records\<close>

definition valid_record :: "SessionRecord \<Rightarrow> bool" where
  "valid_record r \<longleftrightarrow>
     version r = 1 \<and> (\<forall>f. CR \<notin> set (str r f) \<and> NL \<notin> set (str r f)) \<and>
     list_all (\<lambda>f. \<not> blank (str r f)) requiredFields \<and>
     (blank (str r MonitorPID) \<or>
      (\<exists>pid > 0. Atoi (str r MonitorPID) = Some pid) \<and> \<not> blank (str r SessionAuditDir)) \<and>
     (activeStatus (str r Status) \<and> str r FinishedAt = [] \<and> str r ExitStatus = [] \<and> str r FinalAssurance = [] \<or>
      isTerminalSessionStatus (str r Status) \<and>
        list_all (\<lambda>f. \<not> blank (str r f)) [FinishedAt, ExitStatus, FinalAssurance])"

lemma find_None_all: "find P xs = None \<longleftrightarrow> list_all (\<lambda>x. \<not> P x) xs"
  by (auto simp: find_None_iff list_all_iff)

lemma status_exclusive: "activeStatus s \<Longrightarrow> \<not> isTerminalSessionStatus s"
  by (auto simp: activeStatus_def isTerminalSessionStatus_def)

lemma validateStatusFields_None:
  assumes "activeStatus (str r Status) \<or> isTerminalSessionStatus (str r Status)"
  shows "validateStatusFields r = None \<longleftrightarrow>
     (activeStatus (str r Status) \<and> str r FinishedAt = [] \<and> str r ExitStatus = [] \<and> str r FinalAssurance = [] \<or>
      isTerminalSessionStatus (str r Status) \<and>
        list_all (\<lambda>f. \<not> blank (str r f)) [FinishedAt, ExitStatus, FinalAssurance])"
  using assms status_exclusive [of "str r Status"]
  by (auto simp: validateStatusFields_def find_None_all split: if_splits)

lemma validate_None: "validateSessionRecord r = None \<longleftrightarrow> valid_record r"
proof -
  have nl: "find (\<lambda>f. ContainsAny (str r f) [CR, NL]) checkedFields = None \<longleftrightarrow>
      (\<forall>f. CR \<notin> set (str r f) \<and> NL \<notin> set (str r f))"
    by (auto simp: find_None_iff checkedFields_all ContainsAny_iff)
  let ?s = "str r Status"
  have pid: "(case Atoi (str r MonitorPID) of None \<Rightarrow> True | Some pid \<Rightarrow> pid \<le> 0) \<longleftrightarrow>
      \<not> (\<exists>pid > 0. Atoi (str r MonitorPID) = Some pid)"
    by (cases "Atoi (str r MonitorPID)") (simp_all, metis not_less)
  let ?bad = "case Atoi (str r MonitorPID) of None \<Rightarrow> True | Some pid \<Rightarrow> pid \<le> 0"
  have "validateSessionRecord r = None \<longleftrightarrow>
      version r = 1 \<and> find (\<lambda>f. ContainsAny (str r f) [CR, NL]) checkedFields = None \<and>
      find (\<lambda>f. blank (str r f)) requiredFields = None \<and>
      (activeStatus ?s \<or> isTerminalSessionStatus ?s) \<and> \<not> (\<not> blank (str r MonitorPID) \<and> ?bad) \<and>
      \<not> (\<not> blank (str r MonitorPID) \<and> blank (str r SessionAuditDir)) \<and> validateStatusFields r = None"
    by (cases "find (\<lambda>f. ContainsAny (str r f) [CR, NL]) checkedFields";
        cases "find (\<lambda>f. blank (str r f)) requiredFields") (simp_all add: validateSessionRecord_def)
  also have "\<dots> \<longleftrightarrow> valid_record r"
    unfolding valid_record_def nl pid find_None_all [of _ requiredFields]
    using validateStatusFields_None [of r] by blast
  finally show ?thesis .
qed

section \<open>The life of a stored record\<close>

text \<open>A write replaces the stored bytes with the encoding of the merged record.\<close>

inductive session_write :: "json \<Rightarrow> string option \<Rightarrow> string option \<Rightarrow> bool" for J where
  store: "encodeSessionRecordFrom J existing updates = Inr data \<Longrightarrow> session_write J existing (Some data)"

inductive_cases session_writeE: "session_write J existing stored"

inductive session_reaches :: "json \<Rightarrow> string option \<Rightarrow> string option \<Rightarrow> bool" for J s where
  start: "session_reaches J s s"
| step: "session_reaches J s t \<Longrightarrow> session_write J t u \<Longrightarrow> session_reaches J s u"

definition stored_terminal :: "json \<Rightarrow> string option \<Rightarrow> bool" where
  "stored_terminal J s \<longleftrightarrow>
     (case s of None \<Rightarrow> False
      | Some data \<Rightarrow>
          (case DecodeSessionRecord J data of
             Inl _ \<Rightarrow> True | Inr r \<Rightarrow> isTerminalSessionStatus (str r Status)))"

lemma encode_merged_Inr:
  assumes "encode_merged J existing record = Inr data"
  obtains t where "marshal J (normalizeSessionRecord record) = Some t" "data = t @ [NL]"
    "length data \<le> MaxSessionRecordBytes" "valid_record (normalizeSessionRecord record)"
    "existing = Some e \<Longrightarrow> isTerminalSessionStatus (str e Status) \<Longrightarrow> isTerminalSessionStatus (str record Status)"
  using assms
  by (auto simp: encode_merged_def Let_def validate_None [symmetric] split: if_splits option.splits)

lemma encodeSessionRecordFrom_Inr:
  assumes "encodeSessionRecordFrom J existing updates = Inr data"
  obtains e r where "case existing of None \<Rightarrow> e = None | Some d \<Rightarrow> \<exists>x. DecodeSessionRecord J d = Inr x \<and> e = Some x"
    "apply_updates updates (case e of None \<Rightarrow> emptySessionRecord | Some x \<Rightarrow> x) = Inr r"
    "encode_merged J e r = Inr data"
  using assms
  by (cases existing) (auto simp: encodeSessionRecordFrom_def split: sum.splits)

lemma update_field_Some: "update_field key = Some f \<longleftrightarrow> key = field_name f"
proof -
  have "update_field key = Some f \<Longrightarrow> key = field_name f"
    unfolding update_field_def by (drule map_of_SomeD) auto
  moreover have "update_field (field_name f) = Some f"
    by (cases f) (simp_all add: update_field_def all_fields_def)
  ultimately show ?thesis by blast
qed

lemma field_name_inj: "field_name f = field_name g \<longleftrightarrow> f = g"
  by (metis option.inject update_field_Some)

lemma apply_updates_Inr:
  assumes "apply_updates updates r = Inr r'" "distinct (map fst updates)"
  shows "version r' = version r \<and>
    (\<forall>f. str r' f = (case map_of updates (field_name f) of None \<Rightarrow> str r f | Some v \<Rightarrow> v))"
  using assms
proof (induction updates r rule: apply_updates.induct)
  case (2 key v updates r)
  then obtain f where f: "update_field key = Some f" by (auto split: option.splits)
  then have k: "key = field_name f" by (simp add: update_field_Some)
  have "map_of updates (field_name f) = None"
    using "2.prems"(2) k by (simp add: map_of_eq_None_iff image_iff)
  moreover have "version r' = version (set_str r f v) \<and>
      (\<forall>g. str r' g = (case map_of updates (field_name g) of None \<Rightarrow> str (set_str r f v) g | Some v \<Rightarrow> v))"
    using "2.IH" [OF f] "2.prems" f by simp
  ultimately show ?case by (auto simp: k field_name_inj split: option.split)
qed simp

lemma DecodeSessionRecord_Inr:
  assumes "DecodeSessionRecord J data = Inr r"
  obtains r0 where "unmarshal J data = Some r0" "r = normalizeSessionRecord r0" "valid_record r"
  using assms by (auto simp: DecodeSessionRecord_def Let_def validate_None [symmetric] split: option.splits)

text \<open>ASCII text goes through \<open>encoding/json\<close> unchanged.\<close>

definition json_ascii :: "json \<Rightarrow> bool" where
  "json_ascii J \<longleftrightarrow>
     (\<forall>r t r' f. marshal J r = Some t \<longrightarrow> unmarshal J (t @ [NL]) = Some r' \<longrightarrow>
        list_all (\<lambda>c. byte c < 0x80) (str r f) \<longrightarrow> str r' f = str r f)"

lemma status_ascii: "isTerminalSessionStatus s \<Longrightarrow> list_all (\<lambda>c. byte c < 0x80) s"
  by (auto simp: isTerminalSessionStatus_def)

lemma session_write_terminal:
  assumes J: "json_ascii J" and "stored_terminal J s" and w: "session_write J s u"
  shows "stored_terminal J u"
proof -
  from w obtain updates data where u: "u = Some data" "encodeSessionRecordFrom J s updates = Inr data"
    by (auto elim: session_writeE)
  from u(2) obtain e r where e: "case s of None \<Rightarrow> e = None | Some d \<Rightarrow> \<exists>x. DecodeSessionRecord J d = Inr x \<and> e = Some x"
    and m: "encode_merged J e r = Inr data"
    by (rule encodeSessionRecordFrom_Inr)
  obtain x where x: "e = Some x" "isTerminalSessionStatus (str x Status)"
    using e assms(2) by (auto simp: stored_terminal_def split: option.splits)
  obtain t where t: "marshal J (normalizeSessionRecord r) = Some t" "data = t @ [NL]"
    and tm: "isTerminalSessionStatus (str r Status)"
    using encode_merged_Inr [OF m, of x] x by metis
  have st: "str (normalizeSessionRecord r) Status = str r Status"
    by (simp add: normalize_other defaultedFields_def)
  have "isTerminalSessionStatus (str y Status)" if d: "DecodeSessionRecord J data = Inr y" for y
  proof -
    obtain y0 where y0: "unmarshal J data = Some y0" "y = normalizeSessionRecord y0"
      using DecodeSessionRecord_Inr [OF d] by metis
    then have "str y0 Status = str r Status"
      using J t st status_ascii [OF tm] unfolding json_ascii_def by metis
    with y0 tm show ?thesis by (simp add: normalize_other defaultedFields_def)
  qed
  then show ?thesis using u(1) by (auto simp: stored_terminal_def split: sum.split)
qed

section \<open>Grouping is a partition\<close>

abbreviation gkey :: "SessionRecord \<Rightarrow> string" where
  "gkey r \<equiv> SessionParallelGroupKey r"

lemma group_fold:
  "fold group_step recs ([], \<lambda>_. None) = (order, byKey) \<Longrightarrow>
   set order = gkey ` set recs \<and> distinct order \<and>
   (\<forall>k. byKey k = (if k \<in> gkey ` set recs then Some (filter (\<lambda>r. gkey r = k) recs) else None))"
proof (induction recs arbitrary: order byKey rule: rev_induct)
  case (snoc r recs)
  obtain o' b where f: "fold group_step recs ([], \<lambda>_. None) = (o', b)" by fastforce
  note IH = snoc.IH [OF f]
  have st: "group_step r (o', b) = (order, byKey)" using snoc.prems f by simp
  show ?case
  proof (cases "gkey r \<in> gkey ` set recs")
    case True
    then have "b (gkey r) = Some (filter (\<lambda>x. gkey x = gkey r) recs)" using IH by simp
    with st have "order = o'" "byKey = b(gkey r \<mapsto> filter (\<lambda>x. gkey x = gkey r) recs @ [r])" by (simp_all add: Let_def)
    then show ?thesis using IH True by auto
  next
    case False
    then have "b (gkey r) = None" using IH by simp
    with st have "order = o' @ [gkey r]" "byKey = b(gkey r \<mapsto> [r])" by (simp_all add: Let_def)
    moreover have "filter (\<lambda>x. gkey x = gkey r) recs = []" unfolding filter_empty_conv using False by (metis image_eqI)
    ultimately show ?thesis using IH False by auto
  qed
qed simp

lemma mset_filter_keys:
  assumes "distinct ks" "gkey ` set recs \<subseteq> set ks"
  shows "mset (concat (map (\<lambda>k. filter (\<lambda>r. gkey r = k) recs) ks)) = mset recs"
  using assms
proof (induction recs)
  case (Cons r recs)
  obtain as bs where ks: "ks = as @ gkey r # bs" "gkey r \<notin> set as" "gkey r \<notin> set bs"
    using Cons.prems by (metis distinct_append distinct.simps(2) disjoint_iff image_insert insert_subset
        list.set(2) list.set_intros(1) split_list)
  have "map (\<lambda>k. filter (\<lambda>x. gkey x = k) (r # recs)) cs = map (\<lambda>k. filter (\<lambda>x. gkey x = k) recs) cs"
    if "gkey r \<notin> set cs" for cs
    using that by (induction cs) auto
  from this [OF ks(2)] this [OF ks(3)] have "mset (concat (map (\<lambda>k. filter (\<lambda>x. gkey x = k) (r # recs)) ks)) =
      add_mset r (mset (concat (map (\<lambda>k. filter (\<lambda>x. gkey x = k) recs) ks)))"
    unfolding ks(1) map_append list.map(2) by (simp only: concat_append concat.simps mset_append) simp
  with Cons show ?case by simp
qed simp

section \<open>The listing order\<close>

interpretation newest_first: weak_order newer
proof
  show "newer a b \<Longrightarrow> \<not> newer b a" for a b by (auto simp: newer_def split: if_splits)
  show "\<not> newer a b \<Longrightarrow> \<not> newer b c \<Longrightarrow> \<not> newer a c" for a b c by (auto simp: newer_def split: if_splits)
qed

lemma sorted_sort_stable: "sorted_wrt (\<lambda>a b. \<not> newer b a) (sortSessionRecordLocations xs)"
  unfolding sortSessionRecordLocations_def by (rule newest_first.sorted_sort)

definition listed :: "SessionListOptions \<Rightarrow> SessionRecordLocation \<Rightarrow> bool" where
  "listed opts l \<longleftrightarrow> valid_record (loc_record l) \<and> keep_record opts (loc_record l)"

lemma DecodeSessionRecord_valid: "DecodeSessionRecord J data = Inr r \<Longrightarrow> valid_record r"
  by (auto elim: DecodeSessionRecord_Inr)

lemma read_entries_listed:
  "read_entries J opts dir es = Inr locs \<Longrightarrow> list_all (listed opts) locs"
  by (induction J opts dir es arbitrary: locs rule: read_entries.induct)
    (auto simp: Let_def listed_def split: if_splits node.splits sum.splits dest: DecodeSessionRecord_valid)

lemma read_state_dirs_listed:
  "read_state_dirs J opts dirs = Inr locs \<Longrightarrow> list_all (listed opts) locs"
  by (induction J opts dirs arbitrary: locs rule: read_state_dirs.induct)
    (auto simp: Let_def split: option.splits node.splits sum.splits dest: read_entries_listed)

text \<open>
  The locations that the merge keeps of the listings of the roots: those of the first root that has the id.
\<close>

definition first_roots :: "string set \<Rightarrow> SessionRecordLocation list list \<Rightarrow> SessionRecordLocation list" where
  "first_roots prior listings =
     concat (map (\<lambda>i. filter (\<lambda>l. loc_id l \<notin> prior \<and> (\<forall>j < i. loc_id l \<notin> loc_id ` set (listings ! j))) (listings ! i))
       [0..<length listings])"

lemma first_roots_Cons:
  "first_roots prior (current # listings) =
     filter (\<lambda>l. loc_id l \<notin> prior) current @ first_roots (prior \<union> loc_id ` set current) listings"
proof -
  have "filter (\<lambda>l. loc_id l \<notin> prior \<and> (\<forall>j < Suc i. loc_id l \<notin> loc_id ` set ((current # listings) ! j))) (listings ! i) =
      filter (\<lambda>l. loc_id l \<notin> prior \<union> loc_id ` set current \<and> (\<forall>j < i. loc_id l \<notin> loc_id ` set (listings ! j))) (listings ! i)"
    for i by (intro filter_cong refl) (auto simp: All_less_Suc2)
  then show ?thesis
    unfolding first_roots_def by (simp add: upt_conv_Cons map_Suc_upt [symmetric] comp_def del: upt_Suc)
qed

text \<open>The listing of each root, in the order of the roots.\<close>

abbreviation root_listings ::
  "json \<Rightarrow> SessionListOptions \<Rightarrow> (string \<times> node option) list \<Rightarrow> SessionRecordLocation list list \<Rightarrow> bool" where
  "root_listings J opts roots listings \<equiv>
     list_all2 (\<lambda>(root, n) current. listSessionRecordLocationsFromRoot J opts root n = Inr current) roots listings"

lemma merge_roots_first:
  "merge_roots J opts prior roots = Inr locs \<Longrightarrow>
   \<exists>listings. root_listings J opts roots listings \<and> locs = first_roots (set prior) listings"
proof (induction J opts prior roots arbitrary: locs rule: merge_roots.induct)
  case (1 J opts prior)
  then show ?case by (simp add: first_roots_def)
next
  case (2 J opts prior root n roots)
  from "2.prems" obtain current where c: "listSessionRecordLocationsFromRoot J opts root n = Inr current"
    by (auto split: sum.splits)
  let ?fresh = "filter (\<lambda>l. loc_id l \<notin> set prior) current"
  from "2.prems" c obtain rest where r: "merge_roots J opts (map loc_id ?fresh @ prior) roots = Inr rest"
    "locs = ?fresh @ rest"
    by (auto simp: Let_def split: sum.splits)
  obtain listings where l: "root_listings J opts roots listings"
    "rest = first_roots (set (map loc_id ?fresh @ prior)) listings"
    using "2.IH" [OF c refl r(1)] by blast
  have "set (map loc_id ?fresh @ prior) = set prior \<union> loc_id ` set current" by auto
  then have "locs = first_roots (set prior) (current # listings)" using l(2) r(2) by (simp add: first_roots_Cons)
  then show ?case using l(1) c by (intro exI [of _ "current # listings"]) simp
qed

lemma root_listings_listed:
  "root_listings J opts roots listings \<Longrightarrow> list_all (list_all (listed opts)) listings"
  by (induction rule: list_all2_induct)
    (auto simp: listSessionRecordLocationsFromRoot_def split: sum.splits dest: read_state_dirs_listed)

lemma first_roots_subset: "set (first_roots prior listings) \<subseteq> \<Union> (set ` set listings)"
  unfolding first_roots_def using nth_mem [of _ listings] by fastforce

section \<open>Properties\<close>

text \<open>
  C3: a session never leaves its terminal state. Over any sequence of successful writes that
  starts from a stored record whose status is \<open>exited\<close>, \<open>failed\<close> or \<open>aborted\<close>, every
  stored record that can be read again has a terminal status, where \<open>encoding/json\<close> keeps ASCII
  strings.
\<close>

theorem terminal_status_sticky:
  assumes "json_ascii J" and "stored_terminal J s" and "session_reaches J s u"
  shows "stored_terminal J u"
  using assms(3)
proof (induction rule: session_reaches.induct)
  case (step t u)
  then show ?case using session_write_terminal [OF assms(1)] by blast
qed (rule assms(2))

text \<open>A concrete codec: one field per line.\<close>

definition line_json :: json where
  "line_json =
     \<lparr>marshal = (\<lambda>r. if list_all (\<lambda>f. NL \<notin> set (str r f)) all_fields
                      then Some (join [NL] (map (str r) all_fields)) else None),
      unmarshal = (\<lambda>d. let ws = split_on NL d in
         if length ws = 43
         then Some \<lparr>version = 1,
           str_of = (\<lambda>f. case map_of (zip all_fields ws) f of None \<Rightarrow> [] | Some v \<Rightarrow> v)\<rparr>
         else None)\<rparr>"

lemma zip_map_snoc: "zip xs (map f xs @ ys) = map (\<lambda>x. (x, f x)) xs"
  by (induction xs) auto

lemma line_json_ascii: "json_ascii line_json"
proof -
  have "str r' f = str r f"
    if m: "marshal line_json r = Some t" and u: "unmarshal line_json (t @ [NL]) = Some r'" for r t r' f
  proof -
    have nl: "list_all (\<lambda>f. NL \<notin> set (str r f)) all_fields" and t: "t = join [NL] (map (str r) all_fields)"
      using m by (auto simp: line_json_def split: if_splits)
    have "split_on NL t = map (str r) all_fields"
      unfolding t using nl by (intro split_on_join) (auto simp: list_all_iff all_fields_def)
    then have "split_on NL (t @ [NL]) = map (str r) all_fields @ [[]]"
      by (simp add: split_on_mid)
    then have r': "str_of r' = (\<lambda>f. case map_of (zip all_fields (map (str r) all_fields @ [[]])) f of
        None \<Rightarrow> [] | Some v \<Rightarrow> v)"
      using u by (auto simp: line_json_def Let_def split: if_splits)
    have "zip all_fields (map (str r) all_fields @ [[]]) = map (\<lambda>f. (f, str r f)) all_fields"
      by (rule zip_map_snoc)
    then show ?thesis unfolding r' by (simp add: map_of_map_restrict checkedFields_all)
  qed
  then show ?thesis by (auto simp: json_ascii_def)
qed

definition exited_updates :: "(string \<times> string) list" where
  "exited_updates = [(''session_id'', ''s1''), (''profile'', ''p''), (''agent'', ''codex''),
     (''mode'', ''strict''), (''status'', ''exited''), (''workspace'', ''/w''),
     (''started_at'', ''t0''), (''finished_at'', ''t1''), (''exit_status'', ''0''),
     (''final_assurance'', ''strict'')]"

definition exited_data :: string where
  "exited_data = projr (encodeSessionRecordFrom line_json None exited_updates)"

definition failed_data :: string where
  "failed_data = projr (encodeSessionRecordFrom line_json (Some exited_data) [(''status'', ''failed'')])"

theorem terminal_status_sticky_witness:
  "stored_terminal line_json (Some exited_data) \<and> session_reaches line_json (Some exited_data) (Some failed_data) \<and>
   stored_terminal line_json (Some failed_data)"
proof -
  have s: "stored_terminal line_json (Some exited_data)" by code_simp
  have "is_ok (encodeSessionRecordFrom line_json (Some exited_data) [(''status'', ''failed'')])" by code_simp
  then have "encodeSessionRecordFrom line_json (Some exited_data) [(''status'', ''failed'')] = Inr failed_data"
    by (auto simp: failed_data_def is_ok_def split: sum.splits)
  then have r: "session_reaches line_json (Some exited_data) (Some failed_data)"
    by (meson session_reaches.intros session_write.intros)
  show ?thesis using s r terminal_status_sticky [OF line_json_ascii s r] by simp
qed

text \<open>
  What is stored is the merge, and it is valid. A successful encode has decoded and validated
  the existing record (or started from an empty one); the record it writes is normalized and
  valid, fits the size bound, and every field without a default holds the updated value, or the
  old value where the update names no such field.
\<close>

theorem encodeSessionRecord_merge:
  assumes "encodeSessionRecordFrom J existing updates = Inr data" and "distinct (map fst updates)"
  shows "\<exists>base r. (case existing of None \<Rightarrow> base = emptySessionRecord | Some d \<Rightarrow> DecodeSessionRecord J d = Inr base) \<and>
    marshal J r = Some (butlast data) \<and> length data \<le> MaxSessionRecordBytes \<and>
    valid_record r \<and> normalizeSessionRecord r = r \<and>
    list_all (\<lambda>f. str r f = (case map_of updates (field_name f) of None \<Rightarrow> str base f | Some v \<Rightarrow> v))
      (filter (\<lambda>f. f \<notin> set defaultedFields) all_fields)"
proof -
  from assms(1) obtain e r where
    e: "case existing of None \<Rightarrow> e = None | Some d \<Rightarrow> \<exists>x. DecodeSessionRecord J d = Inr x \<and> e = Some x"
    and u: "apply_updates updates (case e of None \<Rightarrow> emptySessionRecord | Some x \<Rightarrow> x) = Inr r"
    and m: "encode_merged J e r = Inr data"
    by (rule encodeSessionRecordFrom_Inr)
  let ?base = "case e of None \<Rightarrow> emptySessionRecord | Some x \<Rightarrow> x" and ?r = "normalizeSessionRecord r"
  have "case existing of None \<Rightarrow> ?base = emptySessionRecord | Some d \<Rightarrow> DecodeSessionRecord J d = Inr ?base"
    using e by (auto split: option.splits)
  moreover obtain t where "marshal J ?r = Some t" "data = t @ [NL]" "length data \<le> MaxSessionRecordBytes"
    "valid_record ?r"
    using encode_merged_Inr [OF m] by metis
  moreover have "str ?r f = (case map_of updates (field_name f) of None \<Rightarrow> str ?base f | Some v \<Rightarrow> v)"
    if "f \<notin> set defaultedFields" for f
    using apply_updates_Inr [OF u assms(2)] that by (simp add: normalize_other)
  ultimately show ?thesis
    by (intro exI [of _ ?base] exI [of _ ?r]) (simp add: normalize_idem list_all_iff)
qed

theorem encodeSessionRecord_merge_witness:
  "\<exists>base r. DecodeSessionRecord line_json exited_data = Inr base \<and>
    marshal line_json r = Some (butlast failed_data) \<and> length failed_data \<le> MaxSessionRecordBytes \<and>
    valid_record r \<and> normalizeSessionRecord r = r \<and>
    list_all (\<lambda>f. str r f = (case map_of [(''status'', ''failed'')] (field_name f) of
        None \<Rightarrow> str base f | Some v \<Rightarrow> v)) (filter (\<lambda>f. f \<notin> set defaultedFields) all_fields)"
proof -
  have "is_ok (encodeSessionRecordFrom line_json (Some exited_data) [(''status'', ''failed'')])" by code_simp
  then have "encodeSessionRecordFrom line_json (Some exited_data) [(''status'', ''failed'')] = Inr failed_data"
    by (auto simp: failed_data_def is_ok_def split: sum.splits)
  from encodeSessionRecord_merge [OF this] show ?thesis by simp
qed

text \<open>
  Grouping parallel sessions is a partition: the groups come in strictly increasing order of
  their origin key, each group holds exactly the sessions with that key in input order, no group
  is empty, and together they hold every session once.
\<close>

theorem GroupParallelSessions_partition:
  "sorted (map OriginKey (GroupParallelSessions recs)) \<and> distinct (map OriginKey (GroupParallelSessions recs)) \<and>
   list_all (\<lambda>g. Members g = filter (\<lambda>r. SessionParallelGroupKey r = OriginKey g) recs \<and> Members g \<noteq> [])
     (GroupParallelSessions recs) \<and>
   mset (concat (map Members (GroupParallelSessions recs))) = mset recs"
proof -
  obtain order byKey where f: "fold group_step recs ([], \<lambda>_. None) = (order, byKey)" by fastforce
  note g = group_fold [OF f]
  have G: "GroupParallelSessions recs =
      map (\<lambda>k. \<lparr>OriginKey = k, Members = filter (\<lambda>r. gkey r = k) recs\<rparr>) (sort order)"
    unfolding GroupParallelSessions_def f Let_def split_conv using g by (intro map_cong) auto
  have "filter (\<lambda>r. gkey r = k) recs \<noteq> []" if "k \<in> set order" for k
    using that g unfolding filter_empty_conv by auto
  moreover have "mset (concat (map (\<lambda>k. filter (\<lambda>r. gkey r = k) recs) (sort order))) = mset recs"
    using g by (intro mset_filter_keys) auto
  ultimately show ?thesis using g by (simp add: G comp_def list_all_iff)
qed

text \<open>
  C11: a listing over several state roots is the merge of the listings of the roots. It shows, newest
  first with ties broken by descending session id, exactly the records that the first root with their session id
  lists, so no id comes from two roots; a root that holds an id twice shows both. Every record shown is valid and
  matches the filters.
\<close>

theorem session_listing_ok:
  assumes "ListSessionRecordLocationsInRoots J roots opts = Inr locs"
  shows "list_all (listed opts) locs \<and> sorted_wrt (\<lambda>a b. \<not> newer b a) locs \<and>
    (\<exists>listings. root_listings J opts roots listings \<and>
       mset locs = (\<Sum>i < length listings.
         filter_mset (\<lambda>l. \<forall>j < i. loc_id l \<notin> loc_id ` set (listings ! j)) (mset (listings ! i))))"
proof -
  obtain ls where ls: "merge_roots J opts [] roots = Inr ls" "locs = sortSessionRecordLocations ls"
    using assms by (auto simp: ListSessionRecordLocationsInRoots_def split: sum.splits)
  obtain listings where l: "root_listings J opts roots listings" "ls = first_roots {} listings"
    using merge_roots_first [OF ls(1)] by auto
  have "list_all (listed opts) ls"
    using root_listings_listed [OF l(1)] first_roots_subset [of "{}" listings] l(2) by (fastforce simp: list_all_iff)
  moreover have "mset locs = mset ls" using ls(2) by (simp add: sortSessionRecordLocations_def)
  moreover have "mset ls = (\<Sum>i < length listings.
      filter_mset (\<lambda>l. \<forall>j < i. loc_id l \<notin> loc_id ` set (listings ! j)) (mset (listings ! i)))"
    unfolding l(2) first_roots_def
    by (simp add: mset_concat comp_def interv_sum_list_conv_sum_set_nat atLeast0LessThan)
  ultimately have "mset locs = (\<Sum>i < length listings.
      filter_mset (\<lambda>l. \<forall>j < i. loc_id l \<notin> loc_id ` set (listings ! j)) (mset (listings ! i)))"
    and "list_all (listed opts) locs"
    by (simp_all add: list_all_iff mset_eq_setD [of locs ls])
  moreover have "sorted_wrt (\<lambda>a b. \<not> newer b a) locs" unfolding ls(2) by (rule sorted_sort_stable)
  ultimately show ?thesis using l(1) by blast
qed

definition sample_tree :: node where
  "sample_tree = Directory [(''p'', Directory [(''sessions'', Directory
     [(''s1.json'', File exited_data), (''s2.json'', Symlink), (''notes'', File [])])])]"

definition sample_opts :: SessionListOptions where
  "sample_opts = \<lparr>opt_workspace = [], opt_profile = ''p''\<rparr>"

definition sample_locations :: "SessionRecordLocation list" where
  "sample_locations = projr (ListSessionRecordLocationsInRoots line_json [(''/state'', Some sample_tree), (''/old'', Some sample_tree)] sample_opts)"

theorem session_listing_ok_witness:
  "length sample_locations = 1 \<and> list_all (listed sample_opts) sample_locations \<and>
   sorted_wrt (\<lambda>a b. \<not> newer b a) sample_locations \<and>
   (\<exists>listings. root_listings line_json sample_opts [(''/state'', Some sample_tree), (''/old'', Some sample_tree)] listings \<and>
      mset sample_locations = (\<Sum>i < length listings.
        filter_mset (\<lambda>l. \<forall>j < i. loc_id l \<notin> loc_id ` set (listings ! j)) (mset (listings ! i))))"
proof -
  have "is_ok (ListSessionRecordLocationsInRoots line_json [(''/state'', Some sample_tree), (''/old'', Some sample_tree)] sample_opts)"
    by code_simp
  then have "ListSessionRecordLocationsInRoots line_json [(''/state'', Some sample_tree), (''/old'', Some sample_tree)] sample_opts =
      Inr sample_locations"
    by (auto simp: sample_locations_def is_ok_def split: sum.splits)
  moreover have "length sample_locations = 1" by code_simp
  ultimately show ?thesis using session_listing_ok by blast
qed

end
