(* ===== verification/Apt_Protocol.thy ===== *)
theory Apt_Protocol
  imports Go_Prelude "HOL-Library.Word"
begin

text \<open>
  The wire protocol of the apt broker, \<open>internal/aptbroker/protocol.go\<close>: length-prefixed
  frames, requests and responses. The Go integers keep their width: a count is a \<open>16 word\<close>,
  a length a \<open>32 word\<close>, and a conversion \<open>uint32(len(x))\<close> wraps. The parser's reader is the
  list of the bytes left; an environment map is an association list with distinct names.
\<close>

section \<open>Constants and messages\<close>

definition MaxRequestBytes :: nat where "MaxRequestBytes = 512 * 1024"
definition MaxArguments :: nat where "MaxArguments = 64"
definition MaxEnvironment :: nat where "MaxEnvironment = 3"
definition MaxOutputBytes :: nat where "MaxOutputBytes = 1024 * 1024"
definition maxSocketPathLength :: nat where "maxSocketPathLength = 103"

definition requestMagic :: string where "requestMagic = ''WCBR''"
definition responseMagic :: string where "responseMagic = ''WCRS''"
definition frameHeaderSize :: nat where "frameHeaderSize = 9"

definition checkSocketPathLength :: "string \<Rightarrow> bool" where
  "checkSocketPathLength path \<longleftrightarrow> length path \<le> maxSocketPathLength"

definition allowedEnvironmentValues :: "(string \<times> string list) list" where
  "allowedEnvironmentValues =
     [(''APT_LISTCHANGES_FRONTEND'', [''none'', ''text'']),
      (''DEBCONF_NONINTERACTIVE_SEEN'', [''true'']),
      (''DEBIAN_FRONTEND'', [''noninteractive''])]"

record Request =
  Args :: "string list"
  Env :: "(string \<times> string) list"

record Response =
  Status :: int
  Stdout :: string
  Stderr :: string

datatype proto_error =
    ArgumentBounds
  | EnvironmentBounds
  | UnsupportedEnvironment string
  | RequestTooLarge
  | BadArgumentCount
  | BadArgument
  | BadEnvironmentCount
  | BadEnvironmentName
  | UnsupportedEnvironmentName
  | BadEnvironmentValue
  | DuplicateEnvironment
  | TrailingRequest
  | BadStatus
  | OutputTooLarge
  | BadResponse
  | FrameTruncated
  | BadFrame
  | FrameTooLarge

section \<open>Big-endian integers\<close>

definition put_u16 :: "16 word \<Rightarrow> string" where
  "put_u16 w = [char_of (unat w div 256), char_of (unat w mod 256)]"

definition put_u32 :: "32 word \<Rightarrow> string" where
  "put_u32 w =
     [char_of (unat w div 2 ^ 24), char_of (unat w div 2 ^ 16 mod 256),
      char_of (unat w div 2 ^ 8 mod 256), char_of (unat w mod 256)]"

fun u16 :: "string \<Rightarrow> (16 word \<times> string) option" where
  "u16 (a # b # s) = Some (word_of_nat (byte a * 256 + byte b), s)"
| "u16 _ = None"

fun u32 :: "string \<Rightarrow> (32 word \<times> string) option" where
  "u32 (a # b # c # d # s) =
     Some (word_of_nat (byte a * 2 ^ 24 + byte b * 2 ^ 16 + byte c * 2 ^ 8 + byte d), s)"
| "u32 _ = None"

definition raw :: "nat \<Rightarrow> string \<Rightarrow> (string \<times> string) option" where
  "raw n s = (if n \<le> length s then Some (take n s, drop n s) else None)"

section \<open>Validation\<close>

definition validateArgumentCount :: "nat \<Rightarrow> bool" where
  "validateArgumentCount count \<longleftrightarrow> \<not> (count = 0 \<or> MaxArguments < count)"

definition isAllowedEnvironment :: "string \<Rightarrow> bool" where
  "isAllowedEnvironment name \<longleftrightarrow> map_of allowedEnvironmentValues name \<noteq> None"

definition isAllowedEnvironmentValue :: "string \<Rightarrow> string \<Rightarrow> bool" where
  "isAllowedEnvironmentValue name v \<longleftrightarrow>
     (case map_of allowedEnvironmentValues name of None \<Rightarrow> False | Some vs \<Rightarrow> v \<in> set vs)"

definition validateEnvironment :: "(string \<times> string) list \<Rightarrow> (proto_error, unit) result" where
  "validateEnvironment environment =
     (if MaxEnvironment < length environment then Inl EnvironmentBounds
      else case find (\<lambda>(name, v). \<not> isAllowedEnvironmentValue name v) environment of
             Some (name, _) \<Rightarrow> Inl (UnsupportedEnvironment name)
           | None \<Rightarrow> Inr ())"

definition validateRequest :: "Request \<Rightarrow> (proto_error, unit) result" where
  "validateRequest request =
     (if \<not> validateArgumentCount (length (Args request)) then Inl ArgumentBounds
      else validateEnvironment (Env request))"

definition validateStatus :: "int \<Rightarrow> bool" where
  "validateStatus status \<longleftrightarrow> \<not> (status < 0 \<or> 255 < status)"

definition validateResponse :: "Response \<Rightarrow> (proto_error, unit) result" where
  "validateResponse response =
     (if \<not> validateStatus (Status response) then Inl BadStatus
      else if MaxOutputBytes < length (Stdout response) \<or> MaxOutputBytes < length (Stderr response)
        then Inl OutputTooLarge
      else Inr ())"

section \<open>Encoding\<close>

definition writeString :: "string \<Rightarrow> string" where
  "writeString v = put_u32 (word_of_nat (length v)) @ v"

definition sortedEnvironment :: "(string \<times> string) list \<Rightarrow> string list" where
  "sortedEnvironment environment = sort (map fst environment)"

definition write_env :: "(string \<times> string) list \<Rightarrow> string \<Rightarrow> string" where
  "write_env environment name =
     [char_of (length name mod 256)] @ name @
     writeString (case map_of environment name of None \<Rightarrow> [] | Some v \<Rightarrow> v)"

definition request_body :: "Request \<Rightarrow> string" where
  "request_body request =
     put_u16 (word_of_nat (length (Args request))) @
     concat (map writeString (Args request)) @
     [char_of (length (Env request) mod 256)] @
     concat (map (write_env (Env request)) (sortedEnvironment (Env request)))"

definition encodeRequest :: "Request \<Rightarrow> (proto_error, string) result" where
  "encodeRequest request =
     (case validateRequest request of
        Inl e \<Rightarrow> Inl e
      | Inr _ \<Rightarrow>
          (let body = request_body request in
           if MaxRequestBytes < length body then Inl RequestTooLarge else Inr body))"

definition encodeResponse :: "Response \<Rightarrow> (proto_error, string) result" where
  "encodeResponse response =
     (case validateResponse response of
        Inl e \<Rightarrow> Inl e
      | Inr _ \<Rightarrow>
          Inr (put_u16 (word_of_int (Status response)) @
               put_u32 (word_of_nat (length (Stdout response))) @
               put_u32 (word_of_nat (length (Stderr response))) @
               Stdout response @ Stderr response))"

definition frame :: "string \<Rightarrow> string \<Rightarrow> string" where
  "frame magic body =
     magic @ [char_of (1 :: nat)] @ put_u32 (word_of_nat (length body)) @ body"

definition requestFrame :: "Request \<Rightarrow> (proto_error, string) result" where
  "requestFrame request =
     (case encodeRequest request of Inl e \<Rightarrow> Inl e | Inr body \<Rightarrow> Inr (frame requestMagic body))"

definition responseFrame :: "Response \<Rightarrow> (proto_error, string) result" where
  "responseFrame response =
     (case encodeResponse response of Inl e \<Rightarrow> Inl e | Inr body \<Rightarrow> Inr (frame responseMagic body))"

section \<open>Decoding\<close>

text \<open>\<open>readFrame\<close> on the bytes of the connection: the body and the bytes after the frame.\<close>

definition readFrame :: "string \<Rightarrow> string \<Rightarrow> 32 word \<Rightarrow> (proto_error, string \<times> string) result" where
  "readFrame stream magic maxBody =
     (if length stream < frameHeaderSize then Inl FrameTruncated
      else if take 4 stream \<noteq> magic \<or> byte (stream ! 4) \<noteq> 1 then Inl BadFrame
      else case u32 (drop 5 stream) of
        None \<Rightarrow> Inl FrameTruncated
      | Some (bodyLen, rest) \<Rightarrow>
          if maxBody < bodyLen then Inl FrameTooLarge
          else case raw (unat bodyLen) rest of
                 None \<Rightarrow> Inl FrameTruncated | Some r \<Rightarrow> Inr r)"

definition parse_string :: "string \<Rightarrow> (string \<times> string) option" where
  "parse_string s =
     (case u32 s of None \<Rightarrow> None | Some (n, rest) \<Rightarrow> raw (unat n) rest)"

fun parse_args :: "nat \<Rightarrow> string \<Rightarrow> (proto_error, string list \<times> string) result" where
  "parse_args 0 s = Inr ([], s)"
| "parse_args (Suc n) s =
     (case parse_string s of
        None \<Rightarrow> Inl BadArgument
      | Some (arg, rest) \<Rightarrow>
          (case parse_args n rest of
             Inl e \<Rightarrow> Inl e | Inr (args, rest') \<Rightarrow> Inr (arg # args, rest')))"

definition arguments :: "string \<Rightarrow> (proto_error, string list \<times> string) result" where
  "arguments s =
     (case u16 s of
        None \<Rightarrow> Inl BadArgumentCount
      | Some (count, rest) \<Rightarrow>
          if \<not> validateArgumentCount (unat count) then Inl BadArgumentCount
          else parse_args (unat count) rest)"

definition environmentName :: "string \<Rightarrow> (proto_error, string \<times> string) result" where
  "environmentName s =
     (case s of
        [] \<Rightarrow> Inl BadEnvironmentName
      | n # rest \<Rightarrow>
          if byte n = 0 then Inl BadEnvironmentName
          else case raw (byte n) rest of
                 None \<Rightarrow> Inl UnsupportedEnvironmentName
               | Some (name, rest') \<Rightarrow>
                   if isAllowedEnvironment name then Inr (name, rest')
                   else Inl UnsupportedEnvironmentName)"

definition environmentValue :: "string \<Rightarrow> string \<Rightarrow> (proto_error, string \<times> string) result" where
  "environmentValue name s =
     (case parse_string s of
        None \<Rightarrow> Inl BadEnvironmentValue
      | Some (v, rest) \<Rightarrow>
          if isAllowedEnvironmentValue name v then Inr (v, rest) else Inl BadEnvironmentValue)"

definition environmentEntry :: "string \<Rightarrow> (proto_error, (string \<times> string) \<times> string) result" where
  "environmentEntry s =
     (case environmentName s of
        Inl e \<Rightarrow> Inl e
      | Inr (name, rest) \<Rightarrow>
          (case environmentValue name rest of
             Inl e \<Rightarrow> Inl e | Inr (v, rest') \<Rightarrow> Inr ((name, v), rest')))"

definition addEnvironmentEntry ::
  "(string \<times> string) list \<Rightarrow> string \<times> string \<Rightarrow> (proto_error, (string \<times> string) list) result" where
  "addEnvironmentEntry environment e =
     (if fst e \<in> set (map fst environment) then Inl DuplicateEnvironment
      else Inr (environment @ [e]))"

fun parse_env ::
  "nat \<Rightarrow> (string \<times> string) list \<Rightarrow> string \<Rightarrow> (proto_error, (string \<times> string) list \<times> string) result" where
  "parse_env 0 acc s = Inr (acc, s)"
| "parse_env (Suc n) acc s =
     (case environmentEntry s of
        Inl e \<Rightarrow> Inl e
      | Inr (entry, rest) \<Rightarrow>
          (case addEnvironmentEntry acc entry of
             Inl e \<Rightarrow> Inl e | Inr acc' \<Rightarrow> parse_env n acc' rest))"

definition environment :: "string \<Rightarrow> (proto_error, (string \<times> string) list \<times> string) result" where
  "environment s =
     (case s of
        [] \<Rightarrow> Inl BadEnvironmentCount
      | count # rest \<Rightarrow>
          if MaxEnvironment < byte count then Inl BadEnvironmentCount
          else parse_env (byte count) [] rest)"

definition decodeRequest :: "string \<Rightarrow> (proto_error, Request) result" where
  "decodeRequest body =
     (if MaxRequestBytes < length body then Inl RequestTooLarge
      else case arguments body of
        Inl e \<Rightarrow> Inl e
      | Inr (args, rest) \<Rightarrow>
          (case environment rest of
             Inl e \<Rightarrow> Inl e
           | Inr (env, rest') \<Rightarrow>
               if rest' \<noteq> [] then Inl TrailingRequest else Inr \<lparr>Args = args, Env = env\<rparr>))"

definition outputLength :: "string \<Rightarrow> (proto_error, 32 word \<times> string) result" where
  "outputLength s =
     (case u32 s of
        None \<Rightarrow> Inl BadResponse
      | Some (n, rest) \<Rightarrow> if MaxOutputBytes < unat n then Inl BadResponse else Inr (n, rest))"

definition responseHeader ::
  "string \<Rightarrow> (proto_error, (16 word \<times> 32 word \<times> 32 word) \<times> string) result" where
  "responseHeader s =
     (case u16 s of
        None \<Rightarrow> Inl BadStatus
      | Some (status, rest) \<Rightarrow>
          if \<not> validateStatus (uint status) then Inl BadStatus
          else case outputLength rest of
            Inl e \<Rightarrow> Inl e
          | Inr (stdoutLength, rest1) \<Rightarrow>
              (case outputLength rest1 of
                 Inl e \<Rightarrow> Inl e
               | Inr (stderrLength, rest2) \<Rightarrow> Inr ((status, stdoutLength, stderrLength), rest2)))"

definition decodeResponse :: "string \<Rightarrow> (proto_error, Response) result" where
  "decodeResponse body =
     (case responseHeader body of
        Inl e \<Rightarrow> Inl e
      | Inr ((status, stdoutLength, stderrLength), rest) \<Rightarrow>
          (case raw (unat stdoutLength) rest of
             None \<Rightarrow> Inl BadResponse
           | Some (stdout, rest1) \<Rightarrow>
               (case raw (unat stderrLength) rest1 of
                  None \<Rightarrow> Inl BadResponse
                | Some (stderr, rest2) \<Rightarrow>
                    if rest2 \<noteq> [] then Inl BadResponse
                    else Inr \<lparr>Status = uint status, Stdout = stdout, Stderr = stderr\<rparr>)))"

section \<open>Integers round trip\<close>

lemma byte_char_of_256: "byte (char_of n) = n mod 256"
  by simp

lemma u16_put [simp]: "u16 (put_u16 w @ s) = Some (w, s)"
proof -
  have "unat w < 2 ^ 16" using unsigned_less [of w, where ?'a = nat] by simp
  then have "unat w div 256 mod 256 * 256 + unat w mod 256 = unat w" by simp
  then show ?thesis by (simp add: put_u16_def byte_char_of_256)
qed

lemma base256:
  "n div 16777216 * 16777216 + n div 65536 mod 256 * 65536 + n div 256 mod 256 * 256 + n mod 256 = (n :: nat)"
proof -
  have "256 * (n div 256) + n mod 256 = n" "256 * (n div 256 div 256) + n div 256 mod 256 = n div 256"
    "256 * (n div 256 div 256 div 256) + n div 256 div 256 mod 256 = n div 256 div 256"
    by simp_all
  moreover have "n div 65536 = n div 256 div 256" "n div 16777216 = n div 256 div 256 div 256"
    by (simp_all flip: div_mult2_eq)
  moreover from this have "n div 65536 mod 256 = n div 256 div 256 mod 256" by simp
  ultimately show ?thesis by linarith
qed

lemma u32_put [simp]: "u32 (put_u32 w @ s) = Some (w, s)"
proof -
  have "unat w < 2 ^ 32" using unsigned_less [of w, where ?'a = nat] by simp
  then have "unat w div 16777216 mod 256 = unat w div 16777216" by simp
  then have "unat w div 16777216 mod 256 * 16777216 + unat w div 65536 mod 256 * 65536 +
      unat w div 256 mod 256 * 256 + unat w mod 256 = unat w"
    using base256 [of "unat w"] by simp
  then have "word_of_nat (unat w div 16777216 mod 256 * 16777216 + unat w div 65536 mod 256 * 65536 +
      unat w div 256 mod 256 * 256 + unat w mod 256) = w"
    by (simp only: of_nat_unat ucast_id)
  then show ?thesis by (simp add: put_u32_def byte_char_of_256 del: of_nat_add of_nat_mult)
qed

lemma length_put [simp]: "length (put_u16 w) = 2" "length (put_u32 v) = 4"
  by (simp_all add: put_u16_def put_u32_def)

lemma unat_of_nat_u32: "n < 2 ^ 32 \<Longrightarrow> unat (word_of_nat n :: 32 word) = n"
  by (simp add: unsigned_of_nat take_bit_nat_eq_self)

lemma unat_of_nat_u16: "n < 2 ^ 16 \<Longrightarrow> unat (word_of_nat n :: 16 word) = n"
  by (simp add: unsigned_of_nat take_bit_nat_eq_self)

lemma raw_append [simp]: "raw (length v) (v @ s) = Some (v, s)"
  by (simp add: raw_def)

lemma parse_writeString: "length v < 2 ^ 32 \<Longrightarrow> parse_string (writeString v @ s) = Some (v, s)"
  by (simp add: parse_string_def writeString_def unat_of_nat_u32)

section \<open>Requests round trip\<close>

lemma length_writeString: "length v \<le> length (writeString v)"
  by (simp add: writeString_def)

lemma length_concat_le: "v \<in> set vs \<Longrightarrow> length (f v) \<le> length (concat (map f vs))"
  by (induction vs) auto

lemma parse_args_write:
  assumes "list_all (\<lambda>v. length v < 2 ^ 32) args"
  shows "parse_args (length args) (concat (map writeString args) @ s) = Inr (args, s)"
  using assms by (induction args) (simp_all add: parse_writeString)

lemma allowed_name:
  assumes "isAllowedEnvironment name"
  shows "name \<noteq> [] \<and> length name < 256"
  using assms by (auto simp: isAllowedEnvironment_def allowedEnvironmentValues_def split: if_splits)

lemma allowed_value_name: "isAllowedEnvironmentValue name v \<Longrightarrow> isAllowedEnvironment name"
  by (auto simp: isAllowedEnvironment_def isAllowedEnvironmentValue_def split: option.splits)

lemma environmentEntry_write:
  assumes "map_of env name = Some v" "isAllowedEnvironmentValue name v" "length v < 2 ^ 32"
  shows "environmentEntry (write_env env name @ s) = Inr ((name, v), s)"
proof -
  note n = allowed_name [OF allowed_value_name [OF assms(2)]]
  then have "byte (char_of (length name mod 256)) = length name" "0 < length name" by simp_all
  then have "environmentName (write_env env name @ s) = Inr (name, writeString v @ s)"
    using assms(1) allowed_value_name [OF assms(2)] by (simp add: environmentName_def write_env_def)
  then show ?thesis
    using assms by (simp add: environmentEntry_def environmentValue_def parse_writeString)
qed

definition env_ok :: "(string \<times> string) list \<Rightarrow> string \<Rightarrow> bool" where
  "env_ok env name \<longleftrightarrow>
     (\<exists>v. map_of env name = Some v \<and> isAllowedEnvironmentValue name v \<and> length v < 2 ^ 32)"

lemma parse_env_write:
  assumes "list_all (env_ok env) names" "distinct names" "set names \<inter> set (map fst acc) = {}"
  shows "parse_env (length names) acc (concat (map (write_env env) names) @ s) =
    Inr (acc @ map (\<lambda>n. (n, the (map_of env n))) names, s)"
  using assms
proof (induction names arbitrary: acc)
  case (Cons n names)
  then obtain v where v: "map_of env n = Some v" "isAllowedEnvironmentValue n v" "length v < 2 ^ 32"
    by (auto simp: env_ok_def)
  have "addEnvironmentEntry acc (n, v) = Inr (acc @ [(n, v)])"
    using Cons.prems(3) by (auto simp: addEnvironmentEntry_def)
  moreover have "parse_env (length names) (acc @ [(n, v)]) (concat (map (write_env env) names) @ s) =
      Inr ((acc @ [(n, v)]) @ map (\<lambda>n. (n, the (map_of env n))) names, s)"
    using Cons.prems by (intro Cons.IH) auto
  ultimately show ?case using v environmentEntry_write [OF v] by simp
qed simp

lemma validateEnvironment_ok:
  "validateEnvironment env = Inr () \<longleftrightarrow>
     length env \<le> MaxEnvironment \<and> list_all (\<lambda>(name, v). isAllowedEnvironmentValue name v) env"
  by (auto simp: validateEnvironment_def find_None_iff find_Some_iff list_all_iff split_beta
      split: option.splits if_splits)

lemma encodeRequest_Inr:
  assumes "encodeRequest r = Inr body"
  shows "body = request_body r" "length body \<le> MaxRequestBytes"
    "validateArgumentCount (length (Args r))" "length (Env r) \<le> MaxEnvironment"
    "list_all (\<lambda>(name, v). isAllowedEnvironmentValue name v) (Env r)"
proof -
  have "validateRequest r = Inr ()" "body = request_body r" "length body \<le> MaxRequestBytes"
    using assms by (auto simp: encodeRequest_def Let_def split: sum.splits if_splits)
  then show "body = request_body r" "length body \<le> MaxRequestBytes"
    "validateArgumentCount (length (Args r))" "length (Env r) \<le> MaxEnvironment"
    "list_all (\<lambda>(name, v). isAllowedEnvironmentValue name v) (Env r)"
    using validateEnvironment_ok by (auto simp: validateRequest_def split: if_splits)
qed

lemma decode_encode_request:
  assumes "encodeRequest r = Inr body" "distinct (map fst (Env r))"
  shows "decodeRequest body =
    Inr \<lparr>Args = Args r, Env = map (\<lambda>n. (n, the (map_of (Env r) n))) (sort (map fst (Env r)))\<rparr>"
proof -
  note e = encodeRequest_Inr [OF assms(1)]
  let ?args = "Args r" and ?env = "Env r"
  let ?names = "sort (map fst ?env)"
  have "length a \<le> length (request_body r)" if "a \<in> set ?args" for a
    using length_concat_le [OF that, of writeString] length_writeString [of a]
    by (simp add: request_body_def)
  then have args: "list_all (\<lambda>v. length v < 2 ^ 32) ?args"
    using e(1,2) by (force simp: list_all_iff MaxRequestBytes_def)
  have cnt: "0 < length ?args" "length ?args \<le> 64"
    using e(3) by (auto simp: validateArgumentCount_def MaxArguments_def)
  have A: "arguments body = Inr (?args, [char_of (length ?env mod 256)] @ concat (map (write_env ?env) ?names))"
    using cnt e(3) parse_args_write [OF args]
    by (simp add: e(1) request_body_def arguments_def unat_of_nat_u16 sortedEnvironment_def)
  have small: "length v < 2 ^ 32" if "isAllowedEnvironmentValue n v" for n v
    using that by (auto simp: isAllowedEnvironmentValue_def allowedEnvironmentValues_def
        split: option.splits if_splits)
  have "env_ok ?env n" if "n \<in> set ?names" for n
  proof -
    from that obtain v where v: "(n, v) \<in> set ?env" by auto
    then have "map_of ?env n = Some v" using assms(2) by simp
    with v e(5) small show ?thesis by (auto simp: env_ok_def list_all_iff)
  qed
  then have "parse_env (length ?names) [] (concat (map (write_env ?env) ?names) @ []) =
      Inr ([] @ map (\<lambda>n. (n, the (map_of ?env n))) ?names, [])"
    using assms(2) by (intro parse_env_write) (auto simp: list_all_iff)
  moreover have "byte (char_of (length ?env mod 256)) = length ?env" "length ?env \<le> 3"
    using e(4) by (simp_all add: MaxEnvironment_def)
  ultimately have "environment ([char_of (length ?env mod 256)] @ concat (map (write_env ?env) ?names)) =
      Inr (map (\<lambda>n. (n, the (map_of ?env n))) ?names, [])"
    by (simp add: environment_def MaxEnvironment_def)
  with A e(2) show ?thesis by (simp add: decodeRequest_def)
qed

lemma readFrame_frame:
  assumes "length magic = 4" "length body < 2 ^ 32" "length body \<le> unat maxBody"
  shows "readFrame (frame magic body @ s) magic maxBody = Inr (body, s)"
proof -
  have u: "unat (word_of_nat (length body) :: 32 word) = length body" using assms by (simp add: unat_of_nat_u32)
  have "\<not> maxBody < (word_of_nat (length body) :: 32 word)"
    using u assms(3) by (simp add: word_less_nat_alt)
  moreover have "(frame magic body @ s) ! 4 = char_of (1 :: nat)"
    using assms(1) by (simp add: frame_def nth_append)
  moreover have "drop 5 (frame magic body @ s) = put_u32 (word_of_nat (length body)) @ body @ s"
    using assms(1) by (simp add: frame_def)
  moreover have "take 4 (frame magic body @ s) = magic" using assms(1) by (simp add: frame_def)
  ultimately show ?thesis
    using assms(1) u by (simp add: readFrame_def frameHeaderSize_def frame_def)
qed

lemma request_frame_decodes:
  assumes "requestFrame r = Inr f" and "distinct (map fst (Env r))"
  shows "\<exists>body r'. readFrame (f @ s) requestMagic (word_of_nat MaxRequestBytes) = Inr (body, s) \<and>
    decodeRequest body = Inr r' \<and> Args r' = Args r \<and> map_of (Env r') = map_of (Env r)"
proof -
  obtain body where b: "encodeRequest r = Inr body" "f = frame requestMagic body"
    using assms(1) by (auto simp: requestFrame_def split: sum.splits)
  have l: "length body \<le> MaxRequestBytes" using encodeRequest_Inr(2) [OF b(1)] .
  let ?r = "\<lparr>Args = Args r, Env = map (\<lambda>n. (n, the (map_of (Env r) n))) (sort (map fst (Env r)))\<rparr>"
  have "map_of (Env ?r) n = map_of (Env r) n" for n
  proof -
    have "map_of (Env ?r) n = (if n \<in> fst ` set (Env r) then Some (the (map_of (Env r) n)) else None)"
      by (simp add: map_of_map_restrict restrict_map_def)
    also have "\<dots> = map_of (Env r) n" by (metis map_of_eq_None_iff option.collapse)
    finally show ?thesis .
  qed
  then have "map_of (Env ?r) = map_of (Env r)" by (rule ext)
  moreover have "readFrame (f @ s) requestMagic (word_of_nat MaxRequestBytes) = Inr (body, s)"
    unfolding b(2) using l
    by (intro readFrame_frame) (simp_all add: requestMagic_def MaxRequestBytes_def unat_of_nat_u32)
  ultimately show ?thesis
    using decode_encode_request [OF b(1) assms(2)]
    by (intro exI [of _ body] exI [of _ ?r] conjI) (simp_all only: Request.select_convs)
qed

section \<open>Accepted requests are valid\<close>

lemma environmentEntry_allowed:
  "environmentEntry s = Inr ((n, v), rest) \<Longrightarrow> isAllowedEnvironmentValue n v"
  by (auto simp: environmentEntry_def environmentValue_def split: sum.splits option.splits if_splits)

lemma parse_env_ok:
  assumes "parse_env n acc s = Inr (env, rest)" "distinct (map fst acc)"
    "list_all (\<lambda>(name, v). isAllowedEnvironmentValue name v) acc"
  shows "distinct (map fst env) \<and> list_all (\<lambda>(name, v). isAllowedEnvironmentValue name v) env \<and>
    length env = length acc + n"
  using assms
proof (induction n acc s rule: parse_env.induct)
  case (2 n acc s)
  from "2.prems"(1) obtain e rest1 acc' where e: "environmentEntry s = Inr (e, rest1)"
    and a: "addEnvironmentEntry acc e = Inr acc'" and r: "parse_env n acc' rest1 = Inr (env, rest)"
    by (auto split: sum.splits)
  obtain k v where kv: "e = (k, v)" by (cases e)
  have "distinct (map fst acc')" "list_all (\<lambda>(name, v). isAllowedEnvironmentValue name v) acc'"
    "length acc' = Suc (length acc)"
    using a kv "2.prems" environmentEntry_allowed e by (auto simp: addEnvironmentEntry_def split: if_splits)
  then show ?case using "2.IH" [OF e refl a r] by simp
qed simp

lemma parse_args_length: "parse_args n s = Inr (args, rest) \<Longrightarrow> length args = n"
  by (induction n s arbitrary: args rule: parse_args.induct) (auto split: option.splits sum.splits)

lemma decodeRequest_Inr:
  assumes "decodeRequest body = Inr r"
  shows "length body \<le> MaxRequestBytes" "validateRequest r = Inr ()" "distinct (map fst (Env r))"
proof -
  from assms obtain args env rest where a: "arguments body = Inr (args, rest)"
    and e: "environment rest = Inr (env, [])" and r: "r = \<lparr>Args = args, Env = env\<rparr>"
    and l: "length body \<le> MaxRequestBytes"
    by (auto simp: decodeRequest_def split: sum.splits if_splits)
  from l show "length body \<le> MaxRequestBytes" .
  have "validateArgumentCount (length args)"
    using a parse_args_length by (auto simp: arguments_def split: option.splits if_splits)
  moreover have "distinct (map fst env) \<and> list_all (\<lambda>(name, v). isAllowedEnvironmentValue name v) env \<and>
      length env \<le> MaxEnvironment"
    using e parse_env_ok by (fastforce simp: environment_def split: list.splits if_splits)
  ultimately show "validateRequest r = Inr ()" "distinct (map fst (Env r))"
    by (auto simp: r validateRequest_def validateEnvironment_ok)
qed

section \<open>Responses\<close>

lemma decode_encode_response:
  assumes "encodeResponse r = Inr body"
  shows "decodeResponse body = Inr r"
proof -
  have v: "validateStatus (Status r)" "length (Stdout r) \<le> MaxOutputBytes" "length (Stderr r) \<le> MaxOutputBytes"
    and b: "body = put_u16 (word_of_int (Status r)) @ put_u32 (word_of_nat (length (Stdout r))) @
      put_u32 (word_of_nat (length (Stderr r))) @ Stdout r @ Stderr r"
    using assms by (auto simp: encodeResponse_def validateResponse_def split: sum.splits if_splits)
  have s: "uint (word_of_int (Status r) :: 16 word) = Status r"
    using v(1) by (auto simp: validateStatus_def unsigned_of_int take_bit_int_eq_self)
  have l: "unat (word_of_nat (length (Stdout r)) :: 32 word) = length (Stdout r)"
    "unat (word_of_nat (length (Stderr r)) :: 32 word) = length (Stderr r)"
    using v(2,3) by (simp_all add: unat_of_nat_u32 MaxOutputBytes_def)
  have "responseHeader body =
      Inr ((word_of_int (Status r), word_of_nat (length (Stdout r)), word_of_nat (length (Stderr r))),
        Stdout r @ Stderr r)"
    using v s l by (simp add: b responseHeader_def outputLength_def)
  then show ?thesis using l s raw_append [of "Stderr r" "[]"] by (simp add: decodeResponse_def)
qed

lemma encodeResponse_length:
  "encodeResponse r = Inr body \<Longrightarrow> length body \<le> 10 + 2 * MaxOutputBytes"
  by (auto simp: encodeResponse_def validateResponse_def split: sum.splits if_splits)

section \<open>Properties\<close>

text \<open>
  C6: a request survives the wire. A frame that the client sends is read back by the broker, with
  whatever follows it left in the stream, as the same arguments byte for byte and the same
  environment; no length or count is truncated by the 16 and 32 bit fields.
\<close>

theorem apt_request_roundtrip:
  assumes "requestFrame r = Inr f" and "distinct (map fst (Env r))"
  shows "\<exists>body r'. readFrame (f @ s) requestMagic (word_of_nat MaxRequestBytes) = Inr (body, s) \<and>
    decodeRequest body = Inr r' \<and> Args r' = Args r \<and> map_of (Env r') = map_of (Env r)"
  using assms by (rule request_frame_decodes)

definition sample_request :: Request where
  "sample_request = \<lparr>Args = [''install'', [], ''a b''],
     Env = [(''DEBIAN_FRONTEND'', ''noninteractive''), (''APT_LISTCHANGES_FRONTEND'', ''none'')]\<rparr>"

definition sample_frame :: string where
  "sample_frame = projr (requestFrame sample_request)"

theorem apt_request_roundtrip_witness:
  "\<exists>body r'. readFrame (sample_frame @ ''x'') requestMagic (word_of_nat MaxRequestBytes) = Inr (body, ''x'') \<and>
    decodeRequest body = Inr r' \<and> Args r' = Args sample_request \<and> map_of (Env r') = map_of (Env sample_request)"
proof -
  have "is_ok (requestFrame sample_request)" by code_simp
  then have "requestFrame sample_request = Inr sample_frame"
    by (auto simp: sample_frame_def is_ok_def split: sum.splits)
  then show ?thesis by (rule apt_request_roundtrip) (simp add: sample_request_def)
qed

text \<open>
  C12: the broker accepts only valid requests. Whatever bytes arrive, a request that decodes is at
  most 512 KiB, has 1 to 64 arguments and at most three distinct environment names, each with
  an allow-listed value: it passes the validation that the client applies before it sends.
\<close>

theorem decodeRequest_safe:
  assumes "decodeRequest body = Inr r"
  shows "length body \<le> MaxRequestBytes \<and> 1 \<le> length (Args r) \<and> length (Args r) \<le> MaxArguments \<and>
    length (Env r) \<le> MaxEnvironment \<and> distinct (map fst (Env r)) \<and>
    list_all (\<lambda>(name, v). isAllowedEnvironmentValue name v) (Env r) \<and> validateRequest r = Inr ()"
  using decodeRequest_Inr [OF assms]
  by (auto simp: validateRequest_def validateEnvironment_ok validateArgumentCount_def Suc_le_eq split: if_splits)

definition sample_decoded :: Request where
  "sample_decoded = projr (decodeRequest (drop 9 sample_frame))"

theorem decodeRequest_safe_witness:
  "length (drop 9 sample_frame) \<le> MaxRequestBytes \<and> 1 \<le> length (Args sample_decoded) \<and>
    length (Args sample_decoded) \<le> MaxArguments \<and> length (Env sample_decoded) \<le> MaxEnvironment \<and>
    distinct (map fst (Env sample_decoded)) \<and>
    list_all (\<lambda>(name, v). isAllowedEnvironmentValue name v) (Env sample_decoded) \<and>
    validateRequest sample_decoded = Inr ()"
proof -
  have "is_ok (decodeRequest (drop 9 sample_frame))" by code_simp
  then have "decodeRequest (drop 9 sample_frame) = Inr sample_decoded"
    by (auto simp: sample_decoded_def is_ok_def split: sum.splits)
  then show ?thesis by (rule decodeRequest_safe)
qed

end
