(* ===== verification/Apt_Server.thy ===== *)
theory Apt_Server
  imports Apt_Protocol Go_Filepath
begin

unbundle bit_operations_syntax

text \<open>
  The apt broker's server and client, \<open>internal/aptbroker/server.go\<close>, \<open>client.go\<close> and
  \<open>helper_common.go\<close>: configuration, the trust checks on the socket's directory, admission of
  connections as a state machine over the bounded channel \<open>admitted\<close>, and one request from the
  client's call to its result. The file system is a pair of functions (\<open>os.Stat\<close> and
  \<open>os.Lstat\<close>), the helper process a function from a request to its outcome. A time is in
  nanoseconds.
\<close>

section \<open>Configuration\<close>

record ServerConfig =
  SocketPath :: string
  HelperPath :: string
  Timeout :: int
  MaxConcurrent :: int
  ExpectedPeerUID :: "32 word"
  RequireRootSocket :: bool

datatype server_error =
    InvalidTimeout
  | InvalidConcurrency
  | PeerUIDRequired
  | SocketPathTooLong
  | StatFailed string
  | ParentNotTrusted
  | ParentNotRoot
  | ParentMode
  | AncestorNotDirectory string
  | AncestorWritable string
  | AncestryExhausted
  | SocketExists
  | PeerInspection
  | RejectPeer "32 word"
  | ConcurrencyLimit

definition second :: int where "second = 1000000000"
definition DefaultTimeout :: int where "DefaultTimeout = 300 * second"
definition MaxTimeout :: int where "MaxTimeout = 900 * second"
definition maxConcurrent :: int where "maxConcurrent = 4"

definition DefaultSocketPath :: string where
  "DefaultSocketPath = ''/run/workcell/apt-broker/socket''"

definition DefaultHelperPath :: string where
  "DefaultHelperPath = ''/usr/local/libexec/workcell/apt-helper.sh''"

definition applyDefaults :: "ServerConfig \<Rightarrow> ServerConfig" where
  "applyDefaults c =
     c\<lparr>SocketPath := (if SocketPath c = [] then DefaultSocketPath else SocketPath c),
       HelperPath := (if HelperPath c = [] then DefaultHelperPath else HelperPath c),
       Timeout := (if Timeout c = 0 then DefaultTimeout else Timeout c),
       MaxConcurrent := (if MaxConcurrent c = 0 then maxConcurrent else MaxConcurrent c)\<rparr>"

definition validHelperTimeout :: "int \<Rightarrow> bool" where
  "validHelperTimeout timeout \<longleftrightarrow> 0 < timeout \<and> timeout \<le> MaxTimeout"

definition validConcurrency :: "int \<Rightarrow> bool" where
  "validConcurrency concurrency \<longleftrightarrow> 1 \<le> concurrency \<and> concurrency \<le> maxConcurrent"

definition normalize :: "ServerConfig \<Rightarrow> (server_error, ServerConfig) result" where
  "normalize config =
     (let c = applyDefaults config in
      if \<not> validHelperTimeout (Timeout c) then Inl InvalidTimeout
      else if \<not> validConcurrency (MaxConcurrent c) then Inl InvalidConcurrency
      else if ExpectedPeerUID c = 0 then Inl PeerUIDRequired
      else Inr c)"

section \<open>The socket's directory\<close>

record FileInfo =
  fi_dir :: bool
  fi_uid :: nat
  fi_perm :: nat

type_synonym stat = "string \<Rightarrow> FileInfo option"

definition writable_by_others :: "FileInfo \<Rightarrow> bool" where
  "writable_by_others info \<longleftrightarrow> fi_perm info AND 18 \<noteq> 0"

definition isTrustedSocketDirectory :: "FileInfo \<Rightarrow> bool" where
  "isTrustedSocketDirectory info \<longleftrightarrow> fi_dir info \<and> \<not> writable_by_others info"

text \<open>The walk to the root, with a bound on the number of directories.\<close>

fun ancestry :: "stat \<Rightarrow> nat \<Rightarrow> string \<Rightarrow> server_error option" where
  "ancestry lstat 0 current = Some AncestryExhausted"
| "ancestry lstat (Suc fuel) current =
     (case lstat current of
        None \<Rightarrow> Some (StatFailed current)
      | Some info \<Rightarrow>
          if \<not> fi_dir info then Some (AncestorNotDirectory current)
          else if fi_uid info \<noteq> 0 \<or> writable_by_others info then Some (AncestorWritable current)
          else if Dir current = current then None
          else ancestry lstat fuel (Dir current))"

definition validateSocketAncestry :: "stat \<Rightarrow> string \<Rightarrow> server_error option" where
  "validateSocketAncestry lstat path = ancestry lstat (length (elems path) + 2) path"

definition validateSocketParent ::
  "stat \<Rightarrow> stat \<Rightarrow> nat \<Rightarrow> string \<Rightarrow> bool \<Rightarrow> server_error option" where
  "validateSocketParent stat lstat euid path requireRoot =
     (case stat path of
        None \<Rightarrow> Some (StatFailed path)
      | Some parent \<Rightarrow>
          if \<not> isTrustedSocketDirectory parent then Some ParentNotTrusted
          else if requireRoot \<and> fi_uid parent \<noteq> 0 then Some ParentNotRoot
          else if requireRoot \<and> fi_perm parent \<noteq> 493 then Some ParentMode
          else if requireRoot \<or> euid = 0 then validateSocketAncestry lstat path
          else None)"

text \<open>The checks of \<open>listenSocket\<close> before the bind.\<close>

definition prepare_listen ::
  "stat \<Rightarrow> stat \<Rightarrow> nat \<Rightarrow> string \<Rightarrow> bool \<Rightarrow> server_error option" where
  "prepare_listen stat lstat euid path requireRoot =
     (if \<not> checkSocketPathLength path then Some SocketPathTooLong
      else case validateSocketParent stat lstat euid (Dir path) requireRoot of
             Some e \<Rightarrow> Some e
           | None \<Rightarrow> if lstat path \<noteq> None then Some SocketExists else None)"

section \<open>Admission\<close>

definition validatePeerUID :: "32 word option \<Rightarrow> 32 word \<Rightarrow> server_error option" where
  "validatePeerUID uid expectedUID =
     (case uid of
        None \<Rightarrow> Some PeerInspection
      | Some u \<Rightarrow> if u = 0 \<or> u \<noteq> expectedUID then Some (RejectPeer u) else None)"

text \<open>
  The accept loop's state: the tokens in the channel \<open>admitted\<close>, and the peers being served,
  one handler each.
\<close>

record broker =
  br_config :: ServerConfig
  br_admitted :: nat
  br_handlers :: "(nat \<times> 32 word) list"
  br_next :: nat

definition reserveAdmission :: "broker \<Rightarrow> bool \<times> broker" where
  "reserveAdmission b =
     (if int (br_admitted b) < MaxConcurrent (br_config b)
      then (True, b\<lparr>br_admitted := Suc (br_admitted b)\<rparr>) else (False, b))"

definition admitConnection :: "32 word option \<Rightarrow> broker \<Rightarrow> server_error option \<times> broker" where
  "admitConnection uid b =
     (case validatePeerUID uid (ExpectedPeerUID (br_config b)) of
        Some e \<Rightarrow> (Some e, b)
      | None \<Rightarrow>
          (case reserveAdmission b of
             (False, b') \<Rightarrow> (Some ConcurrencyLimit, b')
           | (True, b') \<Rightarrow>
               (None, b'\<lparr>br_handlers := br_handlers b' @ [(br_next b', the uid)], br_next := Suc (br_next b')\<rparr>)))"

text \<open>A handler that returns takes its token out of the channel.\<close>

definition finish_handler :: "nat \<Rightarrow> broker \<Rightarrow> broker" where
  "finish_handler i b =
     (if i \<in> set (map fst (br_handlers b)) then
        b\<lparr>br_admitted := br_admitted b - 1,
          br_handlers := filter (\<lambda>h. fst h \<noteq> i) (br_handlers b)\<rparr>
      else b)"

inductive broker_step :: "broker \<Rightarrow> broker \<Rightarrow> bool" where
  accept: "admitConnection uid b = (e, b') \<Longrightarrow> broker_step b b'"
| finished: "i \<in> set (map fst (br_handlers b)) \<Longrightarrow> broker_step b (finish_handler i b)"

definition start_broker :: "ServerConfig \<Rightarrow> broker" where
  "start_broker c = \<lparr>br_config = c, br_admitted = 0, br_handlers = [], br_next = 0\<rparr>"

inductive broker_reaches :: "ServerConfig \<Rightarrow> broker \<Rightarrow> bool" for c where
  start: "broker_reaches c (start_broker c)"
| step: "broker_reaches c b \<Longrightarrow> broker_step b b' \<Longrightarrow> broker_reaches c b'"

section \<open>One request\<close>

definition fixedEnvironment :: "(string \<times> string) list \<Rightarrow> string list" where
  "fixedEnvironment env =
     [''HOME=/root'', ''PATH=/usr/local/sbin:/usr/local/bin:/usr/sbin:/usr/bin:/sbin:/bin'',
      ''LC_ALL=C'', ''LD_PRELOAD=/usr/local/lib/libworkcell_exec_guard.so''] @
     map (\<lambda>name. name @ ''='' @ (case map_of env name of None \<Rightarrow> [] | Some v \<Rightarrow> v))
       (sortedEnvironment env)"

record limitedBuffer =
  lb_data :: string
  lb_overflow :: bool

definition newLimitedBuffer :: limitedBuffer where
  "newLimitedBuffer = \<lparr>lb_data = [], lb_overflow = False\<rparr>"

text \<open>The result of the write: whether it was accepted whole, and the buffer.\<close>

definition limitedBuffer_Write :: "limitedBuffer \<Rightarrow> string \<Rightarrow> bool \<times> limitedBuffer" where
  "limitedBuffer_Write b data =
     (let remaining = MaxOutputBytes - length (lb_data b) in
      if remaining < length data then
        (False, b\<lparr>lb_data := lb_data b @ take remaining data, lb_overflow := True\<rparr>)
      else (True, b\<lparr>lb_data := lb_data b @ data\<rparr>))"

datatype client_error =
    UnsupportedPreserved string
  | DuplicatePreserved string
  | ClientProtocol proto_error
  | HelperFailed
  | ServerProtocol proto_error

fun preserve_loop ::
  "(string \<Rightarrow> string option) \<Rightarrow> string list \<Rightarrow> string list \<Rightarrow> (string \<times> string) list \<Rightarrow>
   (client_error, (string \<times> string) list) result" where
  "preserve_loop lookup seen [] env = Inr env"
| "preserve_loop lookup seen (name # names) env =
     (if \<not> isAllowedEnvironment name then Inl (UnsupportedPreserved name)
      else if name \<in> set seen then Inl (DuplicatePreserved name)
      else preserve_loop lookup (name # seen) names
             (case lookup name of None \<Rightarrow> env | Some v \<Rightarrow> env @ [(name, v)]))"

definition preservedEnvironment ::
  "string list \<Rightarrow> (string \<Rightarrow> string option) \<Rightarrow> (client_error, (string \<times> string) list) result" where
  "preservedEnvironment preserve lookup = preserve_loop lookup [] preserve []"

text \<open>The bytes the client writes.\<close>

definition client_request ::
  "string list \<Rightarrow> string list \<Rightarrow> (string \<Rightarrow> string option) \<Rightarrow> (client_error, string) result" where
  "client_request args preserve lookup =
     (case preservedEnvironment preserve lookup of
        Inl e \<Rightarrow> Inl e
      | Inr env \<Rightarrow>
          (case requestFrame \<lparr>Args = args, Env = env\<rparr> of
             Inl e \<Rightarrow> Inl (ClientProtocol e) | Inr f \<Rightarrow> Inr f))"

definition readRequest :: "string \<Rightarrow> (proto_error, Request) result" where
  "readRequest stream =
     (case readFrame stream requestMagic (word_of_nat MaxRequestBytes) of
        Inl e \<Rightarrow> Inl e | Inr (body, _) \<Rightarrow> decodeRequest body)"

text \<open>\<open>handleConnection\<close>: the bytes written back; \<open>run\<close> is \<open>runOwnedHelper\<close>.\<close>

definition handleConnection ::
  "(Request \<Rightarrow> Response option) \<Rightarrow> string \<Rightarrow> (client_error, string) result" where
  "handleConnection run stream =
     (case readRequest stream of
        Inl e \<Rightarrow> Inl (ServerProtocol e)
      | Inr request \<Rightarrow>
          (case run request of
             None \<Rightarrow> Inl HelperFailed
           | Some response \<Rightarrow>
               (case responseFrame response of
                  Inl e \<Rightarrow> Inl (ServerProtocol e) | Inr f \<Rightarrow> Inr f)))"

definition readResponse :: "string \<Rightarrow> (proto_error, Response) result" where
  "readResponse stream =
     (case readFrame stream responseMagic (word_of_nat (10 + 2 * MaxOutputBytes)) of
        Inl e \<Rightarrow> Inl e | Inr (body, _) \<Rightarrow> decodeResponse body)"

section \<open>The admission invariant\<close>

definition broker_inv :: "ServerConfig \<Rightarrow> broker \<Rightarrow> bool" where
  "broker_inv c b \<longleftrightarrow>
     br_config b = c \<and> br_admitted b = length (br_handlers b) \<and>
     int (br_admitted b) \<le> MaxConcurrent c \<and> distinct (map fst (br_handlers b)) \<and>
     list_all (\<lambda>h. fst h < br_next b \<and> snd h = ExpectedPeerUID c \<and> snd h \<noteq> 0) (br_handlers b)"

lemma admitConnection_inv:
  assumes "broker_inv c b" "admitConnection uid b = (e, b')"
  shows "broker_inv c b'"
proof (cases "e = None")
  case True
  then obtain u where "uid = Some u" "u = ExpectedPeerUID c" "u \<noteq> 0" "int (br_admitted b) < MaxConcurrent c"
    "b' = b\<lparr>br_admitted := Suc (br_admitted b), br_handlers := br_handlers b @ [(br_next b, u)],
      br_next := Suc (br_next b)\<rparr>"
    using assms by (auto simp: admitConnection_def validatePeerUID_def reserveAdmission_def broker_inv_def
        split: option.splits if_splits)
  then show ?thesis using assms(1) by (auto simp: broker_inv_def list_all_iff)
next
  case False
  then have "b' = b"
    using assms(2) by (auto simp: admitConnection_def reserveAdmission_def split: option.splits if_splits prod.splits bool.splits)
  then show ?thesis using assms(1) by simp
qed

lemma length_filter_distinct:
  "distinct (map f xs) \<Longrightarrow> i \<in> set (map f xs) \<Longrightarrow> length (filter (\<lambda>x. f x \<noteq> i) xs) = length xs - 1"
proof (induction xs)
  case (Cons x xs)
  show ?case
  proof (cases "f x = i")
    case True
    then have "filter (\<lambda>y. f y \<noteq> i) xs = xs"
      unfolding filter_id_conv using Cons.prems(1) by (metis distinct.simps(2) image_eqI list.map(2) set_map)
    then show ?thesis using True by simp
  next
    case False
    then have "i \<in> set (map f xs)" using Cons.prems(2) by simp
    moreover from this have "0 < length xs" by (cases xs) auto
    ultimately show ?thesis using Cons False by simp
  qed
qed simp

lemma finish_handler_inv:
  assumes "broker_inv c b" "i \<in> set (map fst (br_handlers b))"
  shows "broker_inv c (finish_handler i b)"
proof -
  have "length (filter (\<lambda>h. fst h \<noteq> i) (br_handlers b)) = length (br_handlers b) - 1"
    using assms by (intro length_filter_distinct) (auto simp: broker_inv_def)
  then show ?thesis
    using assms by (auto simp: broker_inv_def finish_handler_def list_all_iff distinct_map_filter)
qed

lemma broker_reaches_inv:
  assumes "validConcurrency (MaxConcurrent c)" "broker_reaches c b"
  shows "broker_inv c b"
  using assms(2)
proof (induction rule: broker_reaches.induct)
  case start
  then show ?case using assms(1) by (simp add: broker_inv_def start_broker_def validConcurrency_def)
next
  case (step b b')
  from step(2) show ?case
    by (cases rule: broker_step.cases) (use step(3) admitConnection_inv finish_handler_inv in blast)+
qed

section \<open>The walk to the root\<close>

definition trusted :: "stat \<Rightarrow> string list \<Rightarrow> bool" where
  "trusted lstat es \<longleftrightarrow>
     (case lstat (of_elems True es) of
        None \<Rightarrow> False
      | Some info \<Rightarrow> fi_dir info \<and> fi_uid info = 0 \<and> \<not> writable_by_others info)"

lemma ancestry_prefixes:
  assumes "list_all plain es" "length es < fuel"
  shows "ancestry lstat fuel (of_elems True es) \<noteq> Some AncestryExhausted \<and>
    (ancestry lstat fuel (of_elems True es) = None \<longleftrightarrow> list_all (trusted lstat) (prefixes es))"
  using assms
proof (induction es arbitrary: fuel rule: rev_induct)
  case Nil
  then obtain n where "fuel = Suc n" by (cases fuel) auto
  then show ?case by (auto simp: trusted_def Dir_root split: option.splits)
next
  case (snoc e es)
  then obtain n where n: "fuel = Suc n" "length es < n" by (cases fuel) auto
  have d: "Dir (of_elems True (es @ [e])) = of_elems True es" using Dir_of_elems snoc.prems(1) by blast
  have ne: "of_elems True es \<noteq> of_elems True (es @ [e])" using of_elems_neq snoc.prems(1) by blast
  have "ancestry lstat n (of_elems True es) \<noteq> Some AncestryExhausted \<and>
    (ancestry lstat n (of_elems True es) = None \<longleftrightarrow> list_all (trusted lstat) (prefixes es))"
    using snoc n by simp
  then show ?case using n(1) d ne by (auto simp: trusted_def [of lstat "es @ [e]"] split: option.splits)
qed

section \<open>One request, end to end\<close>

lemma preserve_loop_distinct:
  assumes "preserve_loop lookup seen names env = Inr env'" "distinct (map fst env)"
    "set (map fst env) \<subseteq> set seen"
  shows "distinct (map fst env')"
  using assms
proof (induction lookup seen names env rule: preserve_loop.induct)
  case (2 lookup seen name names env)
  then show ?case by (auto split: if_splits option.splits)
qed simp

lemma readResponse_frame:
  assumes "responseFrame r = Inr f"
  shows "readResponse (f @ s) = Inr r"
proof -
  obtain body where b: "encodeResponse r = Inr body" "f = frame responseMagic body"
    using assms by (auto simp: responseFrame_def split: sum.splits)
  have l: "length body \<le> 10 + 2 * MaxOutputBytes" using encodeResponse_length [OF b(1)] .
  have "readFrame (f @ s) responseMagic (word_of_nat (10 + 2 * MaxOutputBytes)) = Inr (body, s)"
    unfolding b(2)
  proof (rule readFrame_frame)
    show "length body \<le> unat (word_of_nat (10 + 2 * MaxOutputBytes) :: 32 word)"
      using l by (simp only: unat_of_nat_u32 MaxOutputBytes_def) simp
  qed (use l in \<open>simp_all add: responseMagic_def MaxOutputBytes_def\<close>)
  then show ?thesis using decode_encode_response [OF b(1)] by (simp add: readResponse_def)
qed

lemma limitedBuffer_fold:
  assumes "length (lb_data b) \<le> MaxOutputBytes" "lb_overflow b \<Longrightarrow> length (lb_data b) = MaxOutputBytes"
  shows "let b' = fold (\<lambda>d b. snd (limitedBuffer_Write b d)) ds b in
    lb_data b' = take MaxOutputBytes (lb_data b @ concat ds) \<and>
    lb_overflow b' = (lb_overflow b \<or> MaxOutputBytes < length (lb_data b @ concat ds))"
  using assms
proof (induction ds arbitrary: b)
  case (Cons d ds)
  let ?b = "snd (limitedBuffer_Write b d)"
  have "length (lb_data ?b) \<le> MaxOutputBytes" "lb_overflow ?b \<Longrightarrow> length (lb_data ?b) = MaxOutputBytes"
    using Cons.prems by (auto simp: limitedBuffer_Write_def Let_def split: if_splits)
  note IH = Cons.IH [OF this]
  show ?case
  proof (cases "MaxOutputBytes - length (lb_data b) < length d")
    case True
    then have "lb_data ?b = take MaxOutputBytes (lb_data b @ d)" "lb_overflow ?b"
      using Cons.prems(1) by (simp_all add: limitedBuffer_Write_def Let_def)
    moreover have "MaxOutputBytes < length (lb_data b) + (length d + length (concat ds))"
      using True by linarith
    ultimately show ?thesis using IH True Cons.prems(1) by (simp add: Let_def)
  next
    case False
    then have "lb_data ?b = lb_data b @ d" "lb_overflow ?b = lb_overflow b"
      by (simp_all add: limitedBuffer_Write_def Let_def)
    then show ?thesis using IH by (simp add: Let_def)
  qed
qed (simp add: Let_def)

section \<open>Properties\<close>

text \<open>
  C4: admission is safe in every reachable state of a broker with a normalized configuration: no
  more handlers run than the configured limit, at most four, every one serves a peer with the
  expected non-root uid, and the channel holds exactly one token per handler, so no admission
  is leaked or lost.
\<close>

theorem broker_admission_safe:
  assumes "normalize config = Inr c" and "broker_reaches c b"
  shows "br_admitted b = length (br_handlers b) \<and> int (length (br_handlers b)) \<le> MaxConcurrent c \<and>
    length (br_handlers b) \<le> 4 \<and> list_all (\<lambda>h. snd h = ExpectedPeerUID c \<and> snd h \<noteq> 0) (br_handlers b)"
proof -
  have "validConcurrency (MaxConcurrent c)"
    using assms(1) by (auto simp: normalize_def Let_def split: if_splits)
  then show ?thesis
    using broker_reaches_inv [OF _ assms(2)]
    by (auto simp: broker_inv_def validConcurrency_def maxConcurrent_def list_all_iff)
qed

definition sample_config :: ServerConfig where
  "sample_config = \<lparr>SocketPath = [], HelperPath = [], Timeout = 0, MaxConcurrent = 1,
     ExpectedPeerUID = 1000, RequireRootSocket = True\<rparr>"

definition sample_normal :: ServerConfig where
  "sample_normal = projr (normalize sample_config)"

definition sample_broker :: broker where
  "sample_broker = snd (admitConnection (Some 1000) (start_broker sample_normal))"

theorem broker_admission_safe_witness:
  "length (br_handlers sample_broker) = 1 \<and> br_admitted sample_broker = length (br_handlers sample_broker) \<and>
    int (length (br_handlers sample_broker)) \<le> MaxConcurrent sample_normal \<and>
    length (br_handlers sample_broker) \<le> 4 \<and>
    list_all (\<lambda>h. snd h = ExpectedPeerUID sample_normal \<and> snd h \<noteq> 0) (br_handlers sample_broker)"
proof -
  have n: "normalize sample_config = Inr sample_normal" by code_simp
  have "broker_step (start_broker sample_normal) sample_broker"
    unfolding sample_broker_def by (rule broker_step.accept) (rule prod.collapse [symmetric])
  then have r: "broker_reaches sample_normal sample_broker"
    by (meson broker_reaches.intros)
  have "length (br_handlers sample_broker) = 1" by code_simp
  with broker_admission_safe [OF n r] show ?thesis by blast
qed

text \<open>
  C14: the root check on the socket path always returns, and accepts an absolute cleaned path
  exactly when every directory from the root down to it is a real directory, owned by root and
  not writable by group or others.
\<close>

theorem validateSocketAncestry_iff:
  assumes "IsAbs path" and "Clean path = path"
  shows "validateSocketAncestry lstat path \<noteq> Some AncestryExhausted \<and>
    (validateSocketAncestry lstat path = None \<longleftrightarrow> list_all (trusted lstat) (prefixes (elems path)))"
proof -
  have "path = of_elems True (elems path)" using assms by (simp add: Clean_def)
  then show ?thesis
    using ancestry_prefixes [OF elems_plain [OF assms(1)], of "length (elems path) + 2" lstat]
    by (simp add: validateSocketAncestry_def)
qed

definition sample_lstat :: stat where
  "sample_lstat p = Some \<lparr>fi_dir = True, fi_uid = 0, fi_perm = (if p = ''/run'' then 511 else 493)\<rparr>"

theorem validateSocketAncestry_iff_witness:
  "validateSocketAncestry sample_lstat ''/run/wc'' \<noteq> Some AncestryExhausted \<and>
    (validateSocketAncestry sample_lstat ''/run/wc'' = None \<longleftrightarrow>
      list_all (trusted sample_lstat) (prefixes (elems ''/run/wc''))) \<and>
    validateSocketAncestry sample_lstat ''/run/wc'' = Some (AncestorWritable ''/run'')"
proof -
  have "IsAbs ''/run/wc''" "Clean ''/run/wc'' = ''/run/wc''" by code_simp+
  moreover have "validateSocketAncestry sample_lstat ''/run/wc'' = Some (AncestorWritable ''/run'')"
    by code_simp
  ultimately show ?thesis using validateSocketAncestry_iff [of "''/run/wc''" sample_lstat] by blast
qed

text \<open>
  C13: a request runs end to end as called. When the client has encoded its call and the broker
  answers, the helper was run on exactly the client's arguments and its preserved environment,
  and the client reads back exactly the helper's status, standard output and standard error.
\<close>

theorem apt_end_to_end:
  assumes "client_request args preserve lookup = Inr f" and "handleConnection run (f @ s) = Inr g"
  shows "\<exists>env r response. preservedEnvironment preserve lookup = Inr env \<and> Args r = args \<and>
    map_of (Env r) = map_of env \<and> validateRequest r = Inr () \<and> run r = Some response \<and>
    readResponse (g @ t) = Inr response"
proof -
  obtain env where e: "preservedEnvironment preserve lookup = Inr env" "requestFrame \<lparr>Args = args, Env = env\<rparr> = Inr f"
    using assms(1) by (auto simp: client_request_def split: sum.splits)
  have "distinct (map fst env)"
    using e(1) preserve_loop_distinct by (fastforce simp: preservedEnvironment_def)
  then obtain body r where "readFrame (f @ s) requestMagic (word_of_nat MaxRequestBytes) = Inr (body, s)"
    and d: "decodeRequest body = Inr r" and r: "Args r = args" "map_of (Env r) = map_of env"
    using request_frame_decodes [OF e(2), of s] by auto
  then have "readRequest (f @ s) = Inr r" by (simp add: readRequest_def)
  then obtain response where "run r = Some response" "responseFrame response = Inr g"
    using assms(2) by (auto simp: handleConnection_def split: option.splits sum.splits)
  then show ?thesis using e(1) r readResponse_frame decodeRequest_Inr(2) [OF d] by blast
qed

definition echo_helper :: "Request \<Rightarrow> Response option" where
  "echo_helper r = Some \<lparr>Status = 7, Stdout = join '' '' (Args r), Stderr = []\<rparr>"

definition sample_call :: string where
  "sample_call = projr (client_request [''update''] [''DEBIAN_FRONTEND''] (\<lambda>_. Some ''noninteractive''))"

definition sample_answer :: string where
  "sample_answer = projr (handleConnection echo_helper sample_call)"

theorem apt_end_to_end_witness:
  "\<exists>env r response. preservedEnvironment [''DEBIAN_FRONTEND''] (\<lambda>_. Some ''noninteractive'') = Inr env \<and>
    Args r = [''update''] \<and> map_of (Env r) = map_of env \<and> validateRequest r = Inr () \<and>
    echo_helper r = Some response \<and> readResponse (sample_answer @ []) = Inr response"
proof (rule apt_end_to_end)
  have "is_ok (client_request [''update''] [''DEBIAN_FRONTEND''] (\<lambda>_. Some ''noninteractive''))" by code_simp
  then show "client_request [''update''] [''DEBIAN_FRONTEND''] (\<lambda>_. Some ''noninteractive'') = Inr sample_call"
    by (auto simp: sample_call_def is_ok_def split: sum.splits)
  have "is_ok (handleConnection echo_helper sample_call)" by code_simp
  then show "handleConnection echo_helper (sample_call @ []) = Inr sample_answer"
    by (auto simp: sample_answer_def is_ok_def split: sum.splits)
qed

text \<open>
  The output buffer of the helper never exceeds the protocol's limit: over any sequence of
  writes it holds the first mebibyte of what was written, and the overflow flag is set exactly
  when something was dropped.
\<close>

theorem limitedBuffer_bounded:
  "let b = fold (\<lambda>d b. snd (limitedBuffer_Write b d)) ds newLimitedBuffer in
     lb_data b = take MaxOutputBytes (concat ds) \<and> length (lb_data b) \<le> MaxOutputBytes \<and>
     lb_overflow b = (MaxOutputBytes < length (concat ds))"
  using limitedBuffer_fold [of newLimitedBuffer ds] by (simp add: newLimitedBuffer_def Let_def)

end
