(* ===== verification/Go_Json.thy ===== *)
theory Go_Json
  imports Go_Runes
begin

text \<open>
  The part of \<open>encoding/json\<close> that the program uses: the scanner for one JSON value, string
  literals with their escapes, the string encoder of \<open>json.Marshal\<close>, and the decoding of an
  object into a struct whose fields are strings or unsigned integers, with unknown fields
  disallowed or ignored. Lemmas: the scanner consumes input, and an encoded string reads back as its
  text with every invalid byte replaced by U+FFFD.
\<close>

section \<open>String literals\<close>

definition json_space :: "char \<Rightarrow> bool" where
  "json_space c \<longleftrightarrow> c = CHR '' '' \<or> c = TAB \<or> c = CR \<or> c = NL"

abbreviation skip_space :: "string \<Rightarrow> string" where
  "skip_space \<equiv> dropWhile json_space"

fun hex4 :: "string \<Rightarrow> (rune \<times> string) option" where
  "hex4 (a # b # c # d # s) =
     (case (unhex a, unhex b, unhex c, unhex d) of
        (Some x, Some y, Some z, Some w) \<Rightarrow> Some (4096 * x + 256 * y + 16 * z + w, s)
      | _ \<Rightarrow> None)"
| "hex4 _ = None"

definition surrogate :: "rune \<Rightarrow> bool" where
  "surrogate r \<longleftrightarrow> 0xD800 \<le> r \<and> r < 0xE000"

text \<open>
  \<open>utf16.DecodeRune\<close> on an escaped surrogate and the escape after it; a lone surrogate is
  U+FFFD and leaves the next escape alone.
\<close>

definition join_surrogate :: "rune \<Rightarrow> string \<Rightarrow> rune \<times> string" where
  "join_surrogate r s =
     (case s of b # u # t \<Rightarrow>
        (case hex4 t of
           Some (r1, rest) \<Rightarrow>
             if b = BSLASH \<and> u = CHR ''u'' \<and> 0xD800 \<le> r \<and> r < 0xDC00 \<and> 0xDC00 \<le> r1 \<and> r1 < 0xE000
             then ((r - 0xD800) * 1024 + (r1 - 0xDC00) + 0x10000, rest)
             else (RuneError, s)
         | None \<Rightarrow> (RuneError, s))
      | _ \<Rightarrow> (RuneError, s))"

definition simple_escape :: "char \<Rightarrow> char option" where
  "simple_escape e =
     (if e = DQUOTE \<or> e = BSLASH \<or> e = CHR ''/'' then Some e
      else if e = CHR ''b'' then Some (CHR 0x08) else if e = CHR ''f'' then Some (CHR 0x0C)
      else if e = CHR ''n'' then Some NL else if e = CHR ''r'' then Some CR
      else if e = CHR ''t'' then Some TAB else None)"

text \<open>One item of a literal: the bytes it stands for and the rest of the input.\<close>

definition json_item :: "string \<Rightarrow> (string \<times> string) option" where
  "json_item s =
     (case s of [] \<Rightarrow> None
      | c # t \<Rightarrow>
          if byte c < 0x20 then None
          else if c = BSLASH then
            (case t of [] \<Rightarrow> None
             | e # u \<Rightarrow>
                 if e = CHR ''u'' then
                   (case hex4 u of None \<Rightarrow> None
                    | Some (r, rest) \<Rightarrow>
                        if surrogate r
                        then (case join_surrogate r rest of (r', rest') \<Rightarrow> Some (EncodeRune r', rest'))
                        else Some (EncodeRune r, rest))
                 else map_option (\<lambda>b. ([b], u)) (simple_escape e))
          else if byte c < 0x80 then Some ([c], t)
          else Some (EncodeRune (fst (DecodeRune s)), drop (snd (DecodeRune s)) s))"

lemma hex4_shorter: "hex4 s = Some (r, t) \<Longrightarrow> length t < length s"
  by (cases s rule: hex4.cases) (auto split: option.splits)

lemma join_surrogate_le: "length (snd (join_surrogate r s)) \<le> length s"
  by (auto simp: join_surrogate_def split: list.splits option.splits dest!: hex4_shorter)

lemma json_item_shorter:
  assumes "json_item s = Some (out, rest)"
  shows "length rest < length s"
proof (cases s)
  case (Cons c t)
  have "length (drop (snd (DecodeRune s)) s) < length s"
    using DecodeRune_pos [of s] Cons by simp
  moreover have "length v < Suc (Suc (length u))"
    if "hex4 u = Some (r, w)" "join_surrogate r w = (r', v)" for r r' u v w
    using hex4_shorter [OF that(1)] join_surrogate_le [of r w] that(2) by simp
  ultimately show ?thesis
    using assms Cons
    by (auto simp: json_item_def split: if_splits list.splits option.splits prod.splits
        dest: hex4_shorter)
qed (use assms in \<open>simp add: json_item_def\<close>)

text \<open>A literal after its opening quote: its text and what follows the closing quote.\<close>

function json_string :: "string \<Rightarrow> (string \<times> string) option" where
  "json_string [] = None"
| "json_string (c # s) =
     (if c = DQUOTE then Some ([], s)
      else case json_item (c # s) of None \<Rightarrow> None
           | Some (out, rest) \<Rightarrow>
               map_option (\<lambda>(text, rem). (out @ text, rem)) (json_string rest))"
  by pat_completeness auto
termination
  by (relation "measure length") (auto dest: json_item_shorter)

lemma json_string_shorter: "json_string s = Some (out, rest) \<Longrightarrow> length rest < length s"
proof (induction s arbitrary: out rest rule: json_string.induct)
  case (2 c s)
  show ?case
  proof (cases "c = DQUOTE")
    case False
    with 2(2) obtain o1 r1 o2 where "json_item (c # s) = Some (o1, r1)" "json_string r1 = Some (o2, rest)"
      by (auto split: option.splits)
    with 2(1) [OF False, of "(o1, r1)" o1 r1 o2 rest] show ?thesis
      by (fastforce dest: json_item_shorter)
  qed (use 2(2) in auto)
qed simp

section \<open>The string encoder\<close>

definition u_escape :: "nat \<Rightarrow> string" where
  "u_escape r =
     [BSLASH, CHR ''u'', hex_lower (r div 4096), hex_lower (r div 256 mod 16),
      hex_lower (r div 16 mod 16), hex_lower (r mod 16)]"

definition json_escape :: "char \<Rightarrow> string" where
  "json_escape c =
     (if c = BSLASH \<or> c = DQUOTE then [BSLASH, c]
      else if c = CHR 0x08 then [BSLASH, CHR ''b''] else if c = CHR 0x0C then [BSLASH, CHR ''f'']
      else if c = NL then [BSLASH, CHR ''n''] else if c = CR then [BSLASH, CHR ''r'']
      else if c = TAB then [BSLASH, CHR ''t'']
      else if byte c < 0x20 \<or> c = CHR ''<'' \<or> c = CHR ''>'' \<or> c = CHR ''&'' then u_escape (byte c)
      else [c])"

function json_chars :: "string \<Rightarrow> string" where
  "json_chars [] = []"
| "json_chars (c # s) =
     (if byte c < 0x80 then json_escape c @ json_chars s
      else
        (case DecodeRune (c # s) of (r, n) \<Rightarrow>
           (if r = RuneError \<and> n = 1 \<or> r = 0x2028 \<or> r = 0x2029 then u_escape r
            else take n (c # s)) @ json_chars (drop n (c # s))))"
  by pat_completeness auto
termination
proof (relation "measure length", simp_all, goal_cases)
  case (1 c s r n)
  then have "n = snd (DecodeRune (c # s))" by (metis snd_conv)
  then show ?case using DecodeRune_pos [of "c # s"] by simp
qed

definition json_quote :: "string \<Rightarrow> string" where
  "json_quote s = [DQUOTE] @ json_chars s @ [DQUOTE]"

section \<open>Values\<close>

datatype jval =
    JNull
  | JBool bool
  | JNumber string
  | JString string
  | JArray "jval list"
  | JObject "(string \<times> jval) list"

text \<open>A number literal; the longest prefix that is one.\<close>

definition json_digits :: "string \<Rightarrow> string option" where
  "json_digits s =
     (case s of c # t \<Rightarrow> if is_digit c then Some (dropWhile is_digit s) else None | [] \<Rightarrow> None)"

definition json_int :: "string \<Rightarrow> string option" where
  "json_int s = (case s of c # t \<Rightarrow> if c = CHR ''0'' then Some t else json_digits s | [] \<Rightarrow> None)"

definition json_frac :: "string \<Rightarrow> string option" where
  "json_frac s = (case s of c # t \<Rightarrow> if c = CHR ''.'' then json_digits t else Some s | [] \<Rightarrow> Some s)"

definition json_exp :: "string \<Rightarrow> string option" where
  "json_exp s =
     (case s of c # t \<Rightarrow>
        if c = CHR ''e'' \<or> c = CHR ''E'' then
          json_digits (case t of d # u \<Rightarrow> if d = CHR ''+'' \<or> d = CHR ''-'' then u else t | [] \<Rightarrow> t)
        else Some s
      | [] \<Rightarrow> Some s)"

definition json_number :: "string \<Rightarrow> (string \<times> string) option" where
  "json_number s =
     (case Option.bind (Option.bind
         (json_int (case s of c # t \<Rightarrow> if c = CHR ''-'' then t else s | [] \<Rightarrow> s)) json_frac) json_exp of
        None \<Rightarrow> None
      | Some rest \<Rightarrow> Some (take (length s - length rest) s, rest))"

text \<open>The scanner's limit on nested arrays and objects.\<close>

definition maxNestingDepth :: nat where
  "maxNestingDepth = 10000"

lemma skip_space_shorter: "skip_space s = c # t \<Longrightarrow> length t < length s"
  by (metis length_Cons length_dropWhile_le less_eq_Suc_le)

text \<open>
  One value at the front of the input, after white space. \<open>json_elems\<close> and \<open>json_members\<close>
  read the elements of an array and the members of an object that are not empty, up to their
  closing bracket. The length test before a loop goes on always holds
  (\<open>json_value_shorter\<close>); it is there for the termination of the loop.
\<close>

function json_value :: "nat \<Rightarrow> string \<Rightarrow> (jval \<times> string) option"
  and json_elems :: "nat \<Rightarrow> string \<Rightarrow> (jval list \<times> string) option"
  and json_members :: "nat \<Rightarrow> string \<Rightarrow> ((string \<times> jval) list \<times> string) option" where
  "json_value d s =
     (case skip_space s of [] \<Rightarrow> None
      | c # t \<Rightarrow>
          if c = CHR ''{'' then
            (if maxNestingDepth \<le> d then None
             else case skip_space t of [] \<Rightarrow> None
               | e # u \<Rightarrow>
                   if e = CHR ''}'' then Some (JObject [], u)
                   else map_option (\<lambda>(ms, r). (JObject ms, r)) (json_members (Suc d) t))
          else if c = CHR ''['' then
            (if maxNestingDepth \<le> d then None
             else case skip_space t of [] \<Rightarrow> None
               | e # u \<Rightarrow>
                   if e = CHR '']'' then Some (JArray [], u)
                   else map_option (\<lambda>(vs, r). (JArray vs, r)) (json_elems (Suc d) t))
          else if c = DQUOTE then map_option (\<lambda>(x, r). (JString x, r)) (json_string t)
          else if HasPrefix (c # t) ''true'' then Some (JBool True, drop 4 (c # t))
          else if HasPrefix (c # t) ''false'' then Some (JBool False, drop 5 (c # t))
          else if HasPrefix (c # t) ''null'' then Some (JNull, drop 4 (c # t))
          else map_option (\<lambda>(x, r). (JNumber x, r)) (json_number (c # t)))"
| "json_elems d s =
     (case json_value d s of None \<Rightarrow> None
      | Some (v, w) \<Rightarrow>
          (case skip_space w of [] \<Rightarrow> None
           | c # t \<Rightarrow>
               if c = CHR '']'' then Some ([v], t)
               else if c = CHR '','' \<and> length w < length s
                 then map_option (\<lambda>(vs, r). (v # vs, r)) (json_elems d t)
               else None))"
| "json_members d s =
     (case skip_space s of [] \<Rightarrow> None
      | q # t \<Rightarrow>
          if q \<noteq> DQUOTE then None
          else case json_string t of None \<Rightarrow> None
            | Some (k, u) \<Rightarrow>
                (case skip_space u of [] \<Rightarrow> None
                 | c # x \<Rightarrow>
                     if c \<noteq> CHR '':'' then None
                     else case json_value d x of None \<Rightarrow> None
                       | Some (v, w) \<Rightarrow>
                           (case skip_space w of [] \<Rightarrow> None
                            | e # y \<Rightarrow>
                                if e = CHR ''}'' then Some ([(k, v)], y)
                                else if e = CHR '','' \<and> length w < length s
                                  then map_option (\<lambda>(ms, r). ((k, v) # ms, r)) (json_members d y)
                                else None)))"
  by pat_completeness auto
termination
proof (relation "measure (\<lambda>x. case x of Inl (d, s) \<Rightarrow> 2 * length s
    | Inr (Inl (d, s)) \<Rightarrow> 2 * length s + 1 | Inr (Inr (d, s)) \<Rightarrow> 2 * length s + 1)", goal_cases)
  case (6 d s q t y k u c x)
  then show ?case using skip_space_shorter [of s q t] skip_space_shorter [of u c x]
      json_string_shorter [of t k u] by simp
qed (auto dest!: skip_space_shorter)

declare json_value.simps [simp del] json_elems.simps [simp del] json_members.simps [simp del]

section \<open>An encoded string reads back\<close>

lemma hex4_digits:
  assumes "a < 16" "b < 16" "c < 16" "d < 16"
  shows "hex4 (hex_lower a # hex_lower b # hex_lower c # hex_lower d # s) =
    Some (4096 * a + 256 * b + 16 * c + d, s)"
  using assms by (simp add: unhex_hex_lower)

lemma base16_digits:
  fixes r :: nat
  shows "4096 * (r div 4096) + 256 * (r div 256 mod 16) + 16 * (r div 16 mod 16) + r mod 16 = r"
proof -
  have a: "r div 16 * 16 + r mod 16 = r" by simp
  have b: "r div 256 * 16 + r div 16 mod 16 = r div 16"
    using div_mult_mod_eq [of "r div 16" 16] by (simp flip: div_mult2_eq)
  have c: "r div 4096 * 16 + r div 256 mod 16 = r div 256"
    using div_mult_mod_eq [of "r div 256" 16] by (simp flip: div_mult2_eq)
  show ?thesis using a b c by linarith
qed

lemma json_item_u_escape:
  assumes "r < 0x10000" "\<not> surrogate r"
  shows "json_item (u_escape r @ s) = Some (EncodeRune r, s)"
proof -
  have "hex4 (hex_lower (r div 4096) # hex_lower (r div 256 mod 16) # hex_lower (r div 16 mod 16)
      # hex_lower (r mod 16) # s) = Some (r, s)"
    using hex4_digits [of "r div 4096" "r div 256 mod 16" "r div 16 mod 16" "r mod 16" s] assms(1)
      base16_digits [of r] by simp
  then show ?thesis using assms(2) by (simp add: json_item_def u_escape_def del: hex4.simps)
qed

lemma json_item_escape:
  assumes "byte c < 0x80"
  shows "json_item (json_escape c @ s) = Some ([c], s)"
proof -
  have u: "json_item (u_escape (byte c) @ s) = Some ([c], s)"
    using json_item_u_escape [of "byte c" s] assms by (simp add: surrogate_def)
  show ?thesis
    using assms u by (auto simp: json_escape_def json_item_def simple_escape_def)
qed

lemma json_string_item:
  assumes "json_item (x @ t) = Some (out, t)" "x \<noteq> []" "hd x \<noteq> DQUOTE"
  shows "json_string (x @ t) = map_option (\<lambda>(u, r). (out @ u, r)) (json_string t)"
  using assms by (cases x) auto

lemma json_escape_hd: "json_escape c \<noteq> []" "hd (json_escape c) \<noteq> DQUOTE"
  by (auto simp: json_escape_def u_escape_def)

lemma u_escape_hd: "u_escape r \<noteq> []" "hd (u_escape r) \<noteq> DQUOTE"
  by (auto simp: u_escape_def)

lemma json_item_rune:
  assumes "DecodeRune (c # s) = (r, n)" "\<not> byte c < 0x80" "\<not> (r = RuneError \<and> n = 1)"
  shows "json_item (take n (c # s) @ t) = Some (EncodeRune r, t)"
proof -
  have v: "ValidRune r" using DecodeRune_Valid [of "c # s"] assms(1) by simp
  have e: "take n (c # s) = EncodeRune r" using EncodeRune_DecodeRune [OF assms(1)] assms(3) by simp
  have "0 < n" using DecodeRune_pos [of "c # s"] assms(1) by simp
  then have u: "EncodeRune r = c # take (n - 1) s" using e by (cases n) simp_all
  have "c \<noteq> BSLASH" using assms(2) by auto
  then show ?thesis
    using DecodeRune_EncodeRune [OF v, of t] assms(2) unfolding e
    by (simp add: json_item_def u)
qed

lemma take_rune_hd:
  assumes "DecodeRune (c # s) = (r, n)" "\<not> byte c < 0x80"
  shows "take n (c # s) \<noteq> []" "hd (take n (c # s)) \<noteq> DQUOTE"
proof -
  have "0 < n" using DecodeRune_pos [of "c # s"] assms(1) by simp
  then show "take n (c # s) \<noteq> []" "hd (take n (c # s)) \<noteq> DQUOTE" using assms(2) by auto
qed

lemma json_string_chars:
  "json_string (json_chars s @ DQUOTE # rest) = Some (of_runes (runes s), rest)"
proof (induction s rule: json_chars.induct)
  case (2 c s)
  obtain r n where rn: "DecodeRune (c # s) = (r, n)" by fastforce
  let ?t = "json_chars (drop n (c # s)) @ DQUOTE # rest"
  show ?case
  proof (cases "byte c < 0x80")
    case True
    then have "DecodeRune (c # s) = (byte c, 1)" by (simp add: DecodeRune_def)
    then show ?thesis
      using 2(1) [OF True] True
        json_string_item [OF json_item_escape [OF True] json_escape_hd]
      by (simp del: json_string.simps)
  next
    case False
    have ih: "json_string ?t = Some (of_runes (runes (drop n (c # s))), rest)"
      using 2(2) [OF False] rn by simp
    have rr: "runes (c # s) = r # runes (drop n (c # s))" using rn by simp
    consider (esc) "r = RuneError \<and> n = 1 \<or> r = 0x2028 \<or> r = 0x2029"
      | (raw) "\<not> (r = RuneError \<and> n = 1 \<or> r = 0x2028 \<or> r = 0x2029)" by blast
    then show ?thesis
    proof cases
      case esc
      then have "r < 0x10000" "\<not> surrogate r" by (auto simp: surrogate_def)
      then have "json_string (u_escape r @ ?t) = Some (EncodeRune r @ of_runes (runes (drop n (c # s))), rest)"
        using json_string_item [OF json_item_u_escape u_escape_hd, of r ?t] ih by simp
      then show ?thesis using False esc rn rr by (simp del: json_string.simps)
    next
      case raw
      then have "json_string (take n (c # s) @ ?t) = Some (EncodeRune r @ of_runes (runes (drop n (c # s))), rest)"
        using json_string_item [OF json_item_rune [OF rn False] take_rune_hd [OF rn False], of ?t] ih by simp
      moreover have "json_chars (c # s) = take n (c # s) @ json_chars (drop n (c # s))"
        using False raw rn by (auto simp del: take_Suc_Cons)
      ultimately show ?thesis using rr by (simp del: json_string.simps json_chars.simps)
    qed
  qed
qed simp

lemma json_value_quote:
  "json_value d (json_quote s @ rest) = Some (JString (of_runes (runes s)), rest)"
  unfolding json_quote_def
  by (subst json_value.simps) (simp add: json_space_def json_string_chars)

section \<open>Decoded text is valid UTF-8\<close>

lemma unhex_bound: "unhex x = Some n \<Longrightarrow> n < 16"
  by (auto simp: unhex_def is_digit_def split: if_splits)

lemma hex4_bound:
  assumes "hex4 s = Some (r, t)"
  shows "r < 0x10000"
proof (cases s rule: hex4.cases)
  case (1 a b c d u)
  then obtain x y z w where "unhex a = Some x" "unhex b = Some y" "unhex c = Some z"
      "unhex d = Some w" "r = 4096 * x + 256 * y + 16 * z + w"
    using assms by (auto split: option.splits)
  then show ?thesis
    using unhex_bound [of a x] unhex_bound [of b y] unhex_bound [of c z] unhex_bound [of d w] by simp
qed (use assms in auto)

lemma join_surrogate_Valid: "ValidRune (fst (join_surrogate r s))"
  by (auto simp: join_surrogate_def ValidRune_def split: list.splits option.splits)

lemma json_item_Valid:
  assumes "json_item s = Some (out, rest)"
  shows "\<exists>r. ValidRune r \<and> out = EncodeRune r"
proof (cases s)
  case (Cons c t)
  have d: "ValidRune (fst (DecodeRune (c # t)))" using DecodeRune_Valid [of "c # t"] by simp
  have a: "byte b < 0x80 \<Longrightarrow> \<exists>r. ValidRune r \<and> [b] = EncodeRune r" for b
    by (rule exI [of _ "byte b"]) (simp add: ValidRune_def)
  have "simple_escape e = Some b \<Longrightarrow> byte b < 0x80" for e b
    by (auto simp: simple_escape_def split: if_splits)
  moreover have "hex4 u = Some (r, w) \<Longrightarrow> \<not> surrogate r \<Longrightarrow> ValidRune r" for u r w
    using hex4_bound [of u r w] by (auto simp: surrogate_def ValidRune_def)
  moreover have "join_surrogate r w = (r', v) \<Longrightarrow> ValidRune r'" for r w r' v
    using join_surrogate_Valid [of r w] by simp
  ultimately show ?thesis
    using assms Cons d a
    by (simp add: json_item_def split: if_splits list.splits option.splits prod.splits) blast+
qed (use assms in \<open>simp add: json_item_def\<close>)

lemma json_string_runes:
  "json_string s = Some (out, rest) \<Longrightarrow> \<exists>rs. list_all ValidRune rs \<and> out = of_runes rs"
proof (induction s arbitrary: out rest rule: json_string.induct)
  case (2 c s)
  show ?case
  proof (cases "c = DQUOTE")
    case True
    with 2(2) show ?thesis by (auto intro!: exI [of _ "[]"])
  next
    case False
    with 2(2) obtain o1 r1 o2 where *: "json_item (c # s) = Some (o1, r1)"
        "json_string r1 = Some (o2, rest)" "out = o1 @ o2"
      by (auto split: option.splits)
    obtain rs where "list_all ValidRune rs" "o2 = of_runes rs"
      using 2(1) [OF False *(1) refl *(2)] by blast
    moreover obtain r where "ValidRune r" "o1 = EncodeRune r" using json_item_Valid [OF *(1)] by blast
    ultimately show ?thesis using *(3) by (intro exI [of _ "r # rs"]) simp
  qed
qed simp

lemma json_string_Valid: "json_string s = Some (out, rest) \<Longrightarrow> ValidString out"
  using json_string_runes ValidString_of_runes by blast

fun jval_valid :: "jval \<Rightarrow> bool" where
  "jval_valid (JString s) = ValidString s"
| "jval_valid (JArray vs) = list_all jval_valid vs"
| "jval_valid (JObject ms) = list_all (\<lambda>(k, v). ValidString k \<and> jval_valid v) ms"
| "jval_valid _ = True"

section \<open>The scanner consumes input\<close>

lemma json_digits_le: "json_digits s = Some r \<Longrightarrow> length r < length s"
  by (auto simp: json_digits_def split: list.splits if_splits
      intro: le_less_trans [OF length_dropWhile_le])

lemma json_number_shorter:
  assumes "json_number s = Some (x, rest)"
  shows "length rest < length s"
proof -
  define s' where "s' = (case s of c # t \<Rightarrow> if c = CHR ''-'' then t else s | [] \<Rightarrow> s)"
  have l: "length s' \<le> length s" by (auto simp: s'_def split: list.splits)
  obtain a b where *: "json_int s' = Some a" "json_frac a = Some b" "json_exp b = Some rest"
    using assms by (auto simp: json_number_def s'_def bind_eq_Some_conv split: option.splits)
  have "length a < length s'"
    using *(1) by (auto simp: json_int_def split: list.splits if_splits dest: json_digits_le)
  moreover have "length b \<le> length a"
    using *(2) by (auto simp: json_frac_def split: list.splits if_splits dest!: json_digits_le)
  moreover have "length rest \<le> length b"
    using *(3) by (auto simp: json_exp_def split: list.splits if_splits dest!: json_digits_le)
  ultimately show ?thesis using l by linarith
qed

lemma json_shorter:
  "json_value d s = Some (v, r) \<Longrightarrow> length r < length s"
  "json_elems d s = Some (vs, r) \<Longrightarrow> length r < length s"
  "json_members d s = Some (ms, r) \<Longrightarrow> length r < length s"
proof (induction d s and d s and d s arbitrary: v r and vs r and ms r
    rule: json_value_json_elems_json_members.induct)
  case (1 d s)
  from 1(3) obtain c t where s: "skip_space s = c # t"
    by (auto simp: json_value.simps [of d s] split: list.splits)
  note l = skip_space_shorter [OF s]
  have n: "length w < length s" if "json_number (c # t) = Some (x, w)" for x w
    using json_number_shorter [OF that] l by simp
  have q: "length w < length s" if "json_string t = Some (x, w)" for x w
    using json_string_shorter [OF that] l by simp
  consider "c = CHR ''{''" | "c = CHR ''[''" | "c \<noteq> CHR ''{''" "c \<noteq> CHR ''[''" by blast
  then show ?case
  proof cases
    case 1
    show ?thesis
      using "1.prems" s l "1.IH"(1) [OF s 1] unfolding json_value.simps [of d s] 1
      by (auto split: if_splits list.splits dest!: skip_space_shorter) fastforce
  next
    case 2
    show ?thesis
      using "1.prems" s l "1.IH"(2) [OF s _ 2] unfolding json_value.simps [of d s] 2
      by (auto split: if_splits list.splits dest!: skip_space_shorter) fastforce
  next
    case 3
    then show ?thesis
      using "1.prems" s l n q unfolding json_value.simps [of d s]
      by (auto simp del: HasPrefix_simps split: if_split_asm)
  qed
next
  case (2 d s)
  from 2(3) obtain v w c t where *: "json_value d s = Some (v, w)" "skip_space w = c # t"
    by (auto simp: json_elems.simps [of d s] split: option.splits list.splits)
  then show ?case
    using 2(3) 2(1) [OF *(1)] 2(2) [OF *(1) refl *(2)] skip_space_shorter [OF *(2)]
    by (auto simp: json_elems.simps [of d s] split: if_splits)
next
  case (3 d s)
  from 3(3) obtain q t k u c x v w e y where *: "skip_space s = q # t" "q = DQUOTE"
      "json_string t = Some (k, u)" "skip_space u = c # x" "c = CHR '':''"
      "json_value d x = Some (v, w)" "skip_space w = e # y"
    by (auto simp: json_members.simps [of d s] split: option.splits list.splits if_splits)
  have "length w < length s"
    using 3(1) [OF *(1) _ *(3) refl *(4) _ *(6)] *(2,5) skip_space_shorter [OF *(1)]
      json_string_shorter [OF *(3)] skip_space_shorter [OF *(4)] by simp
  then show ?case
    using 3(3) 3(2) [OF *(1) _ *(3) refl *(4) _ *(6) refl *(7)] * skip_space_shorter [OF *(7)]
    by (auto simp: json_members.simps [of d s] split: if_splits)
qed

lemma json_valid:
  "json_value d s = Some (v, r) \<Longrightarrow> jval_valid v"
  "json_elems d s = Some (vs, r) \<Longrightarrow> list_all jval_valid vs"
  "json_members d s = Some (ms, r) \<Longrightarrow> list_all (\<lambda>(k, v). ValidString k \<and> jval_valid v) ms"
proof (induction d s and d s and d s arbitrary: v r and vs r and ms r
    rule: json_value_json_elems_json_members.induct)
  case (1 d s)
  from 1(3) obtain c t where s: "skip_space s = c # t"
    by (auto simp: json_value.simps [of d s] split: list.splits)
  consider "c = CHR ''{''" | "c = CHR ''[''" | "c \<noteq> CHR ''{''" "c \<noteq> CHR ''[''" by blast
  then show ?case
  proof cases
    case 1
    show ?thesis
      using "1.prems" s "1.IH"(1) [OF s 1] unfolding json_value.simps [of d s] 1
      by (auto split: if_splits list.splits)
  next
    case 2
    show ?thesis
      using "1.prems" s "1.IH"(2) [OF s _ 2] unfolding json_value.simps [of d s] 2
      by (auto split: if_splits list.splits)
  next
    case 3
    then show ?thesis
      using "1.prems" s json_string_Valid unfolding json_value.simps [of d s]
      by (auto simp del: HasPrefix_simps split: if_split_asm)
  qed
next
  case (2 d s)
  from 2(3) obtain v w c t where *: "json_value d s = Some (v, w)" "skip_space w = c # t"
    by (auto simp: json_elems.simps [of d s] split: option.splits list.splits)
  then show ?case
    using 2(3) 2(1) [OF *(1)] 2(2) [OF *(1) refl *(2)]
    by (auto simp: json_elems.simps [of d s] split: if_splits)
next
  case (3 d s)
  from 3(3) obtain q t k u c x v w e y where *: "skip_space s = q # t" "q = DQUOTE"
      "json_string t = Some (k, u)" "skip_space u = c # x" "c = CHR '':''"
      "json_value d x = Some (v, w)" "skip_space w = e # y"
    by (auto simp: json_members.simps [of d s] split: option.splits list.splits if_splits)
  then show ?case
    using 3(3) 3(1) [OF *(1) _ *(3) refl *(4) _ *(6)] 3(2) [OF *(1) _ *(3) refl *(4) _ *(6) refl *(7)]
      json_string_Valid [OF *(3)]
    by (auto simp: json_members.simps [of d s] split: if_splits)
qed

section \<open>Structs\<close>

text \<open>
  The fields of a struct and their kinds. A key selects the field with that name, else the
  first field whose name is equal under case folding (\<open>foldName\<close>; outside ASCII only the
  Kelvin sign and the long s fold to an ASCII letter). A repeated key overwrites, \<open>null\<close> leaves
  the field alone, and an unknown key or a value of another kind is an error.
\<close>

datatype jkind = KString | KUint nat

record jstruct =
  js_str :: "string \<Rightarrow> string"
  js_num :: "string \<Rightarrow> nat"

definition zero_struct :: jstruct where
  "zero_struct = \<lparr>js_str = (\<lambda>_. []), js_num = (\<lambda>_. 0)\<rparr>"

definition fold_rune :: "rune \<Rightarrow> rune" where
  "fold_rune r =
     (if 97 \<le> r \<and> r \<le> 122 then r - 32 else if r = 0x212A then 75 else if r = 0x17F then 83 else r)"

definition foldName :: "string \<Rightarrow> rune list" where
  "foldName s = map fold_rune (runes s)"

definition find_field :: "(string \<times> jkind) list \<Rightarrow> string \<Rightarrow> (string \<times> jkind) option" where
  "find_field spec k =
     (case find (\<lambda>f. fst f = k) spec of
        Some f \<Rightarrow> Some f
      | None \<Rightarrow> find (\<lambda>f. foldName (fst f) = foldName k) spec)"

fun decode_field :: "string \<Rightarrow> jkind \<Rightarrow> jval \<Rightarrow> jstruct \<Rightarrow> jstruct option" where
  "decode_field name kind JNull st = Some st"
| "decode_field name KString (JString s) st = Some (st\<lparr>js_str := (js_str st)(name := s)\<rparr>)"
| "decode_field name (KUint w) (JNumber n) st =
     map_option (\<lambda>i. st\<lparr>js_num := (js_num st)(name := i)\<rparr>) (ParseUint10 n w)"
| "decode_field name kind v st = None"

fun decode_fields :: "bool \<Rightarrow> (string \<times> jkind) list \<Rightarrow> (string \<times> jval) list \<Rightarrow> jstruct \<Rightarrow> jstruct option" where
  "decode_fields strict spec [] st = Some st"
| "decode_fields strict spec ((k, v) # ms) st =
     (case find_field spec k of
        None \<Rightarrow> if strict then None else decode_fields strict spec ms st
      | Some (name, kind) \<Rightarrow>
          (case decode_field name kind v st of None \<Rightarrow> None
           | Some st' \<Rightarrow> decode_fields strict spec ms st'))"

text \<open>
  \<open>Decoder.Decode\<close> into a zero struct: the struct and the input left after the value; and
  \<open>json.Unmarshal\<close>, which wants nothing but white space after the value.
\<close>

definition decode_struct :: "bool \<Rightarrow> (string \<times> jkind) list \<Rightarrow> string \<Rightarrow> (jstruct \<times> string) option" where
  "decode_struct strict spec s =
     (case json_value 0 s of
        Some (JObject ms, rest) \<Rightarrow> map_option (\<lambda>st. (st, rest)) (decode_fields strict spec ms zero_struct)
      | Some (JNull, rest) \<Rightarrow> Some (zero_struct, rest)
      | _ \<Rightarrow> None)"

definition unmarshal :: "(string \<times> jkind) list \<Rightarrow> string \<Rightarrow> jstruct option" where
  "unmarshal spec s =
     (case decode_struct False spec s of
        Some (st, rest) \<Rightarrow> if list_all json_space rest then Some st else None
      | None \<Rightarrow> None)"

section \<open>Printing a flat object\<close>

fun json_print :: "jval \<Rightarrow> string" where
  "json_print (JString s) = json_quote s"
| "json_print (JNumber n) = n"
| "json_print _ = ''null''"

definition json_member :: "string \<times> jval \<Rightarrow> string" where
  "json_member m = json_quote (fst m) @ '':'' @ json_print (snd m)"

definition json_object :: "(string \<times> jval) list \<Rightarrow> string" where
  "json_object ms = ''{'' @ join '','' (map json_member ms) @ ''}''"

definition flat :: "jval \<Rightarrow> bool" where
  "flat v \<longleftrightarrow> (\<exists>s. v = JString s \<and> ValidString s) \<or> (\<exists>n. v = JNumber (dec n))"

definition flat_members :: "(string \<times> jval) list \<Rightarrow> bool" where
  "flat_members ms \<longleftrightarrow> list_all (\<lambda>(k, v). ValidString k \<and> flat v) ms"

lemma json_digits_dec:
  assumes "rest \<noteq> [] \<Longrightarrow> \<not> is_digit (hd rest)"
  shows "json_digits (dec n @ rest) = Some rest"
proof -
  have d: "list_all is_digit (dec n)" by (rule dec_digits)
  obtain c t where ct: "dec n = c # t" by (cases "dec n") auto
  have "dropWhile is_digit (dec n @ rest) = dropWhile is_digit rest"
    using d by (simp add: list_all_iff dropWhile_append2)
  also have "\<dots> = rest" using assms by (cases rest) auto
  finally show ?thesis using d ct by (simp add: json_digits_def)
qed

lemma dec_hd_zero: "dec n = CHR ''0'' # t \<Longrightarrow> t = []"
proof (induction n arbitrary: t rule: dec.induct)
  case (1 n)
  show ?case
  proof (cases "n < 10")
    case False
    obtain c u where cu: "dec (n div 10) = c # u" by (cases "dec (n div 10)") auto
    have "c = CHR ''0''" using False cu "1.prems" by (subst (asm) (1) dec.simps) simp
    then have "dec (n div 10) = [CHR ''0'']" using "1.IH" False cu by simp
    then have "digits_value 0 (dec (n div 10)) = 0" by (simp add: digit_value_def)
    then have "n div 10 = 0" by (simp add: digits_value_dec)
    then show ?thesis using False by simp
  qed (use "1.prems" in \<open>subst (asm) dec.simps, simp\<close>)
qed

lemma json_number_dec:
  assumes "rest \<noteq> [] \<Longrightarrow> hd rest = CHR '','' \<or> hd rest = CHR ''}''"
  shows "json_number (dec n @ rest) = Some (dec n, rest)"
proof -
  obtain c t where ct: "dec n = c # t" by (cases "dec n") auto
  have c: "is_digit c" using dec_digits [of n] ct by simp
  have nd: "rest \<noteq> [] \<Longrightarrow> \<not> is_digit (hd rest)" using assms by (auto simp: is_digit_def)
  have "json_int (dec n @ rest) = Some rest"
    using json_digits_dec [OF nd, of n] dec_hd_zero [of n t] ct by (simp add: json_int_def)
  moreover have "json_frac rest = Some rest" "json_exp rest = Some rest"
    using assms by (cases rest; auto simp: json_frac_def json_exp_def)+
  moreover have "c \<noteq> CHR ''-''" using c by (auto simp: is_digit_def)
  ultimately show ?thesis using ct by (simp add: json_number_def)
qed

lemma json_value_flat:
  assumes "flat v" "rest \<noteq> [] \<Longrightarrow> hd rest = CHR '','' \<or> hd rest = CHR ''}''"
  shows "json_value d (json_print v @ rest) = Some (v, rest)"
proof -
  consider s where "v = JString s" "ValidString s" | n where "v = JNumber (dec n)"
    using assms(1) unfolding flat_def by blast
  then show ?thesis
  proof cases
    case 1
    then show ?thesis by (simp add: json_value_quote ValidString_def)
  next
    case 2
    obtain c t where ct: "dec n = c # t" by (cases "dec n") auto
    have c: "is_digit c" using dec_digits [of n] ct by simp
    have "json_number (c # t @ rest) = Some (dec n, rest)"
      using json_number_dec [OF assms(2), of n] ct by simp
    moreover have "\<not> json_space c" "c \<notin> {CHR ''{'', CHR ''['', DQUOTE, CHR ''t'', CHR ''f'', CHR ''n''}"
      using c by (auto simp: is_digit_def json_space_def)
    ultimately show ?thesis using 2 ct by (subst json_value.simps) (auto simp: ct)
  qed
qed

lemma json_members_cons:
  assumes "ValidString k" "flat v" "rest \<noteq> []" "hd rest = CHR '','' \<or> hd rest = CHR ''}''"
  shows "json_members d (json_member (k, v) @ rest) =
    (if hd rest = CHR ''}'' then Some ([(k, v)], tl rest)
     else map_option (\<lambda>(ms, r). ((k, v) # ms, r)) (json_members d (tl rest)))"
proof -
  have m: "json_member (k, v) @ rest = DQUOTE # json_chars k @ DQUOTE # CHR '':'' # json_print v @ rest"
    by (simp add: json_member_def json_quote_def)
  obtain e y where r: "rest = e # y" using assms(3) by (cases rest) auto
  have "json_value d (json_print v @ e # y) = Some (v, e # y)"
    using json_value_flat [OF assms(2), of rest d] assms(4) r by simp
  moreover have "json_string (json_chars k @ DQUOTE # CHR '':'' # json_print v @ e # y) =
      Some (k, CHR '':'' # json_print v @ e # y)"
    using assms(1) by (simp add: json_string_chars ValidString_def)
  moreover have "\<not> json_space e" "e = CHR '','' \<or> e = CHR ''}''"
    using assms(4) r by (auto simp: json_space_def)
  ultimately show ?thesis
    unfolding m by (subst json_members.simps) (auto simp: r json_space_def)
qed

lemma json_members_print:
  assumes "flat_members ms" "ms \<noteq> []"
  shows "json_members d (join '','' (map json_member ms) @ CHR ''}'' # rest) = Some (ms, rest)"
  using assms(2,1)
proof (induction ms rule: list_nonempty_induct)
  case (single m)
  then show ?case
    using json_members_cons [of "fst m" "snd m" "CHR ''}'' # rest" d]
    by (simp add: flat_members_def split_beta)
next
  case (cons m ms)
  obtain m' ms' where ms: "ms = m' # ms'" using cons.hyps by (cases ms) auto
  have "join '','' (map json_member (m # ms)) @ CHR ''}'' # rest =
      json_member m @ CHR '','' # (join '','' (map json_member ms) @ CHR ''}'' # rest)"
    using ms by simp
  then show ?case
    using json_members_cons [of "fst m" "snd m" "CHR '','' # _" d] cons
    by (simp add: flat_members_def split_beta)
qed

lemma json_member_hd: "\<exists>t. json_member m = DQUOTE # t"
  by (simp add: json_member_def json_quote_def)

text \<open>A printed flat object reads back as its members, and what follows it is left.\<close>

lemma json_value_object:
  assumes "flat_members ms" "d < maxNestingDepth"
  shows "json_value d (json_object ms @ rest) = Some (JObject ms, rest)"
proof (cases ms)
  case Nil
  then show ?thesis using assms(2) by (subst json_value.simps) (simp add: json_object_def json_space_def)
next
  case (Cons m ms')
  then obtain t where t: "join '','' (map json_member ms) @ CHR ''}'' # rest = DQUOTE # t"
    using json_member_hd [of m] by (cases ms') auto
  have "json_members (Suc d) (DQUOTE # t) = Some (ms, rest)"
    using json_members_print [OF assms(1), of "Suc d" rest] Cons t by simp
  then show ?thesis
    using assms(2) t by (subst json_value.simps) (simp add: json_object_def json_space_def)
qed

section \<open>Printed objects are lines\<close>

lemma hex_lower_ge: "n < 16 \<Longrightarrow> 0x20 \<le> byte (hex_lower n)"
  by (simp add: hex_lower_def)

lemma u_escape_printable:
  assumes "r < 0x10000" "x \<in> set (u_escape r)"
  shows "0x20 \<le> byte x"
proof -
  have "r div 4096 < 16" using assms(1) by simp
  then show ?thesis
    using assms(2) hex_lower_ge [of "r div 4096"] hex_lower_ge [of "r div 256 mod 16"]
      hex_lower_ge [of "r div 16 mod 16"] hex_lower_ge [of "r mod 16"]
    by (auto simp: u_escape_def)
qed

lemma json_escape_printable:
  assumes "byte c < 0x80" "x \<in> set (json_escape c)"
  shows "0x20 \<le> byte x"
proof (cases "json_escape c = u_escape (byte c)")
  case True
  then show ?thesis using assms u_escape_printable [of "byte c" x] by simp
next
  case False
  then show ?thesis using assms(2) by (auto simp: json_escape_def split: if_splits)
qed

text \<open>Encoded text holds no control character, so a printed object is one line.\<close>

lemma json_chars_printable: "x \<in> set (json_chars s) \<Longrightarrow> 0x20 \<le> byte x"
proof (induction s rule: json_chars.induct)
  case (2 c s)
  obtain r n where rn: "DecodeRune (c # s) = (r, n)" by fastforce
  show ?case
  proof (cases "byte c < 0x80")
    case True
    then show ?thesis using 2(1,3) json_escape_printable [OF True] by auto
  next
    case False
    show ?thesis
    proof (cases "r = RuneError \<and> n = 1 \<or> r = 0x2028 \<or> r = 0x2029")
      case esc: True
      then have "r < 0x10000" by auto
      then show ?thesis using 2(2) [OF False rn [symmetric]] 2(3) False esc rn u_escape_printable
        by auto
    next
      case raw: False
      then have e: "EncodeRune r = take n (c # s)" using EncodeRune_DecodeRune [OF rn] by simp
      have v: "ValidRune r" using DecodeRune_Valid [of "c # s"] rn by simp
      have "0 < n" using DecodeRune_pos [of "c # s"] rn by simp
      then have "\<not> r < 0x80" using e False by (cases n) auto
      then have "0x80 \<le> byte y" if "y \<in> set (take n (c # s))" for y
        using EncodeRune_high [OF v, of y] that e by simp
      moreover have "json_chars (c # s) = take n (c # s) @ json_chars (drop n (c # s))"
        using False raw rn by (auto simp del: take_Suc_Cons)
      ultimately show ?thesis using 2(2) [OF False rn [symmetric]] 2(3) by fastforce
    qed
  qed
qed simp

lemma json_quote_no_NL: "NL \<notin> set (json_quote s)"
  using json_chars_printable [of NL s] by (auto simp: json_quote_def)

lemma json_object_no_NL:
  assumes "list_all (\<lambda>m. NL \<notin> set (json_print (snd m))) ms"
  shows "NL \<notin> set (json_object ms)"
proof -
  have "NL \<notin> set (join '','' ws)" if "list_all (\<lambda>w. NL \<notin> set w) ws" for ws
    using that by (induction "'','' :: string" ws rule: join.induct) auto
  then show ?thesis
    using assms json_quote_no_NL
    by (auto simp: json_object_def json_member_def list_all_iff)
qed

lemma json_print_no_NL [simp]: "NL \<notin> set (json_print (JString s))"
  by (simp add: json_quote_no_NL)

section \<open>Sizes\<close>

lemma length_runes_le: "length (runes s) \<le> length s"
proof (induction s rule: runes.induct)
  case (2 a t)
  then show ?case using DecodeRune_pos [of "a # t"] by simp linarith
qed simp

lemma length_json_escape: "length (json_escape c) \<le> 6"
  by (simp add: json_escape_def u_escape_def)

text \<open>JSON escaping grows a rune to at most six bytes.\<close>

lemma length_json_chars: "length (json_chars s) \<le> 6 * length (runes s)"
proof (induction s rule: json_chars.induct)
  case (2 c s)
  obtain r n where rn: "DecodeRune (c # s) = (r, n)" by fastforce
  show ?case
  proof (cases "byte c < 0x80")
    case True
    then have "DecodeRune (c # s) = (byte c, 1)" by (simp add: DecodeRune_def)
    then show ?thesis using 2(1) [OF True] True length_json_escape [of c] by simp
  next
    case False
    have "n \<le> 4" using rn by (auto simp: DecodeRune_def Let_def split: if_splits list.splits)
    then have "length (take n (c # s)) \<le> 6" by simp
    then show ?thesis
      using 2(2) [OF False rn [symmetric]] False rn by (simp add: u_escape_def del: take_Suc_Cons)
  qed
qed simp

lemma runes_json_string:
  "json_string s = Some (out, rest) \<Longrightarrow> length (runes out) + length rest < length s"
proof (induction s arbitrary: out rest rule: json_string.induct)
  case (2 c s)
  show ?case
  proof (cases "c = DQUOTE")
    case False
    with 2(2) obtain o1 r1 o2 where *: "json_item (c # s) = Some (o1, r1)"
        "json_string r1 = Some (o2, rest)" "out = o1 @ o2"
      by (auto split: option.splits)
    obtain r where "ValidRune r" "o1 = EncodeRune r" using json_item_Valid [OF *(1)] by blast
    then have "length (runes out) = Suc (length (runes o2))" using *(3) by (simp add: runes_EncodeRune)
    then show ?thesis
      using 2(1) [OF False *(1) refl *(2)] json_item_shorter [OF *(1)] by simp
  qed (use 2(2) in auto)
qed simp

fun jval_runes :: "jval \<Rightarrow> nat" where
  "jval_runes (JString s) = length (runes s)"
| "jval_runes (JArray vs) = sum_list (map jval_runes vs)"
| "jval_runes (JObject ms) = sum_list (map (\<lambda>(k, v). jval_runes v) ms)"
| "jval_runes _ = 0"

lemma json_runes:
  "json_value d s = Some (v, r) \<Longrightarrow> jval_runes v + length r \<le> length s"
  "json_elems d s = Some (vs, r) \<Longrightarrow> sum_list (map jval_runes vs) + length r \<le> length s"
  "json_members d s = Some (ms, r) \<Longrightarrow> sum_list (map (\<lambda>(k, v). jval_runes v) ms) + length r \<le> length s"
proof (induction d s and d s and d s arbitrary: v r and vs r and ms r
    rule: json_value_json_elems_json_members.induct)
  case (1 d s)
  from 1(3) obtain c t where s: "skip_space s = c # t"
    by (auto simp: json_value.simps [of d s] split: list.splits)
  note l = skip_space_shorter [OF s]
  have le: "length r \<le> length s" using json_shorter(1) [OF 1(3)] by simp
  consider "c = CHR ''{''" | "c = CHR ''[''" | "c \<noteq> CHR ''{''" "c \<noteq> CHR ''[''" by blast
  then show ?case
  proof cases
    case 1
    show ?thesis
      using "1.prems" s l le "1.IH"(1) [OF s 1] unfolding json_value.simps [of d s] 1
      by (fastforce split: if_splits list.splits)
  next
    case 2
    show ?thesis
      using "1.prems" s l le "1.IH"(2) [OF s _ 2] unfolding json_value.simps [of d s] 2
      by (fastforce split: if_splits list.splits)
  next
    case 3
    have "length (runes x) + length w \<le> length s" if "json_string t = Some (x, w)" for x w
      using runes_json_string [OF that] l by simp
    then show ?thesis
      using "1.prems" s 3 le unfolding json_value.simps [of d s]
      by (auto simp del: HasPrefix_simps split: if_split_asm)
  qed
next
  case (2 d s)
  from 2(3) obtain v w c t where *: "json_value d s = Some (v, w)" "skip_space w = c # t"
    by (auto simp: json_elems.simps [of d s] split: option.splits list.splits)
  then show ?case
    using 2(3) 2(1) [OF *(1)] 2(2) [OF *(1) refl *(2)] skip_space_shorter [OF *(2)]
    by (fastforce simp: json_elems.simps [of d s] split: if_splits)
next
  case (3 d s)
  from 3(3) obtain q t k u c x v w e y where *: "skip_space s = q # t" "q = DQUOTE"
      "json_string t = Some (k, u)" "skip_space u = c # x" "c = CHR '':''"
      "json_value d x = Some (v, w)" "skip_space w = e # y"
    by (auto simp: json_members.simps [of d s] split: option.splits list.splits if_splits)
  have "jval_runes v + length w \<le> length s"
    using 3(1) [OF *(1) _ *(3) refl *(4) _ *(6)] *(2,5) skip_space_shorter [OF *(1)]
      json_string_shorter [OF *(3)] skip_space_shorter [OF *(4)] by simp
  then show ?case
    using 3(3) 3(2) [OF *(1) _ *(3) refl *(4) _ *(6) refl *(7)] * skip_space_shorter [OF *(7)]
    by (fastforce simp: json_members.simps [of d s] split: if_splits)
qed

end
