(* ===== verification/Credbroker.thy ===== *)
theory Credbroker
  imports Go_Json "HOL-Library.Word" "HOL-Library.Multiset"
begin

text \<open>
  The credential broker of \<open>src/internal/credbroker/server.go\<close> and its client: one JSON line asks
  for the value to send in a header to a host, and the broker releases it when the peer, the
  token, the rate window and the grant table allow it and the record of the release is durable.
  Handlers run concurrently and share the windows and the request log under one mutex, so the
  model is a step relation in which every critical section of a handler is one step. The clock,
  the outcome of a log write and what a client sends are inputs of a step.
\<close>

section \<open>Grants\<close>

record grant =
  g_host :: string
  g_header :: string

definition grants :: "(string \<times> grant list) list" where
  "grants =
     [(''claude_api_key'',
        [\<lparr>g_host = ''api.anthropic.com'', g_header = ''x-api-key''\<rparr>,
         \<lparr>g_host = ''api.anthropic.com'', g_header = ''authorization''\<rparr>]),
      (''gemini_env'',
        [\<lparr>g_host = ''generativelanguage.googleapis.com'', g_header = ''x-goog-api-key''\<rparr>]),
      (''codex_auth'', [\<lparr>g_host = ''api.openai.com'', g_header = ''authorization''\<rparr>])]"

definition keychainItems :: "(string \<times> string) list" where
  "keychainItems =
     [(''claude_api_key'', ''workcell-claude-api-key''), (''gemini_env'', ''workcell-gemini-api-key''),
      (''codex_auth'', ''workcell-codex-api-key'')]"

text \<open>A lookup in a Go map of strings or of slices gives the zero value for an absent key.\<close>

definition grants_of :: "string \<Rightarrow> grant list" where
  "grants_of key = (case map_of grants key of None \<Rightarrow> [] | Some gs \<Rightarrow> gs)"

definition KeychainItem :: "string \<Rightarrow> string" where
  "KeychainItem key = (case map_of keychainItems key of None \<Rightarrow> [] | Some i \<Rightarrow> i)"

definition TerminateRules :: "string \<Rightarrow> string \<Rightarrow> string list" where
  "TerminateRules key placeholder =
     map (\<lambda>g. g_host g @ ''='' @ g_header g @ ''='' @ placeholder) (grants_of key)"

definition Hosts :: "string \<Rightarrow> string list" where
  "Hosts key =
     foldl (\<lambda>hosts g. if g_host g \<in> set hosts then hosts else hosts @ [g_host g]) [] (grants_of key)"

definition Brokers :: "string \<Rightarrow> bool" where
  "Brokers key \<longleftrightarrow> map_of grants key \<noteq> None"

section \<open>Messages\<close>

record Request =
  Token :: string
  Host :: string
  Header :: string

record Response =
  Value :: string
  Error :: string

definition maxLineBytes :: nat where "maxLineBytes = 4096"

definition ErrBadToken :: string where "ErrBadToken = ''bad_token''"
definition ErrRateLimited :: string where "ErrRateLimited = ''rate_limited''"
definition ErrNotGranted :: string where "ErrNotGranted = ''not_granted''"
definition ErrLogFailed :: string where "ErrLogFailed = ''log_failed''"
definition resultGranted :: string where "resultGranted = ''granted''"
definition resultPeerRejected :: string where "resultPeerRejected = ''peer_rejected''"
definition resultMalformed :: string where "resultMalformed = ''malformed''"

lemmas result_defs = ErrBadToken_def ErrRateLimited_def ErrNotGranted_def ErrLogFailed_def
  resultGranted_def resultPeerRejected_def resultMalformed_def

definition emptyRequest :: Request where
  "emptyRequest = \<lparr>Token = [], Host = [], Header = []\<rparr>"

definition request_fields :: "(string \<times> jkind) list" where
  "request_fields = [(''token'', KString), (''host'', KString), (''header'', KString)]"

text \<open>
  \<open>ReadBytes('\n')\<close> on the first \<open>maxLineBytes\<close> bytes: the line with its newline, or an error
  when there is none.
\<close>

definition read_line :: "string \<Rightarrow> string option" where
  "read_line input = map_option (\<lambda>(l, _). l @ [NL]) (cut NL (take maxLineBytes input))"

definition readRequest :: "string \<Rightarrow> Request option" where
  "readRequest input =
     (case read_line input of None \<Rightarrow> None
      | Some line \<Rightarrow>
          map_option (\<lambda>(st, _). \<lparr>Token = js_str st ''token'', Host = js_str st ''host'',
              Header = js_str st ''header''\<rparr>)
            (decode_struct True request_fields line))"

definition omitempty :: "string \<Rightarrow> string \<Rightarrow> (string \<times> jval) list" where
  "omitempty k s = (if s = [] then [] else [(k, JString s)])"

definition response_line :: "Response \<Rightarrow> string" where
  "response_line r = json_object (omitempty ''value'' (Value r) @ omitempty ''error'' (Error r)) @ [NL]"

text \<open>
  The client: \<open>Lookup\<close> sends one encoded request and reads one response line. What the connection
  returns is an input.
\<close>

definition request_line :: "string \<Rightarrow> string \<Rightarrow> string \<Rightarrow> string" where
  "request_line token host header =
     json_object [(''token'', JString token), (''host'', JString host), (''header'', JString header)] @ [NL]"

datatype lookup_error = ReadFailed | BadResponse | DenyError string | EmptyValue

definition Lookup :: "string \<Rightarrow> (lookup_error, string) result" where
  "Lookup reply =
     (case read_line reply of None \<Rightarrow> Inl ReadFailed
      | Some line \<Rightarrow>
          (case unmarshal [(''value'', KString), (''error'', KString)] line of
             None \<Rightarrow> Inl BadResponse
           | Some st \<Rightarrow>
               if js_str st ''error'' \<noteq> [] then Inl (DenyError (js_str st ''error''))
               else if js_str st ''value'' = [] then Inl EmptyValue
               else Inr (js_str st ''value'')))"

section \<open>The server\<close>

text \<open>A time is the number of nanoseconds since Go's zero time. \<open>Sub\<close> saturates.\<close>

type_synonym time = nat

definition Sub :: "time \<Rightarrow> time \<Rightarrow> int" where
  "Sub t u = max (- (2 ^ 63)) (min (2 ^ 63 - 1) (int t - int u))"

definition rateLimit :: nat where "rateLimit = 300"
definition rateWindow :: nat where "rateWindow = 60 * 1000000000"
definition maxConns :: nat where "maxConns = 64"

record credential =
  c_key :: string
  c_value :: string

record logRecord =
  lr_Time :: string
  lr_Host :: string
  lr_Header :: string
  lr_Credential :: string
  lr_Result :: string

record Config =
  cfg_Token :: string
  cfg_Credentials :: "(string \<times> string) list"
  cfg_Log :: bool

datatype config_error = TokenRequired | LogRequired | NoBrokerGrant string

text \<open>
  The server. The request log holds the records that were written and synced, in order, and the
  bytes that a failed write left behind.
\<close>

record server =
  sv_token :: string
  sv_creds :: "grant \<Rightarrow> credential option"
  sv_uid :: "32 word"
  sv_windowStart :: time
  sv_count :: nat
  sv_rejectStart :: time
  sv_rejected :: nat
  sv_logFailed :: bool
  sv_records :: "logRecord list"
  sv_torn :: string

fun add_creds :: "(string \<times> string) list \<Rightarrow> (grant \<Rightarrow> credential option) \<Rightarrow>
    (config_error, grant \<Rightarrow> credential option) result" where
  "add_creds [] creds = Inr creds"
| "add_creds ((key, v) # cs) creds =
     (case map_of grants key of None \<Rightarrow> Inl (NoBrokerGrant key)
      | Some keyGrants \<Rightarrow>
          add_creds cs (foldl (\<lambda>m g. m(g \<mapsto> \<lparr>c_key = key, c_value = v\<rparr>)) creds keyGrants))"

definition newServer :: "32 word \<Rightarrow> Config \<Rightarrow> (config_error, server) result" where
  "newServer uid config =
     (if cfg_Token config = [] then Inl TokenRequired
      else if \<not> cfg_Log config then Inl LogRequired
      else case add_creds (cfg_Credentials config) Map.empty of
        Inl e \<Rightarrow> Inl e
      | Inr creds \<Rightarrow>
          Inr \<lparr>sv_token = cfg_Token config, sv_creds = creds, sv_uid = uid,
               sv_windowStart = 0, sv_count = 0, sv_rejectStart = 0, sv_rejected = 0,
               sv_logFailed = False, sv_records = [], sv_torn = []\<rparr>)"

definition fixedWindow :: "time \<Rightarrow> time \<Rightarrow> nat \<Rightarrow> bool \<times> time \<times> nat" where
  "fixedWindow now start n =
     (let (start, n) = (if int rateWindow \<le> Sub now start then (now, 0) else (start, n)) in
      if rateLimit \<le> n then (False, start, n) else (True, start, Suc n))"

definition allow :: "time \<Rightarrow> server \<Rightarrow> bool \<times> server" where
  "allow now s =
     (case fixedWindow now (sv_windowStart s) (sv_count s) of (ok, start, n) \<Rightarrow>
        (ok, s\<lparr>sv_windowStart := start, sv_count := n\<rparr>))"

definition allowRejected :: "time \<Rightarrow> server \<Rightarrow> bool \<times> server" where
  "allowRejected now s =
     (case fixedWindow now (sv_rejectStart s) (sv_rejected s) of (ok, start, n) \<Rightarrow>
        (ok, s\<lparr>sv_rejectStart := start, sv_rejected := n\<rparr>))"

definition answer :: "time \<Rightarrow> Request \<Rightarrow> server \<Rightarrow> (Response \<times> string) \<times> server" where
  "answer now request s =
     (if Token request \<noteq> sv_token s then ((\<lparr>Value = [], Error = ErrBadToken\<rparr>, []), s)
      else case allow now s of
        (False, s') \<Rightarrow> ((\<lparr>Value = [], Error = ErrRateLimited\<rparr>, []), s')
      | (True, s') \<Rightarrow>
          (case sv_creds s' \<lparr>g_host = Host request, g_header = Header request\<rparr> of
             None \<Rightarrow> ((\<lparr>Value = [], Error = ErrNotGranted\<rparr>, []), s')
           | Some c \<Rightarrow> ((\<lparr>Value = c_value c, Error = []\<rparr>, c_key c), s')))"

definition record_members :: "logRecord \<Rightarrow> (string \<times> jval) list" where
  "record_members r =
     [(''time'', JString (lr_Time r))] @ omitempty ''host'' (lr_Host r)
     @ omitempty ''header'' (lr_Header r) @ omitempty ''credential'' (lr_Credential r)
     @ [(''result'', JString (lr_Result r))]"

definition record_line :: "logRecord \<Rightarrow> string" where
  "record_line r = json_object (record_members r) @ [NL]"

text \<open>What the log does with a line: the bytes it took, and whether \<open>Write\<close> or \<open>Sync\<close> fails.\<close>

record log_io =
  li_n :: nat
  li_write_error :: bool
  li_sync_error :: bool

definition good_io :: "string \<Rightarrow> log_io \<Rightarrow> bool" where
  "good_io line io \<longleftrightarrow> \<not> li_write_error io \<and> li_n io = length line \<and> \<not> li_sync_error io"

text \<open>
  \<open>record\<close>: whether the record is durable. \<open>format\<close> is \<open>Time.Format\<close> with the layout RFC3339Nano.
\<close>

definition new_record :: "(time \<Rightarrow> string) \<Rightarrow> time \<Rightarrow> Request \<Rightarrow> string \<Rightarrow> string \<Rightarrow> logRecord" where
  "new_record format now request key result =
     \<lparr>lr_Time = format now, lr_Host = Host request, lr_Header = Header request,
      lr_Credential = key, lr_Result = result\<rparr>"

definition record_request ::
  "(time \<Rightarrow> string) \<Rightarrow> time \<Rightarrow> log_io \<Rightarrow> Request \<Rightarrow> string \<Rightarrow> string \<Rightarrow> server \<Rightarrow> bool \<times> server" where
  "record_request format now io request key result s =
     (let r = new_record format now request key result; line = record_line r in
      if sv_logFailed s then (False, s)
      else if good_io line io then (True, s\<lparr>sv_records := sv_records s @ [r]\<rparr>)
      else (False, s\<lparr>sv_logFailed := True, sv_torn := take (li_n io) line\<rparr>))"

text \<open>The bytes of the request log.\<close>

definition log_bytes :: "server \<Rightarrow> string" where
  "log_bytes s = concat (map record_line (sv_records s)) @ sv_torn s"

section \<open>A handler, one critical section per step\<close>

text \<open>
  The states of \<open>serve\<close> between its critical sections: before the peer check; before \<open>answer\<close>;
  before \<open>allowRejected\<close>, with the result to record and the response, if there is one to send;
  before \<open>record\<close>; before the reply; returned.
\<close>

datatype handler =
    Accepted "32 word option" string
  | Answering Request
  | Rejecting Request string "Response option"
  | Recording Request string string "Response option"
  | Replying Request Response
  | Returned

definition after_answer :: "Request \<Rightarrow> Response \<Rightarrow> string \<Rightarrow> handler" where
  "after_answer request response key =
     (let result = (if Error response = [] then resultGranted else Error response) in
      if result \<noteq> resultGranted then Rejecting request result (Some response)
      else Recording request key result (Some response))"

definition after_record :: "Request \<Rightarrow> bool \<Rightarrow> Response option \<Rightarrow> handler" where
  "after_record request ok response =
     (case response of None \<Rightarrow> Returned
      | Some r \<Rightarrow> Replying request (if ok then r else \<lparr>Value = [], Error = ErrLogFailed\<rparr>))"

fun serve_step :: "(time \<Rightarrow> string) \<Rightarrow> time \<Rightarrow> log_io \<Rightarrow> handler \<Rightarrow> server \<Rightarrow> handler \<times> server" where
  "serve_step format now io (Accepted uid input) s =
     (if uid \<noteq> Some (sv_uid s) then (Rejecting emptyRequest resultPeerRejected None, s)
      else case readRequest input of
        None \<Rightarrow> (Rejecting emptyRequest resultMalformed None, s)
      | Some request \<Rightarrow> (Answering request, s))"
| "serve_step format now io (Answering request) s =
     (case answer now request s of ((response, key), s') \<Rightarrow> (after_answer request response key, s'))"
| "serve_step format now io (Rejecting request result response) s =
     (case allowRejected now s of (ok, s') \<Rightarrow>
        (if ok then Recording request [] result response else Returned, s'))"
| "serve_step format now io (Recording request key result response) s =
     (case record_request format now io request key result s of (ok, s') \<Rightarrow>
        (after_record request ok response, s'))"
| "serve_step format now io (Replying request response) s = (Returned, s)"
| "serve_step format now io Returned s = (Returned, s)"

section \<open>Serve: concurrent handlers\<close>

text \<open>
  The accept loop and its handlers. \<open>sy_sent\<close> is what has been written to connections: the
  request a handler read and its response. \<open>sy_clock\<close> is the latest clock reading; Go reads a
  monotonic clock. While the loop runs it admits at most \<open>maxConns\<close> handlers; when it ends,
  \<open>stopHandlers\<close> closes every connection, so a later write is lost, and waits for the handlers.
\<close>

datatype phase = Serving | Stopping | Stopped

record sys =
  sy_server :: server
  sy_handlers :: "(nat \<times> handler) list"
  sy_next :: nat
  sy_clock :: time
  sy_phase :: phase
  sy_sent :: "(Request \<times> Response) list"

definition accept :: "32 word option \<Rightarrow> string \<Rightarrow> sys \<Rightarrow> sys" where
  "accept uid input y =
     (if length (sy_handlers y) < maxConns then
        y\<lparr>sy_handlers := (sy_next y, Accepted uid input) # sy_handlers y, sy_next := Suc (sy_next y)\<rparr>
      else y)"

definition sent_by :: "handler \<Rightarrow> phase \<Rightarrow> (Request \<times> Response) list" where
  "sent_by h p =
     (case h of Replying request response \<Rightarrow> if p = Serving then [(request, response)] else [] | _ \<Rightarrow> [])"

definition run_handler :: "(time \<Rightarrow> string) \<Rightarrow> time \<Rightarrow> log_io \<Rightarrow> nat \<Rightarrow> handler \<Rightarrow> sys \<Rightarrow> sys" where
  "run_handler format now io i h y =
     (case serve_step format now io h (sy_server y) of (h', s') \<Rightarrow>
        y\<lparr>sy_server := s', sy_clock := now,
          sy_handlers := map (\<lambda>(j, x). (j, if j = i then h' else x)) (sy_handlers y),
          sy_sent := sy_sent y @ sent_by h (sy_phase y)\<rparr>)"

inductive sys_step :: "(time \<Rightarrow> string) \<Rightarrow> sys \<Rightarrow> sys \<Rightarrow> bool" for format where
  accepted: "sy_phase y = Serving \<Longrightarrow> sys_step format y (accept uid input y)"
| ran: "(i, h) \<in> set (sy_handlers y) \<Longrightarrow> h \<noteq> Returned \<Longrightarrow> sy_clock y \<le> now \<Longrightarrow>
    sys_step format y (run_handler format now io i h y)"
| reaped: "(i, Returned) \<in> set (sy_handlers y) \<Longrightarrow>
    sys_step format y (y\<lparr>sy_handlers := filter (\<lambda>x. fst x \<noteq> i) (sy_handlers y)\<rparr>)"
| stopping: "sy_phase y = Serving \<Longrightarrow> sys_step format y (y\<lparr>sy_phase := Stopping\<rparr>)"
| stopped: "sy_phase y = Stopping \<Longrightarrow> sy_handlers y = [] \<Longrightarrow>
    sys_step format y (y\<lparr>sy_phase := Stopped\<rparr>)"

definition start_sys :: "server \<Rightarrow> time \<Rightarrow> sys" where
  "start_sys s t0 =
     \<lparr>sy_server = s, sy_handlers = [], sy_next = 0, sy_clock = t0, sy_phase = Serving, sy_sent = []\<rparr>"

inductive sys_reaches :: "(time \<Rightarrow> string) \<Rightarrow> server \<Rightarrow> time \<Rightarrow> sys \<Rightarrow> bool" for format s t0 where
  start: "sys_reaches format s t0 (start_sys s t0)"
| step: "sys_reaches format s t0 y \<Longrightarrow> sys_step format y y' \<Longrightarrow> sys_reaches format s t0 y'"

section \<open>Sums over the handlers\<close>

definition over_handlers :: "(handler \<Rightarrow> 'a :: comm_monoid_add) \<Rightarrow> (nat \<times> handler) list \<Rightarrow> 'a" where
  "over_handlers f hs = sum_list (map (\<lambda>x. f (snd x)) hs)"

lemma over_handlers_simps [simp]:
  "over_handlers f [] = 0" "over_handlers f (x # hs) = f (snd x) + over_handlers f hs"
  by (simp_all add: over_handlers_def)

lemma over_handlers_fresh:
  "i \<notin> fst ` set hs \<Longrightarrow> map (\<lambda>(j, x). (j, if j = i then h' else x)) hs = hs"
  by (induction hs) auto

lemma over_handlers_update:
  assumes "distinct (map fst hs)" "(i, h) \<in> set hs"
  shows "over_handlers f (map (\<lambda>(j, x). (j, if j = i then h' else x)) hs) + f h =
    over_handlers f hs + f h'"
  using assms
proof (induction hs)
  case (Cons x hs)
  show ?case
  proof (cases "fst x = i")
    case True
    then have "i \<notin> fst ` set hs" "x = (i, h)" using Cons.prems by (auto simp: rev_image_eqI)
    then show ?thesis by (simp add: over_handlers_fresh ac_simps)
  next
    case False
    then have "over_handlers f (map (\<lambda>(j, x). (j, if j = i then h' else x)) hs) + f h =
        over_handlers f hs + f h'" using Cons by auto
    then show ?thesis using False by (cases x) (simp add: add.assoc)
  qed
qed simp

lemma over_handlers_remove:
  assumes "distinct (map fst hs)" "(i, h) \<in> set hs" "f h = 0"
  shows "over_handlers f (filter (\<lambda>x. fst x \<noteq> i) hs) = over_handlers f hs"
  using assms
proof (induction hs)
  case (Cons x hs)
  show ?case
  proof (cases "fst x = i")
    case True
    then have "i \<notin> fst ` set hs" "x = (i, h)" using Cons.prems by (auto simp: rev_image_eqI)
    then have "filter (\<lambda>x. fst x \<noteq> i) hs = hs" by (auto simp: filter_id_conv)
    then show ?thesis using \<open>x = (i, h)\<close> Cons.prems(3) by simp
  next
    case False
    then show ?thesis using Cons by auto
  qed
qed simp

section \<open>The invariant\<close>

definition granted_record :: "logRecord \<Rightarrow> bool" where
  "granted_record r \<longleftrightarrow> lr_Result r = resultGranted"

definition released_for :: "server \<Rightarrow> Request \<Rightarrow> Response \<Rightarrow> string \<Rightarrow> bool" where
  "released_for s request response key \<longleftrightarrow>
     Token request = sv_token s \<and>
     sv_creds s \<lparr>g_host = Host request, g_header = Header request\<rparr> =
       Some \<lparr>c_key = key, c_value = Value response\<rparr>"

text \<open>What a handler in flight has established.\<close>

fun handler_ok :: "server \<Rightarrow> handler \<Rightarrow> bool" where
  "handler_ok s (Rejecting request result response) \<longleftrightarrow>
     result \<noteq> resultGranted \<and> (\<forall>r. response = Some r \<longrightarrow> Error r \<noteq> [])"
| "handler_ok s (Recording request key result response) \<longleftrightarrow>
     (if result = resultGranted
      then (\<exists>r. response = Some r \<and> Error r = [] \<and> released_for s request r key)
      else key = [] \<and> (\<forall>r. response = Some r \<longrightarrow> Error r \<noteq> []))"
| "handler_ok s (Replying request response) \<longleftrightarrow>
     (Error response = [] \<longrightarrow> (\<exists>key. released_for s request response key))"
| "handler_ok s _ \<longleftrightarrow> True"

definition target :: "Request \<Rightarrow> string \<times> string" where
  "target request = (Host request, Header request)"

definition record_target :: "logRecord \<Rightarrow> string \<times> string" where
  "record_target r = (lr_Host r, lr_Header r)"

definition released :: "(Request \<times> Response) list \<Rightarrow> (string \<times> string) multiset" where
  "released sent = mset (map (target \<circ> fst) (filter (\<lambda>x. Error (snd x) = []) sent))"

definition recorded :: "logRecord list \<Rightarrow> (string \<times> string) multiset" where
  "recorded rs = mset (map record_target (filter granted_record rs))"

fun in_flight :: "handler \<Rightarrow> (string \<times> string) multiset" where
  "in_flight (Replying request response) = (if Error response = [] then {#target request#} else {#})"
| "in_flight _ = {#}"

definition record_ok :: "server \<Rightarrow> logRecord \<Rightarrow> bool" where
  "record_ok s r \<longleftrightarrow>
     (if granted_record r
      then (\<exists>v. sv_creds s \<lparr>g_host = lr_Host r, g_header = lr_Header r\<rparr> =
              Some \<lparr>c_key = lr_Credential r, c_value = v\<rparr>)
      else lr_Credential r = [])"

definition sys_inv :: "server \<Rightarrow> sys \<Rightarrow> bool" where
  "sys_inv s0 y \<longleftrightarrow>
     sv_token (sy_server y) = sv_token s0 \<and> sv_creds (sy_server y) = sv_creds s0 \<and>
     sv_uid (sy_server y) = sv_uid s0 \<and>
     distinct (map fst (sy_handlers y)) \<and> list_all (\<lambda>x. fst x < sy_next y) (sy_handlers y) \<and>
     length (sy_handlers y) \<le> maxConns \<and>
     list_all (handler_ok s0 \<circ> snd) (sy_handlers y) \<and>
     list_all (\<lambda>(req, resp). Error resp = [] \<longrightarrow> (\<exists>key. released_for s0 req resp key)) (sy_sent y) \<and>
     list_all (record_ok s0) (sv_records (sy_server y)) \<and>
     released (sy_sent y) + over_handlers in_flight (sy_handlers y) \<subseteq># recorded (sv_records (sy_server y)) \<and>
     (\<not> sv_logFailed (sy_server y) \<longrightarrow> sv_torn (sy_server y) = [])"

section \<open>The operations\<close>

lemma fixedWindow_cases:
  obtains (reset) "int rateWindow \<le> Sub now start" "fixedWindow now start n = (True, now, 1)"
    | (allowed) "Sub now start < int rateWindow" "n < rateLimit" "fixedWindow now start n = (True, start, Suc n)"
    | (refused) "Sub now start < int rateWindow" "rateLimit \<le> n" "fixedWindow now start n = (False, start, n)"
proof -
  have "0 < rateLimit" by (simp add: rateLimit_def)
  then show thesis using that by (cases "int rateWindow \<le> Sub now start"; cases "rateLimit \<le> n")
      (auto simp: fixedWindow_def not_le)
qed

text \<open>The parts of the server that one operation leaves alone.\<close>

lemma allow_frame:
  assumes "allow now s = (ok, s')"
  shows "\<exists>start n. s' = s\<lparr>sv_windowStart := start, sv_count := n\<rparr>"
  using assms by (auto simp: allow_def split: prod.splits)

lemma allowRejected_frame:
  assumes "allowRejected now s = (ok, s')"
  shows "\<exists>start n. s' = s\<lparr>sv_rejectStart := start, sv_rejected := n\<rparr>"
  using assms by (auto simp: allowRejected_def split: prod.splits)

lemma answer_cases:
  obtains (bad_token) "Token request \<noteq> sv_token s"
      "answer now request s = ((\<lparr>Value = [], Error = ErrBadToken\<rparr>, []), s)"
    | (rate_limited) s' where "Token request = sv_token s" "allow now s = (False, s')"
      "answer now request s = ((\<lparr>Value = [], Error = ErrRateLimited\<rparr>, []), s')"
    | (not_granted) s' where "Token request = sv_token s" "allow now s = (True, s')"
      "sv_creds s \<lparr>g_host = Host request, g_header = Header request\<rparr> = None"
      "answer now request s = ((\<lparr>Value = [], Error = ErrNotGranted\<rparr>, []), s')"
    | (granted) s' c where "Token request = sv_token s" "allow now s = (True, s')"
      "sv_creds s \<lparr>g_host = Host request, g_header = Header request\<rparr> = Some c"
      "answer now request s = ((\<lparr>Value = c_value c, Error = []\<rparr>, c_key c), s')"
proof (cases "Token request = sv_token s")
  case True
  obtain ok s' where a: "allow now s = (ok, s')" by fastforce
  then have "sv_creds s' = sv_creds s" using allow_frame by fastforce
  with True a that show thesis
    by (cases ok; cases "sv_creds s \<lparr>g_host = Host request, g_header = Header request\<rparr>")
       (auto simp: answer_def)
qed (auto simp: answer_def that)

definition same_session :: "server \<Rightarrow> server \<Rightarrow> bool" where
  "same_session s s' \<longleftrightarrow> sv_token s' = sv_token s \<and> sv_creds s' = sv_creds s \<and> sv_uid s' = sv_uid s"

lemma allow_same: "allow now s = (ok, s') \<Longrightarrow>
   same_session s s' \<and> sv_records s' = sv_records s \<and> sv_logFailed s' = sv_logFailed s \<and> sv_torn s' = sv_torn s"
  using allow_frame by (fastforce simp: same_session_def)

lemma allowRejected_same: "allowRejected now s = (ok, s') \<Longrightarrow>
   same_session s s' \<and> sv_records s' = sv_records s \<and> sv_logFailed s' = sv_logFailed s \<and> sv_torn s' = sv_torn s"
  using allowRejected_frame by (fastforce simp: same_session_def)

lemma record_request_cases:
  obtains (failed_before) "sv_logFailed s" "record_request format now io request key result s = (False, s)"
    | (durable) "\<not> sv_logFailed s"
      "record_request format now io request key result s =
        (True, s\<lparr>sv_records := sv_records s @ [new_record format now request key result]\<rparr>)"
    | (fails) torn where "\<not> sv_logFailed s"
      "record_request format now io request key result s = (False, s\<lparr>sv_logFailed := True, sv_torn := torn\<rparr>)"
proof (cases "sv_logFailed s")
  case False
  show thesis
  proof (cases "good_io (record_line (new_record format now request key result)) io")
    case True
    with False show thesis by (intro that(2)) (simp_all add: record_request_def)
  next
    case no: False
    with False show thesis
      by (intro that(3) [of "take (li_n io) (record_line (new_record format now request key result))"])
         (simp_all add: record_request_def)
  qed
next
  case True
  then show thesis by (intro that(1)) (simp_all add: record_request_def)
qed

lemma new_record_simps [simp]:
  "record_target (new_record format now request key result) = target request"
  "granted_record (new_record format now request key result) \<longleftrightarrow> result = resultGranted"
  "lr_Credential (new_record format now request key result) = key"
  by (simp_all add: new_record_def record_target_def target_def granted_record_def)

lemma released_record_ok:
  "released_for s request r key \<Longrightarrow> record_ok s (new_record format now request key resultGranted)"
  by (simp add: record_ok_def released_for_def) (simp add: new_record_def)

text \<open>What one step of a handler does to the records and to the releases in flight.\<close>

lemma serve_step_safe:
  assumes "serve_step format now io h s = (h', s')" "handler_ok s h" "list_all (record_ok s) (sv_records s)"
    "\<not> sv_logFailed s \<longrightarrow> sv_torn s = []"
  shows "same_session s s' \<and> handler_ok s h' \<and> list_all (record_ok s) (sv_records s') \<and>
    released (sent_by h p) + in_flight h' + recorded (sv_records s) \<subseteq># in_flight h + recorded (sv_records s') \<and>
    (\<not> sv_logFailed s' \<longrightarrow> sv_torn s' = [])"
proof (cases h)
  case (Accepted uid input)
  then show ?thesis using assms
    by (auto simp: sent_by_def released_def same_session_def result_defs split: if_splits option.splits)
next
  case (Answering request)
  show ?thesis
  proof (cases rule: answer_cases [of request s now])
    case bad_token
    then show ?thesis using assms Answering
      by (auto simp: sent_by_def released_def after_answer_def Let_def result_defs same_session_def)
  next
    case (rate_limited s')
    then show ?thesis using assms Answering allow_same [OF rate_limited(2)]
      by (auto simp: sent_by_def released_def after_answer_def Let_def result_defs)
  next
    case (not_granted s')
    then show ?thesis using assms Answering allow_same [OF not_granted(2)]
      by (auto simp: sent_by_def released_def after_answer_def Let_def result_defs)
  next
    case (granted s' c)
    then show ?thesis using assms Answering allow_same [OF granted(2)]
      by (auto simp: sent_by_def released_def after_answer_def Let_def released_for_def)
  qed
next
  case (Rejecting request result response)
  obtain ok s'' where a: "allowRejected now s = (ok, s'')" by fastforce
  show ?thesis using assms Rejecting a allowRejected_same [OF a] by (auto simp: sent_by_def released_def split: if_splits)
next
  case (Recording request key result response)
  show ?thesis
  proof (cases rule: record_request_cases [of s format now io request key result])
    case failed_before
    then show ?thesis using assms Recording
      by (auto simp: sent_by_def released_def after_record_def same_session_def result_defs split: option.splits)
  next
    case durable
    then show ?thesis using assms Recording
      by (auto simp: sent_by_def released_def after_record_def same_session_def recorded_def
          split: option.splits if_splits intro: released_record_ok) (simp_all add: record_ok_def)
  next
    case (fails torn)
    then show ?thesis using assms Recording
      by (auto simp: sent_by_def released_def after_record_def same_session_def result_defs split: option.splits)
  qed
next
  case (Replying request response)
  then show ?thesis using assms by (auto simp: same_session_def sent_by_def released_def)
next
  case Returned
  then show ?thesis using assms by (auto simp: same_session_def sent_by_def released_def)
qed

section \<open>The invariant holds\<close>

lemma same_session_ok:
  assumes "same_session s s'"
  shows "handler_ok s' h = handler_ok s h" "released_for s' = released_for s" "record_ok s' = record_ok s"
proof -
  show r: "released_for s' = released_for s"
    using assms by (intro ext) (simp add: released_for_def same_session_def)
  show "handler_ok s' h = handler_ok s h" by (cases h) (simp_all add: r)
  show "record_ok s' = record_ok s"
    using assms by (intro ext) (simp add: record_ok_def same_session_def)
qed

lemma same_session_trans: "same_session s s' \<Longrightarrow> same_session s' s'' \<Longrightarrow> same_session s s''"
  by (simp add: same_session_def)

lemma sent_by_ok:
  assumes "handler_ok s h"
  shows "list_all (\<lambda>(req, resp). Error resp = [] \<longrightarrow> (\<exists>key. released_for s req resp key)) (sent_by h p)"
  using assms by (cases h) (auto simp: sent_by_def)

lemma released_append: "released (xs @ ys) = released xs + released ys"
  by (simp add: released_def)

lemma handler_ids: "map (fst \<circ> (\<lambda>(j, x). (j, if j = i then h' else x))) hs = map fst hs"
  by (induction hs) auto

lemma mset_balance:
  fixes a :: "'a multiset"
  assumes "f' + x = f + x'" "s + x' + r \<subseteq># x + r'" "a + f \<subseteq># r"
  shows "a + s + f' \<subseteq># r'"
proof -
  have "a + s + f' + x = (a + f) + (s + x')" using assms(1) by (simp add: ac_simps)
  also have "\<dots> \<subseteq># r + (s + x')" using assms(3) by simp
  also have "\<dots> \<subseteq># r' + x" using assms(2) by (simp add: ac_simps)
  finally show ?thesis by simp
qed

lemma run_handler_inv:
  assumes inv: "sys_inv s0 y" and mem: "(i, h) \<in> set (sy_handlers y)"
  shows "sys_inv s0 (run_handler format now io i h y)"
proof -
  let ?s = "sy_server y" and ?hs = "sy_handlers y"
  obtain h' s' where st: "serve_step format now io h ?s = (h', s')" by fastforce
  let ?hs' = "map (\<lambda>(j, x). (j, if j = i then h' else x)) ?hs"
  have ss: "same_session s0 ?s" using inv by (simp add: sys_inv_def same_session_def)
  note ok = same_session_ok [OF ss]
  have hok: "handler_ok ?s h" using inv mem by (auto simp: sys_inv_def list_all_iff ok)
  have step: "same_session ?s s'" "handler_ok ?s h'" "list_all (record_ok ?s) (sv_records s')"
    "\<not> sv_logFailed s' \<longrightarrow> sv_torn s' = []"
    "released (sent_by h (sy_phase y)) + in_flight h' + recorded (sv_records ?s)
       \<subseteq># in_flight h + recorded (sv_records s')"
    using serve_step_safe [OF st hok, of "sy_phase y"] inv by (auto simp: sys_inv_def ok)
  have d: "distinct (map fst ?hs)" using inv by (simp add: sys_inv_def)
  have "over_handlers in_flight ?hs' + in_flight h = over_handlers in_flight ?hs + in_flight h'"
    by (rule over_handlers_update [OF d mem])
  then have "released (sy_sent y) + released (sent_by h (sy_phase y)) + over_handlers in_flight ?hs'
      \<subseteq># recorded (sv_records s')"
    using step(5) inv unfolding sys_inv_def by (blast intro: mset_balance)
  moreover have "same_session s0 s'" using same_session_trans [OF ss step(1)] .
  moreover have "list_all (handler_ok s0 \<circ> snd) ?hs'"
  proof -
    have "list_all (handler_ok s0 \<circ> snd) ?hs" using inv by (simp add: sys_inv_def)
    then show ?thesis using step(2) by (simp add: list_all_iff ok split_beta)
  qed
  moreover have "list_all (\<lambda>x. fst x < sy_next y) ?hs'"
    using inv by (auto simp: sys_inv_def list_all_iff)
  moreover have "list_all (\<lambda>(req, resp). Error resp = [] \<longrightarrow> (\<exists>key. released_for s0 req resp key))
      (sent_by h (sy_phase y))"
    using sent_by_ok [OF hok] by (simp add: ok)
  ultimately show ?thesis
    using inv step(3,4) st
    by (simp add: sys_inv_def run_handler_def released_append ok handler_ids same_session_def)
qed

lemma accept_inv: "sys_inv s0 y \<Longrightarrow> sys_inv s0 (accept uid input y)"
  by (auto simp: sys_inv_def accept_def list_all_iff less_Suc_eq)

lemma reap_inv:
  assumes "sys_inv s0 y" "(i, Returned) \<in> set (sy_handlers y)"
  shows "sys_inv s0 (y\<lparr>sy_handlers := filter (\<lambda>x. fst x \<noteq> i) (sy_handlers y)\<rparr>)"
proof -
  have "over_handlers in_flight (filter (\<lambda>x. fst x \<noteq> i) (sy_handlers y)) = over_handlers in_flight (sy_handlers y)"
    using assms by (intro over_handlers_remove [of _ _ Returned]) (auto simp: sys_inv_def)
  moreover have "length (filter (\<lambda>x. fst x \<noteq> i) (sy_handlers y)) \<le> maxConns"
    using assms(1) order.trans [OF length_filter_le] unfolding sys_inv_def by blast
  ultimately show ?thesis
    using assms(1) unfolding sys_inv_def
    by (auto simp: list_all_iff intro: distinct_map_filter)
qed

lemma sys_step_inv: "sys_step format y y' \<Longrightarrow> sys_inv s0 y \<Longrightarrow> sys_inv s0 y'"
proof (induction rule: sys_step.induct)
  case (ran i h y now io)
  then show ?case by (blast intro: run_handler_inv)
next
  case (reaped i y)
  then show ?case by (blast intro: reap_inv)
next
  case (accepted y uid input)
  then show ?case by (blast intro: accept_inv)
qed (simp_all add: sys_inv_def)

definition fresh_server :: "server \<Rightarrow> bool" where
  "fresh_server s \<longleftrightarrow> sv_windowStart s = 0 \<and> sv_count s = 0 \<and> sv_rejectStart s = 0 \<and> sv_rejected s = 0 \<and>
     \<not> sv_logFailed s \<and> sv_records s = [] \<and> sv_torn s = []"

lemma newServer_fresh: "newServer uid config = Inr s \<Longrightarrow> fresh_server s"
  by (auto simp: newServer_def fresh_server_def split: if_splits sum.splits)

lemma reaches_inv:
  assumes "sys_reaches format s t0 y" "fresh_server s"
  shows "sys_inv s y"
  using assms
proof (induction rule: sys_reaches.induct)
  case start
  then show ?case
    by (simp add: sys_inv_def start_sys_def fresh_server_def released_def recorded_def)
qed (blast intro: sys_step_inv)

section \<open>The rate windows\<close>

definition window_ok :: "time \<Rightarrow> time \<Rightarrow> time \<Rightarrow> nat \<Rightarrow> nat \<Rightarrow> bool" where
  "window_ok t0 clock start n k \<longleftrightarrow>
     start = 0 \<and> n = 0 \<and> k = 0 \<or>
     t0 \<le> start \<and> start \<le> clock \<and> n \<le> rateLimit \<and> k \<le> rateLimit * ((start - t0) div rateWindow) + n"

lemma Sub_window: "int rateWindow \<le> Sub t u \<longleftrightarrow> u + rateWindow \<le> t"
  by (auto simp: Sub_def rateWindow_def)

lemma fixedWindow_ok:
  assumes "window_ok t0 clock start n k" "rateWindow \<le> t0" "t0 \<le> clock" "clock \<le> now"
    "fixedWindow now start n = (ok, start', n')"
  shows "window_ok t0 now start' n' (k + (if ok then 1 else 0))"
proof (cases rule: fixedWindow_cases [of now start n])
  case reset
  show ?thesis
  proof (cases "start = 0 \<and> n = 0 \<and> k = 0")
    case True
    then show ?thesis using reset assms by (auto simp: window_ok_def rateLimit_def)
  next
    case False
    then have w: "t0 \<le> start" "n \<le> rateLimit" "k \<le> rateLimit * ((start - t0) div rateWindow) + n"
      using assms(1) by (auto simp: window_ok_def)
    have "start - t0 + rateWindow \<le> now - t0" using reset(1) w(1) by (simp add: Sub_window)
    then have "(start - t0 + rateWindow) div rateWindow \<le> (now - t0) div rateWindow" by (rule div_le_mono)
    then have "(start - t0) div rateWindow + 1 \<le> (now - t0) div rateWindow" by (simp add: rateWindow_def)
    then have "rateLimit * ((start - t0) div rateWindow) + rateLimit \<le> rateLimit * ((now - t0) div rateWindow)"
      by (metis add_mult_distrib2 mult_le_mono2 nat_mult_1_right)
    then show ?thesis using reset w assms by (auto simp: window_ok_def rateLimit_def)
  qed
next
  case allowed
  then have "\<not> (start = 0 \<and> n = 0 \<and> k = 0)"
    using assms(2-4) by (auto simp: not_le [symmetric] Sub_window)
  then show ?thesis using allowed assms by (auto simp: window_ok_def)
next
  case refused
  then have "\<not> (start = 0 \<and> n = 0 \<and> k = 0)" by (auto simp: rateLimit_def)
  then show ?thesis using refused assms by (auto simp: window_ok_def)
qed

lemma window_ok_later: "window_ok t0 clock start n k \<Longrightarrow> clock \<le> now \<Longrightarrow> k' \<le> k \<Longrightarrow> window_ok t0 now start n k'"
  by (auto simp: window_ok_def)

lemma window_ok_bound:
  assumes "window_ok t0 clock start n k"
  shows "k \<le> rateLimit * ((clock - t0) div rateWindow + 1)"
proof (cases "start = 0 \<and> n = 0 \<and> k = 0")
  case False
  then have w: "start \<le> clock" "n \<le> rateLimit" "k \<le> rateLimit * ((start - t0) div rateWindow) + n"
    using assms by (auto simp: window_ok_def)
  have "(start - t0) div rateWindow \<le> (clock - t0) div rateWindow" using w(1) by (intro div_le_mono) simp
  then have "rateLimit * ((start - t0) div rateWindow) \<le> rateLimit * ((clock - t0) div rateWindow)"
    by (rule mult_le_mono2)
  then have "k \<le> rateLimit * ((clock - t0) div rateWindow) + rateLimit" using w by linarith
  then show ?thesis by simp
qed simp

fun grant_pending :: "handler \<Rightarrow> nat" where
  "grant_pending (Recording request key result response) = (if result = resultGranted then 1 else 0)"
| "grant_pending _ = 0"

fun denial_pending :: "handler \<Rightarrow> nat" where
  "denial_pending (Recording request key result response) = (if result = resultGranted then 0 else 1)"
| "denial_pending _ = 0"

abbreviation grants_in :: "logRecord list \<Rightarrow> nat" where
  "grants_in rs \<equiv> length (filter granted_record rs)"

abbreviation denials_in :: "logRecord list \<Rightarrow> nat" where
  "denials_in rs \<equiv> length (filter (\<lambda>r. \<not> granted_record r) rs)"

definition rate_inv :: "time \<Rightarrow> sys \<Rightarrow> bool" where
  "rate_inv t0 y \<longleftrightarrow> t0 \<le> sy_clock y \<and>
     (let s = sy_server y in
      window_ok t0 (sy_clock y) (sv_windowStart s) (sv_count s)
        (grants_in (sv_records s) + over_handlers grant_pending (sy_handlers y)) \<and>
      window_ok t0 (sy_clock y) (sv_rejectStart s) (sv_rejected s)
        (denials_in (sv_records s) + over_handlers denial_pending (sy_handlers y)))"

lemma serve_step_rate:
  assumes "serve_step format now io h s = (h', s')" "handler_ok s h" "rateWindow \<le> t0" "t0 \<le> clock" "clock \<le> now"
    and "window_ok t0 clock (sv_windowStart s) (sv_count s) (grants_in (sv_records s) + grant_pending h + a)"
    and "window_ok t0 clock (sv_rejectStart s) (sv_rejected s) (denials_in (sv_records s) + denial_pending h + b)"
  shows "window_ok t0 now (sv_windowStart s') (sv_count s') (grants_in (sv_records s') + grant_pending h' + a) \<and>
    window_ok t0 now (sv_rejectStart s') (sv_rejected s') (denials_in (sv_records s') + denial_pending h' + b)"
proof (cases h)
  case (Accepted uid input)
  then show ?thesis using assms
    by (auto split: if_splits option.splits intro: window_ok_later)
next
  case (Answering request)
  have fw: "window_ok t0 now (sv_windowStart s'') (sv_count s'')
      (grants_in (sv_records s) + a + (if ok then 1 else 0))" if "allow now s = (ok, s'')" for ok s''
    using that fixedWindow_ok [OF assms(6) assms(3-5)] Answering
    by (auto simp: allow_def split: prod.splits)
  have late: "window_ok t0 now (sv_rejectStart s) (sv_rejected s) (denials_in (sv_records s) + b)"
    using assms(5,7) Answering by (auto intro: window_ok_later)
  show ?thesis
  proof (cases rule: answer_cases [of request s now])
    case bad_token
    then show ?thesis using assms Answering late
      by (auto simp: after_answer_def Let_def result_defs intro: window_ok_later)
  next
    case (rate_limited s'')
    then show ?thesis using assms(1) Answering fw [OF rate_limited(2)] late allow_frame [OF rate_limited(2)]
      by (auto simp: after_answer_def Let_def result_defs)
  next
    case (not_granted s'')
    then show ?thesis using assms(1) Answering fw [OF not_granted(2)] late allow_frame [OF not_granted(2)]
      by (auto simp: after_answer_def Let_def result_defs intro: window_ok_later)
  next
    case (granted s'' c)
    then show ?thesis using assms(1) Answering fw [OF granted(2)] late allow_frame [OF granted(2)]
      by (auto simp: after_answer_def Let_def)
  qed
next
  case (Rejecting request result response)
  obtain ok s'' where a: "allowRejected now s = (ok, s'')" by fastforce
  have "window_ok t0 now (sv_rejectStart s'') (sv_rejected s'')
      (denials_in (sv_records s) + b + (if ok then 1 else 0))"
    using a fixedWindow_ok [OF assms(7) assms(3-5)] Rejecting
    by (auto simp: allowRejected_def split: prod.splits)
  moreover have "window_ok t0 now (sv_windowStart s) (sv_count s) (grants_in (sv_records s) + a)"
    using assms(5,6) Rejecting by (auto intro: window_ok_later)
  ultimately show ?thesis using assms(1,2) Rejecting a allowRejected_frame [OF a] by (auto split: if_splits)
next
  case (Recording request key result response)
  have late: "window_ok t0 now (sv_windowStart s) (sv_count s) (grants_in (sv_records s) + grant_pending h + a)"
    "window_ok t0 now (sv_rejectStart s) (sv_rejected s) (denials_in (sv_records s) + denial_pending h + b)"
    using assms(5-7) by (auto intro: window_ok_later)
  have np: "grant_pending (after_record request ok response) = 0"
    "denial_pending (after_record request ok response) = 0" for ok
    by (simp_all add: after_record_def split: option.split)
  show ?thesis
  proof (cases rule: record_request_cases [of s format now io request key result])
    case failed_before
    then show ?thesis using assms(1) Recording late np by (auto intro: window_ok_later split: if_splits)
  next
    case durable
    then show ?thesis using assms(1) Recording late np by (auto split: if_splits)
  next
    case (fails torn)
    then show ?thesis using assms(1) Recording late np by (auto intro: window_ok_later split: if_splits)
  qed
next
  case (Replying request response)
  then show ?thesis using assms by (auto intro: window_ok_later)
next
  case Returned
  then show ?thesis using assms by (auto intro: window_ok_later)
qed

lemma run_handler_rate:
  assumes "sys_inv s0 y" "rate_inv t0 y" "rateWindow \<le> t0" "(i, h) \<in> set (sy_handlers y)" "sy_clock y \<le> now"
  shows "rate_inv t0 (run_handler format now io i h y)"
proof -
  let ?s = "sy_server y" and ?hs = "sy_handlers y"
  obtain h' s' where st: "serve_step format now io h ?s = (h', s')" by fastforce
  let ?hs' = "map (\<lambda>(j, x). (j, if j = i then h' else x)) ?hs"
  have ss: "same_session s0 ?s" and d: "distinct (map fst ?hs)"
    using assms(1) by (simp_all add: sys_inv_def same_session_def)
  have hok: "handler_ok ?s h"
    using assms(1,4) by (auto simp: sys_inv_def list_all_iff same_session_ok [OF ss])
  have g: "over_handlers grant_pending ?hs' + grant_pending h = over_handlers grant_pending ?hs + grant_pending h'"
    by (rule over_handlers_update [OF d assms(4)])
  have e: "over_handlers denial_pending ?hs' + denial_pending h = over_handlers denial_pending ?hs + denial_pending h'"
    by (rule over_handlers_update [OF d assms(4)])
  have gl: "grant_pending h \<le> over_handlers grant_pending ?hs" "denial_pending h \<le> over_handlers denial_pending ?hs"
    using assms(4) by (force simp: over_handlers_def intro: member_le_sum_list)+
  have w: "window_ok t0 (sy_clock y) (sv_windowStart ?s) (sv_count ?s)
      (grants_in (sv_records ?s) + grant_pending h + (over_handlers grant_pending ?hs - grant_pending h))"
    "window_ok t0 (sy_clock y) (sv_rejectStart ?s) (sv_rejected ?s)
      (denials_in (sv_records ?s) + denial_pending h + (over_handlers denial_pending ?hs - denial_pending h))"
    using assms(2) gl by (simp_all add: rate_inv_def Let_def)
  have t: "t0 \<le> sy_clock y" using assms(2) by (simp add: rate_inv_def)
  have "grant_pending h' + (over_handlers grant_pending ?hs - grant_pending h) = over_handlers grant_pending ?hs'"
    "denial_pending h' + (over_handlers denial_pending ?hs - denial_pending h) = over_handlers denial_pending ?hs'"
    using g e gl by linarith+
  then show ?thesis
    using serve_step_rate [OF st hok assms(3) t assms(5) w] t assms(5) st
    by (simp add: rate_inv_def run_handler_def add.assoc)
qed

lemma sys_step_rate:
  "sys_step format y y' \<Longrightarrow> sys_inv s0 y \<Longrightarrow> rateWindow \<le> t0 \<Longrightarrow> rate_inv t0 y \<Longrightarrow> rate_inv t0 y'"
proof (induction rule: sys_step.induct)
  case (ran i h y now io)
  then show ?case by (blast intro: run_handler_rate)
next
  case (reaped i y)
  then have "over_handlers f (filter (\<lambda>x. fst x \<noteq> i) (sy_handlers y)) = over_handlers f (sy_handlers y)"
    if "f Returned = 0" for f :: "handler \<Rightarrow> nat"
    using that by (intro over_handlers_remove [of _ _ Returned]) (auto simp: sys_inv_def)
  then show ?case using reaped by (simp add: rate_inv_def)
qed (simp_all add: rate_inv_def accept_def)

lemma reaches_rate:
  assumes "sys_reaches format s t0 y" "fresh_server s" "rateWindow \<le> t0"
  shows "rate_inv t0 y"
  using assms
proof (induction rule: sys_reaches.induct)
  case start
  then show ?case by (simp add: rate_inv_def start_sys_def fresh_server_def window_ok_def)
next
  case (step y y')
  then show ?case using reaches_inv sys_step_rate by blast
qed

lemma rate_inv_bound:
  assumes "rate_inv t0 y"
  shows "grants_in (sv_records (sy_server y)) \<le> 300 * ((sy_clock y - t0) div rateWindow + 1)"
    "denials_in (sv_records (sy_server y)) \<le> 300 * ((sy_clock y - t0) div rateWindow + 1)"
  using assms by (auto simp: rate_inv_def Let_def rateLimit_def dest!: window_ok_bound)

lemma rate_inv_day:
  assumes "rate_inv t0 y" "sy_clock y \<le> t0 + 24 * 60 * rateWindow"
  shows "length (sv_records (sy_server y)) \<le> 864600"
proof -
  define n where "n = (sy_clock y - t0) div rateWindow"
  note b = rate_inv_bound [OF assms(1), folded n_def]
  have "sy_clock y - t0 \<le> 1440 * rateWindow" using assms(2) by simp
  then have "n \<le> (1440 * rateWindow) div rateWindow" unfolding n_def by (rule div_le_mono)
  then have "n \<le> 1440" by (simp add: rateWindow_def)
  then have "300 * (n + 1) + 300 * (n + 1) \<le> 864600" by simp
  then show ?thesis
    using add_mono [OF b] unfolding sum_length_filter_compl by (rule order.trans [rotated])
qed

section \<open>Configured credentials\<close>

lemma add_creds_sound:
  assumes "add_creds cs m = Inr m'" "m' g = Some c"
  shows "m g = Some c \<or> (c_key c, c_value c) \<in> set cs \<and> g \<in> set (grants_of (c_key c))"
  using assms
proof (induction cs m arbitrary: m' rule: add_creds.induct)
  case (2 key v cs m)
  then obtain gs where gs: "map_of grants key = Some gs" by (auto split: option.splits)
  have f: "foldl (\<lambda>m g. m(g \<mapsto> x)) n gs g = Some c \<Longrightarrow> n g = Some c \<or> c = x \<and> g \<in> set gs" for x n
  proof (induction gs arbitrary: n)
    case (Cons a gs)
    then show ?case using Cons.IH [of "n(a \<mapsto> x)"] Cons.prems by (auto split: if_splits)
  qed simp
  show ?case
    using 2(1) [OF gs] 2(2,3) gs f by (fastforce simp: grants_of_def)
qed simp

lemma newServer_creds:
  assumes "newServer uid config = Inr s" "sv_creds s g = Some c"
  shows "(c_key c, c_value c) \<in> set (cfg_Credentials config) \<and> g \<in> set (grants_of (c_key c))"
  using assms add_creds_sound by (fastforce simp: newServer_def split: if_splits sum.splits)

section \<open>The failed log\<close>

lemma serve_step_failed:
  assumes "serve_step format now io h s = (h', s')" "sv_logFailed s"
  shows "sv_logFailed s' \<and> log_bytes s' = log_bytes s \<and> sv_records s' = sv_records s"
proof (cases h)
  case (Answering request)
  obtain r k s'' where a: "answer now request s = ((r, k), s'')" by (metis surj_pair)
  then show ?thesis using assms Answering allow_same
    by (cases rule: answer_cases [of request s now]) (auto simp: log_bytes_def dest: allow_same)
next
  case (Rejecting request result response)
  obtain ok s'' where a: "allowRejected now s = (ok, s'')" by fastforce
  then show ?thesis using assms Rejecting allowRejected_same [OF a] by (auto simp: log_bytes_def)
next
  case (Recording request key result response)
  then show ?thesis using assms by (auto simp: record_request_def)
qed (use assms in \<open>auto split: if_splits option.splits\<close>)

lemma sys_step_failed:
  assumes "sys_step format y y'" "sv_logFailed (sy_server y)"
  shows "sv_logFailed (sy_server y') \<and> log_bytes (sy_server y') = log_bytes (sy_server y) \<and>
    sv_records (sy_server y') = sv_records (sy_server y)"
  using assms
proof (induction rule: sys_step.induct)
  case (ran i h y now io)
  obtain h' s' where st: "serve_step format now io h (sy_server y) = (h', s')" by fastforce
  then show ?case using serve_step_failed [OF st] ran by (simp add: run_handler_def)
qed (simp_all add: accept_def)

section \<open>The wire\<close>

lemma read_line_ok:
  assumes "NL \<notin> set l" "length l < maxLineBytes"
  shows "read_line (l @ [NL]) = Some (l @ [NL])"
  using assms by (simp add: read_line_def)

lemma readRequest_line:
  assumes "ValidString token" "ValidString host" "ValidString header"
    "length (request_line token host header) \<le> maxLineBytes"
  shows "readRequest (request_line token host header) =
    Some \<lparr>Token = token, Host = host, Header = header\<rparr>"
proof -
  let ?ms = "[(''token'', JString token), (''host'', JString host), (''header'', JString header)]"
  have a: "ValidString ''token''" "ValidString ''host''" "ValidString ''header''"
    by (rule ValidString_ascii, simp)+
  have f: "flat_members ?ms" using assms a by (simp add: flat_members_def flat_def)
  have "decode_struct True request_fields (json_object ?ms @ [NL]) =
      Some (\<lparr>js_str = (\<lambda>_. [])(''token'' := token, ''host'' := host, ''header'' := header), js_num = \<lambda>_. 0\<rparr>, [NL])"
    using json_value_object [OF f, of 0 "[NL]"]
    by (simp add: decode_struct_def request_fields_def find_field_def zero_struct_def maxNestingDepth_def)
  moreover have "read_line (json_object ?ms @ [NL]) = Some (json_object ?ms @ [NL])"
    using assms(4) by (intro read_line_ok json_object_no_NL) (simp_all add: request_line_def json_quote_no_NL)
  ultimately show ?thesis by (simp add: readRequest_def request_line_def)
qed

lemma Lookup_value:
  assumes "ValidString v" "v \<noteq> []" "length (response_line \<lparr>Value = v, Error = []\<rparr>) \<le> maxLineBytes"
  shows "Lookup (response_line \<lparr>Value = v, Error = []\<rparr>) = Inr v"
proof -
  let ?ms = "[(''value'', JString v)]"
  have f: "flat_members ?ms" using assms ValidString_ascii [of "''value''"] by (simp add: flat_members_def flat_def)
  have "unmarshal [(''value'', KString), (''error'', KString)] (json_object ?ms @ [NL]) =
      Some \<lparr>js_str = (\<lambda>_. [])(''value'' := v), js_num = \<lambda>_. 0\<rparr>"
    using json_value_object [OF f, of 0 "[NL]"]
    by (simp add: unmarshal_def decode_struct_def find_field_def zero_struct_def maxNestingDepth_def json_space_def)
  moreover have "read_line (json_object ?ms @ [NL]) = Some (json_object ?ms @ [NL])"
    using assms(2,3) by (intro read_line_ok json_object_no_NL)
      (simp_all add: response_line_def omitempty_def json_quote_no_NL)
  ultimately show ?thesis using assms(2) by (simp add: Lookup_def response_line_def omitempty_def)
qed

lemma newServer_token: "newServer uid config = Inr s \<Longrightarrow> sv_token s = cfg_Token config"
  by (auto simp: newServer_def split: if_splits sum.splits)

text \<open>
  The steps of one handler among the others: for each step the clock, the log and the server as the other handlers left it. The result
  is the handler after its last step and the server that this step leaves.
\<close>

fun steps :: "(time \<Rightarrow> string) \<Rightarrow> (time \<times> log_io \<times> server) list \<Rightarrow> handler \<Rightarrow> server \<Rightarrow> handler \<times> server" where
  "steps format [] h s = (h, s)"
| "steps format ((now, io, t) # ts) h s = (case serve_step format now io h t of (h', s') \<Rightarrow> steps format ts h' s')"

text \<open>No step of any handler changes the token, the grants or the uid.\<close>

lemma sys_reaches_same_session:
  assumes "sys_reaches format s t0 y" "newServer uid config = Inr s"
  shows "same_session s (sy_server y)"
  using reaches_inv [OF assms(1)] newServer_fresh [OF assms(2)] by (simp add: sys_inv_def same_session_def)

section \<open>A concrete run\<close>

text \<open>A scheduler for examples: handler \<open>i\<close> takes its next step at \<open>now\<close>.\<close>

definition drive :: "(time \<Rightarrow> string) \<Rightarrow> nat \<Rightarrow> time \<times> log_io \<Rightarrow> sys \<Rightarrow> sys" where
  "drive format i ti y =
     (case find (\<lambda>x. fst x = i \<and> snd x \<noteq> Returned) (sy_handlers y) of
        Some (j, h) \<Rightarrow> if sy_clock y \<le> fst ti then run_handler format (fst ti) (snd ti) j h y else y
      | None \<Rightarrow> y)"

lemma drive_reaches:
  assumes "sys_reaches format s t0 y"
  shows "sys_reaches format s t0 (drive format i ti y)"
proof (cases "find (\<lambda>x. fst x = i \<and> snd x \<noteq> Returned) (sy_handlers y)")
  case (Some jh)
  then have "jh \<in> set (sy_handlers y)" "snd jh \<noteq> Returned" by (auto simp: find_Some_iff)
  then show ?thesis using Some assms
    by (auto simp: drive_def split: prod.splits) (meson sys_reaches.step sys_step.ran)
qed (simp add: drive_def assms)

lemma foldl_drive_reaches:
  "sys_reaches format s t0 y \<Longrightarrow> sys_reaches format s t0 (foldl (\<lambda>y ti. drive format i ti y) y tis)"
  by (induction tis arbitrary: y) (auto intro: drive_reaches)

lemma accept_reaches:
  "sys_reaches format s t0 y \<Longrightarrow> sy_phase y = Serving \<Longrightarrow> sys_reaches format s t0 (accept uid input y)"
  by (blast intro: sys_reaches.step sys_step.accepted)

definition sample_time :: "time \<Rightarrow> string" where
  "sample_time t = ''2026-01-02T03:04:05Z''"

definition sample_config :: Config where
  "sample_config = \<lparr>cfg_Token = ''tok'', cfg_Credentials = [(''codex_auth'', ''sk-1''), (''gemini_env'', ''g'')],
     cfg_Log = True\<rparr>"

definition sample_server :: server where
  "sample_server = projr (newServer 501 sample_config)"

definition sample_t0 :: time where
  "sample_t0 = 63000000000000000000"

definition sample_request :: Request where
  "sample_request = \<lparr>Token = ''tok'', Host = ''api.openai.com'', Header = ''authorization''\<rparr>"

definition sample_record :: logRecord where
  "sample_record = new_record sample_time sample_t0 sample_request ''codex_auth'' resultGranted"

definition sample_io :: log_io where
  "sample_io = \<lparr>li_n = length (record_line sample_record), li_write_error = False, li_sync_error = False\<rparr>"

definition sample_accepted :: sys where
  "sample_accepted = accept (Some 501) (request_line ''tok'' ''api.openai.com'' ''authorization'')
     (start_sys sample_server sample_t0)"

definition sample_run :: sys where
  "sample_run = foldl (\<lambda>y ti. drive sample_time 0 ti y) sample_accepted
     (replicate 4 (sample_t0, sample_io))"

lemma sample_newServer: "newServer 501 sample_config = Inr sample_server"
proof -
  have "is_ok (newServer 501 sample_config)" by code_simp
  then show ?thesis by (auto simp: sample_server_def is_ok_def split: sum.splits)
qed

lemma sample_accepted_reaches: "sys_reaches sample_time sample_server sample_t0 sample_accepted"
  unfolding sample_accepted_def by (intro accept_reaches sys_reaches.start) (simp add: start_sys_def)

lemma sample_run_reaches: "sys_reaches sample_time sample_server sample_t0 sample_run"
  unfolding sample_run_def by (intro foldl_drive_reaches sample_accepted_reaches)

lemma sample_run_sent:
  "sy_sent sample_run = [(sample_request, \<lparr>Value = ''sk-1'', Error = []\<rparr>)]"
  by code_simp

lemma sample_run_records: "sv_records (sy_server sample_run) = [sample_record]"
  by code_simp

section \<open>Properties\<close>

text \<open>
  C24: every release is accounted for. In any interleaving of the handlers, each granted response
  that was sent has its own durable record with result \<open>granted\<close> for its host and header, carries
  the session token in its request, and carries the configured value of a credential that holds
  that grant; at most \<open>maxConns\<close> handlers are alive.
\<close>

theorem broker_releases_accounted:
  assumes "newServer uid config = Inr s" "sys_reaches format s t0 y"
  shows "released (sy_sent y) \<subseteq># recorded (sv_records (sy_server y)) \<and>
    length (sy_handlers y) \<le> maxConns \<and>
    list_all (\<lambda>(request, response). Error response \<noteq> [] \<or>
      Token request = cfg_Token config \<and>
      (\<exists>key. (key, Value response) \<in> set (cfg_Credentials config) \<and>
         \<lparr>g_host = Host request, g_header = Header request\<rparr> \<in> set (grants_of key))) (sy_sent y)"
proof -
  have inv: "sys_inv s y" using reaches_inv [OF assms(2) newServer_fresh [OF assms(1)]] .
  then have "released (sy_sent y) \<subseteq># recorded (sv_records (sy_server y))"
    unfolding sys_inv_def by (metis mset_subset_eq_add_left subset_mset.order_trans)
  moreover have "Token request = cfg_Token config \<and> (\<exists>key. (key, Value response) \<in> set (cfg_Credentials config) \<and>
      \<lparr>g_host = Host request, g_header = Header request\<rparr> \<in> set (grants_of key))"
    if "released_for s request response key" for request response key
    using that newServer_creds [OF assms(1)] newServer_token [OF assms(1)]
    by (fastforce simp: released_for_def)
  moreover have "length (sy_handlers y) \<le> maxConns"
    "\<forall>(request, response)\<in>set (sy_sent y). Error response = [] \<longrightarrow> (\<exists>key. released_for s request response key)"
    using inv by (simp_all add: sys_inv_def list_all_iff)
  ultimately show ?thesis unfolding list_all_iff by fast
qed

text \<open>
  A failed log is final. Once a write or sync of the request log has failed, no later step
  changes the log, and still every granted response has its record: nothing more is released
  than the log accounts for.
\<close>

theorem broker_log_failure_final:
  assumes "newServer uid config = Inr s" "sys_reaches format s t0 y" "sv_logFailed (sy_server y)"
    "(sys_step format)\<^sup>*\<^sup>* y y'"
  shows "log_bytes (sy_server y') = log_bytes (sy_server y) \<and> sv_logFailed (sy_server y') \<and>
    released (sy_sent y') \<subseteq># recorded (sv_records (sy_server y))"
proof -
  have "sys_reaches format s t0 y' \<and> sv_logFailed (sy_server y') \<and>
      log_bytes (sy_server y') = log_bytes (sy_server y) \<and> sv_records (sy_server y') = sv_records (sy_server y)"
    using assms(4)
  proof (induction rule: rtranclp_induct)
    case (step z z')
    then show ?case using sys_step_failed [OF step(2)] sys_reaches.step by metis
  qed (use assms in simp)
  moreover from this have "sys_inv s y'" using reaches_inv newServer_fresh assms(1) by blast
  ultimately show ?thesis
    unfolding sys_inv_def by (metis mset_subset_eq_add_left subset_mset.order_trans)
qed

text \<open>
  C26: the request budgets bound the log. After any run whose clock went from \<open>t0\<close> to \<open>t\<close>, the log
  has at most 300 grants and at most 300 refusals for each minute begun, whatever the clients
  send; over the 24 hours of a session that is fewer records than the summary reads.
\<close>

theorem broker_rate_bound:
  assumes "newServer uid config = Inr s" "sys_reaches format s t0 y" "rateWindow \<le> t0"
  shows "grants_in (sv_records (sy_server y)) \<le> 300 * ((sy_clock y - t0) div rateWindow + 1) \<and>
    denials_in (sv_records (sy_server y)) \<le> 300 * ((sy_clock y - t0) div rateWindow + 1) \<and>
    (sy_clock y \<le> t0 + 24 * 60 * rateWindow \<longrightarrow> length (sv_records (sy_server y)) \<le> 864600)"
proof -
  have "rate_inv t0 y" using reaches_rate [OF assms(2) newServer_fresh [OF assms(1)] assms(3)] .
  then show ?thesis using rate_inv_bound rate_inv_day by simp
qed

text \<open>
  C30: a request that may be granted is granted, whatever the other handlers do between the steps of its own. In the states of one session
  that the three steps of the handler find, let the peer be the broker's uid and the line be the one that the client sends for a configured
  grant with the session token. If at the second step the rate window has room or is over, and at the third step the log has
  not failed and takes the record, then the handler answers with the value of the credential, the grant is in the log, and
  the client reads that value. The value is not empty, and the texts are UTF-8 and fit in one line.
\<close>

theorem broker_serves_client:
  assumes "sv_creds s \<lparr>g_host = host, g_header = header\<rparr> = Some \<lparr>c_key = key, c_value = v\<rparr>"
    "same_session s s1" "same_session s s2" "same_session s s3"
    "ValidString (sv_token s)" "ValidString host" "ValidString header" "ValidString v" "v \<noteq> []"
    "length (request_line (sv_token s) host header) \<le> maxLineBytes"
    "length (response_line \<lparr>Value = v, Error = []\<rparr>) \<le> maxLineBytes"
    "sv_windowStart s2 + rateWindow \<le> now2 \<or> sv_count s2 < rateLimit" "\<not> sv_logFailed s3"
    "good_io (record_line (new_record format now3 \<lparr>Token = sv_token s, Host = host, Header = header\<rparr>
        key resultGranted)) io3"
  shows "\<exists>request response s'.
    steps format [(now1, io1, s1), (now2, io2, s2), (now3, io3, s3)]
      (Accepted (Some (sv_uid s)) (request_line (sv_token s) host header)) s0 = (Replying request response, s') \<and>
    Lookup (response_line response) = Inr v \<and>
    sv_records s' = sv_records s3 @ [new_record format now3 request key resultGranted]"
proof -
  let ?r = "\<lparr>Token = sv_token s, Host = host, Header = header\<rparr>"
  obtain s2' where s2': "allow now2 s2 = (True, s2')"
    using assms(12) by (cases rule: fixedWindow_cases [of now2 "sv_windowStart s2" "sv_count s2"])
      (auto simp: allow_def Sub_window not_le [symmetric] simp del: not_le)
  have "readRequest (request_line (sv_token s) host header) = Some ?r"
    using readRequest_line assms(5-7,10) by blast
  moreover have "answer now2 ?r s2 = ((\<lparr>Value = v, Error = []\<rparr>, key), s2')"
    using s2' assms(1,3) allow_same [OF s2'] by (simp add: answer_def same_session_def)
  moreover have "record_request format now3 io3 ?r key resultGranted s3 =
      (True, s3\<lparr>sv_records := sv_records s3 @ [new_record format now3 ?r key resultGranted]\<rparr>)"
    using assms(13,14) by (simp add: record_request_def)
  moreover have "sv_uid s1 = sv_uid s" using assms(2) by (simp add: same_session_def)
  ultimately show ?thesis
    using Lookup_value [OF assms(8,9,11)]
    by (simp add: after_answer_def after_record_def)
qed

theorem broker_releases_accounted_witness:
  "{#(''api.openai.com'', ''authorization'')#} \<subseteq># recorded [sample_record] \<and>
   (\<exists>key. (key, ''sk-1'') \<in> set (cfg_Credentials sample_config) \<and>
      \<lparr>g_host = ''api.openai.com'', g_header = ''authorization''\<rparr> \<in> set (grants_of key))"
  using broker_releases_accounted [OF sample_newServer sample_run_reaches]
  by (simp add: sample_run_sent sample_run_records released_def target_def sample_request_def)

definition failing_io :: log_io where
  "failing_io = \<lparr>li_n = 7, li_write_error = False, li_sync_error = True\<rparr>"

definition failed_run :: sys where
  "failed_run = foldl (\<lambda>y ti. drive sample_time 0 ti y) sample_accepted
     (replicate 3 (sample_t0, failing_io))"

lemma failed_run_reaches: "sys_reaches sample_time sample_server sample_t0 failed_run"
  unfolding failed_run_def by (intro foldl_drive_reaches sample_accepted_reaches)

lemma failed_run_failed: "sv_logFailed (sy_server failed_run) \<and> sy_phase failed_run = Serving"
  by code_simp

theorem broker_log_failure_final_witness:
  "log_bytes (sy_server (failed_run\<lparr>sy_phase := Stopping\<rparr>)) = log_bytes (sy_server failed_run)"
proof -
  have "(sys_step sample_time)\<^sup>*\<^sup>* failed_run (failed_run\<lparr>sy_phase := Stopping\<rparr>)"
    using failed_run_failed by (blast intro: sys_step.stopping)
  then show ?thesis
    using broker_log_failure_final [OF sample_newServer failed_run_reaches] failed_run_failed by blast
qed

theorem broker_rate_bound_witness:
  "grants_in (sv_records (sy_server sample_run)) \<le> 300 \<and> length (sv_records (sy_server sample_run)) \<le> 864600"
proof -
  have "sy_clock sample_run = sample_t0" by code_simp
  moreover have "rateWindow \<le> sample_t0" by code_simp
  ultimately show ?thesis
    using broker_rate_bound [OF sample_newServer sample_run_reaches] by simp
qed

theorem broker_serves_client_witness:
  "\<exists>request response s'.
    steps sample_time [(sample_t0, failing_io, sample_server), (sample_t0, failing_io, sample_server),
        (sample_t0, sample_io, sy_server sample_run)]
      (Accepted (Some (sv_uid sample_server)) (request_line (sv_token sample_server) ''api.openai.com'' ''authorization''))
      sample_server = (Replying request response, s') \<and>
    Lookup (response_line response) = Inr ''sk-1'' \<and>
    sv_records s' = sv_records (sy_server sample_run) @
      [new_record sample_time sample_t0 request ''codex_auth'' resultGranted]"
proof -
  have a: "same_session sample_server sample_server" by (simp add: same_session_def)
  have b: "same_session sample_server (sy_server sample_run)"
    by (rule sys_reaches_same_session [OF sample_run_reaches sample_newServer])
  show ?thesis by (rule broker_serves_client [OF _ a a b]) code_simp+
qed

end
