(* ===== verification/Credbroker_Ledger.thy ===== *)
theory Credbroker_Ledger
  imports Credbroker
begin

text \<open>
  The reader of the credential broker's request log (\<open>src/internal/credbroker/ledger.go\<close>), which
  folds the log into one session audit record after the session. The lemmas show that a line
  the broker wrote reads back as its record and fits in the reader's buffer; the property is
  that the summary of the broker's log states what the broker released.
\<close>

section \<open>The ledger reader\<close>

definition maxLedgerLineBytes :: nat where "maxLedgerLineBytes = 8 * maxLineBytes"
definition maxLedgerRecords :: nat where "maxLedgerRecords = 1000000"

definition deniedResults :: "string list" where
  "deniedResults = [ErrBadToken, ErrRateLimited, ErrNotGranted, resultPeerRejected, resultMalformed]"

definition StartAuditRecord :: "string \<Rightarrow> string" where
  "StartAuditRecord key = ''credential_broker_start key='' @ key @ '' item='' @ KeychainItem key"

text \<open>
  The loop of \<open>uniqueObjectKeys\<close> after \<open>{\<close>: \<open>first\<close> until a member was read. \<open>More\<close> is false at
  the end of the input and at a closing bracket; \<open>Token\<close> reads a comma and a key, \<open>Decode\<close> the
  colon and the value. The length test always holds (\<open>json_shorter\<close>).
\<close>

function unique_members :: "bool \<Rightarrow> string list \<Rightarrow> string \<Rightarrow> bool" where
  "unique_members first seen s =
     (case skip_space s of [] \<Rightarrow> True
      | c # t \<Rightarrow>
          if c = CHR '']'' \<or> c = CHR ''}'' then True
          else if \<not> first \<and> c \<noteq> CHR '','' then False
          else
            (case (if first then c # t else skip_space t) of [] \<Rightarrow> False
             | q # u \<Rightarrow>
                 if q \<noteq> DQUOTE then False
                 else case json_string u of None \<Rightarrow> False
                   | Some (key, w) \<Rightarrow>
                       if key \<in> set seen then False
                       else case skip_space w of [] \<Rightarrow> False
                         | e # x \<Rightarrow>
                             if e \<noteq> CHR '':'' then False
                             else case json_value 0 x of None \<Rightarrow> False
                               | Some (v, y) \<Rightarrow>
                                   if length y < length s then unique_members False (key # seen) y else False))"
  by pat_completeness auto
termination
  by (relation "measure (\<lambda>(first, seen, s). length s)") auto

declare unique_members.simps [simp del]

definition uniqueObjectKeys :: "string \<Rightarrow> bool" where
  "uniqueObjectKeys line =
     (case skip_space line of [] \<Rightarrow> False
      | c # t \<Rightarrow> c = CHR ''{'' \<and> unique_members True [] t)"

definition record_fields :: "(string \<times> jkind) list" where
  "record_fields = [(''time'', KString), (''host'', KString), (''header'', KString),
     (''credential'', KString), (''result'', KString)]"

definition record_of :: "jstruct \<Rightarrow> logRecord" where
  "record_of st = \<lparr>lr_Time = js_str st ''time'', lr_Host = js_str st ''host'', lr_Header = js_str st ''header'',
     lr_Credential = js_str st ''credential'', lr_Result = js_str st ''result''\<rparr>"

text \<open>\<open>parses\<close> is whether \<open>time.Parse\<close> accepts a text with the layout RFC3339Nano.\<close>

definition parseLedgerLine :: "(string \<Rightarrow> bool) \<Rightarrow> string \<Rightarrow> logRecord option" where
  "parseLedgerLine parses line =
     (if \<not> uniqueObjectKeys line then None
      else case decode_struct True record_fields line of
        None \<Rightarrow> None
      | Some (st, rest) \<Rightarrow>
          (let r = record_of st in
           if rest \<noteq> [] then None
           else if \<not> parses (lr_Time r) then None
           else if lr_Result r = resultGranted then
             (if \<lparr>g_host = lr_Host r, g_header = lr_Header r\<rparr> \<in> set (grants_of (lr_Credential r))
              then Some r else None)
           else if lr_Result r \<in> set deniedResults \<and> lr_Credential r = [] then Some r else None))"

text \<open>\<open>bufio.ScanLines\<close>: the lines without their newline and one carriage return before it.\<close>

definition scan_lines :: "string \<Rightarrow> string list" where
  "scan_lines s =
     (let ls = split_on NL s in if last ls = [] then butlast ls else ls)"

definition drop_cr :: "string \<Rightarrow> string" where
  "drop_cr l = (if l \<noteq> [] \<and> last l = CR then butlast l else l)"

record ledger =
  le_granted :: nat
  le_denied :: nat
  le_malformed :: nat
  le_lines :: nat
  le_truncated :: bool

text \<open>The scan; a line that does not fit in the buffer with its newline is an error.\<close>

fun ledger_fold :: "(string \<Rightarrow> bool) \<Rightarrow> string list \<Rightarrow> ledger \<Rightarrow> ledger option" where
  "ledger_fold parses [] l = Some l"
| "ledger_fold parses (raw # ls) l =
     (if maxLedgerLineBytes \<le> length raw then None
      else if le_lines l = maxLedgerRecords then Some (l\<lparr>le_truncated := True\<rparr>)
      else
        (let l = l\<lparr>le_lines := Suc (le_lines l)\<rparr> in
         ledger_fold parses ls
           (case parseLedgerLine parses (drop_cr raw) of
              None \<Rightarrow> l\<lparr>le_malformed := Suc (le_malformed l)\<rparr>
            | Some r \<Rightarrow>
                if lr_Result r = resultGranted then l\<lparr>le_granted := Suc (le_granted l)\<rparr>
                else l\<lparr>le_denied := Suc (le_denied l)\<rparr>)))"

definition ledger_summary :: "ledger \<Rightarrow> string" where
  "ledger_summary l =
     ''credential_broker_summary status=''
     @ (if le_truncated l then ''truncated'' else if 0 < le_malformed l then ''malformed'' else ''complete'')
     @ '' granted='' @ dec (le_granted l) @ '' denied='' @ dec (le_denied l)
     @ '' malformed_lines='' @ dec (le_malformed l)"

definition LedgerAuditRecords :: "(string \<Rightarrow> bool) \<Rightarrow> string \<Rightarrow> string list option" where
  "LedgerAuditRecords parses log =
     map_option (\<lambda>l. [ledger_summary l])
       (ledger_fold parses (scan_lines log)
          \<lparr>le_granted = 0, le_denied = 0, le_malformed = 0, le_lines = 0, le_truncated = False\<rparr>)"

section \<open>A line of the broker reads back\<close>

lemma unique_members_step:
  assumes "ValidString k" "flat v" "k \<notin> set seen" "rest \<noteq> []" "hd rest = CHR '','' \<or> hd rest = CHR ''}''"
  shows "unique_members True seen (json_member (k, v) @ rest) = unique_members False (k # seen) rest"
    "unique_members False seen (CHR '','' # json_member (k, v) @ rest) = unique_members False (k # seen) rest"
proof -
  have m: "json_member (k, v) @ rest = DQUOTE # json_chars k @ DQUOTE # CHR '':'' # json_print v @ rest"
    by (simp add: json_member_def json_quote_def)
  have js: "json_string (json_chars k @ DQUOTE # CHR '':'' # json_print v @ rest) =
      Some (k, CHR '':'' # json_print v @ rest)"
    using assms(1) by (simp add: json_string_chars ValidString_def)
  have jv: "json_value 0 (json_print v @ rest) = Some (v, rest)"
    using json_value_flat [OF assms(2)] assms(5) by blast
  note facts = js jv assms(3)
  show "unique_members True seen (json_member (k, v) @ rest) = unique_members False (k # seen) rest"
    unfolding m by (subst unique_members.simps) (simp add: facts json_space_def)
  show "unique_members False seen (CHR '','' # json_member (k, v) @ rest) = unique_members False (k # seen) rest"
    unfolding m by (subst unique_members.simps) (simp add: facts json_space_def)
qed

lemma unique_members_print:
  assumes "ms \<noteq> []" "flat_members ms" "distinct (map fst ms)" "set (map fst ms) \<inter> set seen = {}"
  shows "unique_members True seen (join '','' (map json_member ms) @ CHR ''}'' # rest) \<and>
    unique_members False seen (CHR '','' # join '','' (map json_member ms) @ CHR ''}'' # rest)"
  using assms
proof (induction ms arbitrary: seen rule: list_nonempty_induct)
  case (single m)
  have nil: "unique_members False seen' (CHR ''}'' # rest)" for seen'
    by (subst unique_members.simps) (simp add: json_space_def)
  then show ?case
    using single unique_members_step [of "fst m" "snd m" seen "CHR ''}'' # rest"]
    by (simp add: flat_members_def split_beta)
next
  case (cons m ms)
  let ?tl = "CHR '','' # join '','' (map json_member ms) @ CHR ''}'' # rest"
  have "join '','' (map json_member (m # ms)) @ CHR ''}'' # rest = json_member m @ ?tl"
    using cons.hyps by (cases ms) simp_all
  moreover have "unique_members False (fst m # seen) ?tl"
    using cons.IH [of "fst m # seen"] cons.prems by (auto simp: flat_members_def)
  ultimately show ?case
    using unique_members_step [of "fst m" "snd m" seen ?tl] cons.prems
    by (simp add: flat_members_def split_beta)
qed

lemma uniqueObjectKeys_object:
  assumes "ms \<noteq> []" "flat_members ms" "distinct (map fst ms)"
  shows "uniqueObjectKeys (json_object ms)"
  using unique_members_print [OF assms, of "[]" "[]"]
  by (simp add: uniqueObjectKeys_def json_object_def json_space_def)

text \<open>The records that the broker writes.\<close>

definition broker_record :: "(string \<Rightarrow> bool) \<Rightarrow> logRecord \<Rightarrow> bool" where
  "broker_record parses r \<longleftrightarrow>
     ValidString (lr_Time r) \<and> parses (lr_Time r) \<and> ValidString (lr_Host r) \<and> ValidString (lr_Header r) \<and>
     (if granted_record r
      then \<lparr>g_host = lr_Host r, g_header = lr_Header r\<rparr> \<in> set (grants_of (lr_Credential r))
      else lr_Result r \<in> set deniedResults \<and> lr_Credential r = [])"

lemma grants_of_ascii:
  assumes "grants_of key \<noteq> []"
  shows "key \<in> {''claude_api_key'', ''gemini_env'', ''codex_auth''}"
  using assms by (auto simp: grants_of_def grants_def split: if_splits)

lemma broker_record_texts:
  assumes "broker_record parses r"
  shows "ValidString (lr_Credential r)" "ValidString (lr_Result r)"
proof -
  show "ValidString (lr_Credential r)"
  proof (cases "granted_record r")
    case True
    then have "grants_of (lr_Credential r) \<noteq> []" using assms by (auto simp: broker_record_def)
    then have "list_all (\<lambda>c. byte c < 0x80) (lr_Credential r)" using grants_of_ascii by fastforce
    then show ?thesis by (rule ValidString_ascii)
  next
    case False
    then show ?thesis using assms by (auto simp: broker_record_def intro!: ValidString_ascii)
  qed
  show "ValidString (lr_Result r)"
    using assms by (cases "granted_record r")
      (auto simp: broker_record_def granted_record_def deniedResults_def result_defs intro!: ValidString_ascii)
qed

lemma parseLedgerLine_record:
  assumes "broker_record parses r"
  shows "parseLedgerLine parses (json_object (record_members r)) = Some r"
proof -
  have k: "ValidString ''time''" "ValidString ''host''" "ValidString ''header''" "ValidString ''credential''"
    "ValidString ''result''" by (rule ValidString_ascii, simp)+
  have f: "flat_members (record_members r)"
    using assms k broker_record_texts [OF assms]
    by (auto simp: flat_members_def record_members_def omitempty_def flat_def broker_record_def)
  have d: "distinct (map fst (record_members r))" "record_members r \<noteq> []"
    by (auto simp: record_members_def omitempty_def)
  have "\<exists>st. decode_fields True record_fields (record_members r) zero_struct = Some st \<and> record_of st = r"
    by (cases r) (simp add: record_members_def omitempty_def record_fields_def find_field_def record_of_def
        zero_struct_def)
  then obtain st where "decode_struct True record_fields (json_object (record_members r)) = Some (st, [])"
      "record_of st = r"
    using json_value_object [OF f, of 0 "[]"] by (auto simp: decode_struct_def maxNestingDepth_def)
  then show ?thesis
    using uniqueObjectKeys_object [OF d(2) f d(1)] assms
    by (auto simp: parseLedgerLine_def broker_record_def granted_record_def)
qed

section \<open>What a request puts into a record\<close>

definition request_ok :: "Request \<Rightarrow> bool" where
  "request_ok r \<longleftrightarrow> ValidString (Host r) \<and> ValidString (Header r) \<and>
     length (runes (Host r)) + length (runes (Header r)) \<le> maxLineBytes"

definition struct_ok :: "nat \<Rightarrow> jstruct \<Rightarrow> bool" where
  "struct_ok n st \<longleftrightarrow> ValidString (js_str st ''host'') \<and> ValidString (js_str st ''header'') \<and>
     length (runes (js_str st ''host'')) + length (runes (js_str st ''header'')) \<le> n"

lemma decode_field_ok:
  assumes "decode_field name kind v st = Some st'" "struct_ok n st" "jval_valid v"
  shows "struct_ok (n + jval_runes v) st'"
  using assms
  by (cases "(name, kind, v, st)" rule: decode_field.cases) (auto simp: struct_ok_def split: if_splits)

lemma decode_fields_ok:
  assumes "decode_fields strict spec ms st = Some st'" "struct_ok n st"
    "list_all (\<lambda>(k, v). ValidString k \<and> jval_valid v) ms"
  shows "struct_ok (n + sum_list (map (\<lambda>(k, v). jval_runes v) ms)) st'"
  using assms
proof (induction strict spec ms st arbitrary: n rule: decode_fields.induct)
  case (2 strict spec k v ms st)
  show ?case
  proof (cases "find_field spec k")
    case None
    then have "struct_ok (n + sum_list (map (\<lambda>(k, v). jval_runes v) ms)) st'"
      using 2(1) [OF None] 2(3-5) by (auto split: if_splits)
    then show ?thesis by (simp add: struct_ok_def)
  next
    case (Some nk)
    obtain name kind where nk: "nk = (name, kind)" by fastforce
    obtain st1 where st1: "decode_field name kind v st = Some st1" "decode_fields strict spec ms st1 = Some st'"
      using 2(3) Some nk by (auto split: option.splits)
    have "struct_ok (n + jval_runes v) st1" using decode_field_ok [OF st1(1) 2(4)] 2(5) by simp
    then show ?thesis using 2(2) [OF Some nk [symmetric] st1(1), of "n + jval_runes v"] st1(2) 2(5) by (simp add: add.assoc)
  qed
qed simp

lemma zero_struct_ok: "struct_ok 0 zero_struct"
  using ValidString_ascii [of "[]"] by (simp add: struct_ok_def zero_struct_def)

lemma readRequest_ok:
  assumes "readRequest input = Some r"
  shows "request_ok r"
proof -
  obtain line st rest where l: "read_line input = Some line" "decode_struct True request_fields line = Some (st, rest)"
      "r = \<lparr>Token = js_str st ''token'', Host = js_str st ''host'', Header = js_str st ''header''\<rparr>"
    using assms by (auto simp: readRequest_def split: option.splits)
  have "length line \<le> maxLineBytes"
    using l(1) by (auto simp: read_line_def dest!: cut_SomeD)
      (metis length_append length_Cons length_take min.cobounded2 add_Suc_right le_add1 le_trans not_less_eq_eq Suc_le_mono nat_le_linear)
  moreover have "struct_ok (length line) st"
  proof -
    consider ms where "json_value 0 line = Some (JObject ms, rest)"
        "decode_fields True request_fields ms zero_struct = Some st"
      | "st = zero_struct"
      using l(2) by (auto simp: decode_struct_def split: option.splits jval.splits)
    then show ?thesis
    proof cases
      case 1
      have "struct_ok (jval_runes (JObject ms)) st"
        using decode_fields_ok [OF 1(2) zero_struct_ok] json_valid(1) [OF 1(1)] by simp
      then show ?thesis using json_runes(1) [OF 1(1)] by (simp add: struct_ok_def)
    next
      case 2
      then show ?thesis using zero_struct_ok by (simp add: struct_ok_def)
    qed
  qed
  ultimately show ?thesis using l(3) by (simp add: request_ok_def struct_ok_def)
qed

lemma emptyRequest_ok: "request_ok emptyRequest"
  using ValidString_ascii [of "[]"] by (simp add: request_ok_def emptyRequest_def)

fun handler_log_ok :: "handler \<Rightarrow> bool" where
  "handler_log_ok (Answering request) \<longleftrightarrow> request_ok request"
| "handler_log_ok (Rejecting request result response) \<longleftrightarrow> request_ok request \<and> result \<in> set deniedResults"
| "handler_log_ok (Recording request key result response) \<longleftrightarrow>
     request_ok request \<and> (result = resultGranted \<or> result \<in> set deniedResults)"
| "handler_log_ok _ \<longleftrightarrow> True"

definition record_log_ok :: "(time \<Rightarrow> string) \<Rightarrow> logRecord \<Rightarrow> bool" where
  "record_log_ok format r \<longleftrightarrow> (\<exists>now request key result. r = new_record format now request key result \<and>
     request_ok request \<and> (result = resultGranted \<or> result \<in> set deniedResults))"

lemma serve_step_log_ok:
  assumes "serve_step format now io h s = (h', s')" "handler_log_ok h"
    "list_all (record_log_ok format) (sv_records s)"
  shows "handler_log_ok h' \<and> list_all (record_log_ok format) (sv_records s')"
proof (cases h)
  case (Accepted uid input)
  then show ?thesis using assms emptyRequest_ok readRequest_ok
    by (auto simp: deniedResults_def split: if_splits option.splits)
next
  case (Answering request)
  then show ?thesis using assms
    by (cases rule: answer_cases [of request s now])
       (auto simp: after_answer_def Let_def deniedResults_def result_defs dest: allow_same)
next
  case (Rejecting request result response)
  obtain ok s'' where a: "allowRejected now s = (ok, s'')" by fastforce
  then show ?thesis using assms Rejecting allowRejected_same [OF a] by (auto split: if_splits)
next
  case (Recording request key result response)
  have "handler_log_ok (after_record request ok response)" for ok
    by (simp add: after_record_def split: option.split)
  moreover have "record_log_ok format (new_record format now request key result)"
    using assms(2) Recording by (auto simp: record_log_ok_def)
  ultimately show ?thesis using assms Recording
    by (cases rule: record_request_cases [of s format now io request key result]) auto
qed (use assms in auto)

definition log_inv :: "(time \<Rightarrow> string) \<Rightarrow> sys \<Rightarrow> bool" where
  "log_inv format y \<longleftrightarrow> list_all (handler_log_ok \<circ> snd) (sy_handlers y) \<and>
     list_all (record_log_ok format) (sv_records (sy_server y))"

lemma sys_step_log: "sys_step format y y' \<Longrightarrow> log_inv format y \<Longrightarrow> log_inv format y'"
proof (induction rule: sys_step.induct)
  case (ran i h y now io)
  obtain h' s' where st: "serve_step format now io h (sy_server y) = (h', s')" by fastforce
  have "handler_log_ok h" using ran by (auto simp: log_inv_def list_all_iff)
  then show ?case using serve_step_log_ok [OF st] ran
    by (auto simp: log_inv_def run_handler_def st list_all_iff split_beta)
qed (auto simp: log_inv_def accept_def list_all_iff)

lemma reaches_log: "sys_reaches format s t0 y \<Longrightarrow> fresh_server s \<Longrightarrow> log_inv format y"
proof (induction rule: sys_reaches.induct)
  case start
  then show ?case by (simp add: log_inv_def start_sys_def fresh_server_def)
qed (blast intro: sys_step_log)

section \<open>The summary of the broker's own log\<close>

lemma length_json_member:
  "length (json_member (k, JString s)) \<le> 5 + 6 * length (runes k) + 6 * length (runes s)"
  using length_json_chars [of k] length_json_chars [of s] by (simp add: json_member_def json_quote_def)

lemma length_join_comma: "length (join '','' ws) \<le> sum_list (map (\<lambda>w. length w + 1) ws)"
  by (induction "'','' :: string" ws rule: join.induct) auto

lemma length_key: "length (runes k) \<le> length k"
  by (rule length_runes_le)

lemma length_record_object:
  assumes "record_log_ok format r" "record_ok s r" "\<And>g c. sv_creds s g = Some c \<Longrightarrow> g \<in> set (grants_of (c_key c))"
    "\<And>t. length (format t) \<le> 35"
  shows "length (json_object (record_members r)) < maxLedgerLineBytes"
proof -
  obtain now request key result where r: "r = new_record format now request key result" "request_ok request"
      "result = resultGranted \<or> result \<in> set deniedResults"
    using assms(1) unfolding record_log_ok_def by blast
  have t: "length (runes (lr_Time r)) \<le> 35"
    using length_runes_le [of "format now"] assms(4) [of now] r(1) by (simp add: new_record_def)
  have hh: "length (runes (lr_Host r)) + length (runes (lr_Header r)) \<le> 4096"
    using r(1,2) by (simp add: new_record_def request_ok_def maxLineBytes_def)
  have res: "length (runes (lr_Result r)) \<le> 13"
    using length_runes_le [of "lr_Result r"] r(1,3) by (auto simp: new_record_def deniedResults_def result_defs)
  have cr: "length (runes (lr_Credential r)) \<le> 14"
  proof (cases "granted_record r")
    case True
    then obtain v where "sv_creds s \<lparr>g_host = lr_Host r, g_header = lr_Header r\<rparr> =
        Some \<lparr>c_key = lr_Credential r, c_value = v\<rparr>" using assms(2) by (auto simp: record_ok_def)
    then have "grants_of (lr_Credential r) \<noteq> []" using assms(3) by fastforce
    then have "length (lr_Credential r) \<le> 14" using grants_of_ascii by fastforce
    then show ?thesis using length_runes_le [of "lr_Credential r"] by simp
  next
    case False
    then show ?thesis using assms(2) by (simp add: record_ok_def)
  qed
  have m: "length (json_member (k, JString x)) \<le> 5 + 6 * length k + 6 * length (runes x)" for k x
    using length_json_member [of k x] length_key [of k] by linarith
  have o: "sum_list (map (\<lambda>w. length (json_member w) + 1) (omitempty k x))
      \<le> 6 + 6 * length k + 6 * length (runes x)" for k x
    using m [of k x] by (simp add: omitempty_def)
  have "length (json_object (record_members r)) \<le>
      2 + sum_list (map (\<lambda>w. length (json_member w) + 1) (record_members r))"
    using length_join_comma [of "map json_member (record_members r)"] by (simp add: json_object_def o_def)
  also have "\<dots> \<le> 2 + 6 * 5 + 6 * (4 + 4 + 6 + 10 + 6) + 6 * (length (runes (lr_Time r)) +
      length (runes (lr_Host r)) + length (runes (lr_Header r)) + length (runes (lr_Credential r))
      + length (runes (lr_Result r)))"
    using m [of "''time''" "lr_Time r"] o [of "''host''" "lr_Host r"] o [of "''header''" "lr_Header r"]
      o [of "''credential''" "lr_Credential r"] m [of "''result''" "lr_Result r"]
    unfolding record_members_def by simp
  also have "\<dots> < maxLedgerLineBytes"
    using t hh res cr by (simp add: maxLedgerLineBytes_def maxLineBytes_def)
  finally show ?thesis .
qed

lemma dec_small: "dec 0 = ''0''" "dec (Suc 0) = ''1''"
  by code_simp+

lemma record_object_no_NL: "NL \<notin> set (json_object (record_members r))"
  by (rule json_object_no_NL) (simp add: record_members_def omitempty_def json_quote_no_NL)

lemma scan_lines_records:
  "scan_lines (concat (map record_line rs)) = map (\<lambda>r. json_object (record_members r)) rs"
proof -
  have "split_on NL (concat (map record_line rs)) = map (\<lambda>r. json_object (record_members r)) rs @ [[]]"
    by (induction rs) (simp_all add: record_line_def split_on_append record_object_no_NL)
  then show ?thesis by (simp add: scan_lines_def)
qed

lemma drop_cr_object: "drop_cr (json_object ms) = json_object ms"
  by (simp add: drop_cr_def json_object_def)

lemma ledger_fold_records:
  assumes "list_all (broker_record parses) rs"
    "list_all (\<lambda>r. length (json_object (record_members r)) < maxLedgerLineBytes) rs"
    "le_lines l + length rs \<le> maxLedgerRecords"
  shows "ledger_fold parses (map (\<lambda>r. json_object (record_members r)) rs) l =
    Some (l\<lparr>le_granted := le_granted l + grants_in rs, le_denied := le_denied l + denials_in rs,
            le_lines := le_lines l + length rs\<rparr>)"
  using assms
proof (induction rs arbitrary: l)
  case (Cons r rs)
  then show ?case
    by (simp add: drop_cr_object parseLedgerLine_record granted_record_def)
qed simp

lemma reaches_broker_record:
  assumes "sys_inv s y" "log_inv format y" "newServer uid config = Inr s"
    "\<And>t. parses (format t)" "\<And>t. list_all (\<lambda>c. byte c < 0x80) (format t)"
    "r \<in> set (sv_records (sy_server y))"
  shows "broker_record parses r"
proof -
  have "record_log_ok format r" "record_ok s r"
    using assms by (auto simp: sys_inv_def log_inv_def list_all_iff)
  moreover have "\<lparr>g_host = lr_Host r, g_header = lr_Header r\<rparr> \<in> set (grants_of (lr_Credential r))"
    if "record_ok s r" "granted_record r"
    using that newServer_creds [OF assms(3)] by (fastforce simp: record_ok_def)
  ultimately show ?thesis
    using assms(4) ValidString_ascii [OF assms(5)]
    by (auto simp: record_log_ok_def broker_record_def record_ok_def new_record_def request_ok_def granted_record_def)
qed

lemma size_filter_records: "size (filter_mset P (mset xs)) = length (filter P xs)"
  by (simp flip: mset_filter)

section \<open>Properties\<close>

text \<open>
  C27: the session audit record states what the broker released. For a session of at most 24 hours
  whose log did not fail, folding the bytes of the request log gives status \<open>complete\<close>, no
  malformed and no truncated line, and the number of grants and of refusals that the broker
  recorded; the responses that released a value are at most the reported grants. The formatted
  time is at most 35 ASCII characters and parses back.
\<close>

theorem ledger_reports_releases:
  assumes "newServer uid config = Inr s" "sys_reaches format s t0 y" "rateWindow \<le> t0"
    "sy_clock y \<le> t0 + 24 * 60 * rateWindow" "\<not> sv_logFailed (sy_server y)"
    "\<And>t. parses (format t)" "\<And>t. list_all (\<lambda>c. byte c < 0x80) (format t)" "\<And>t. length (format t) \<le> 35"
  shows "LedgerAuditRecords parses (log_bytes (sy_server y)) =
      Some [''credential_broker_summary status=complete granted='' @ dec (grants_in (sv_records (sy_server y)))
        @ '' denied='' @ dec (denials_in (sv_records (sy_server y))) @ '' malformed_lines=0''] \<and>
    size (released (sy_sent y)) \<le> grants_in (sv_records (sy_server y))"
proof -
  let ?rs = "sv_records (sy_server y)"
  note fresh = newServer_fresh [OF assms(1)]
  have inv: "sys_inv s y" and linv: "log_inv format y" and rinv: "rate_inv t0 y"
    using reaches_inv reaches_log reaches_rate assms(1-3) fresh by blast+
  have "list_all (broker_record parses) ?rs"
    using reaches_broker_record [of s y format uid config parses] inv linv assms(1,6,7)
    by (simp add: list_all_iff)
  moreover have "list_all (\<lambda>r. length (json_object (record_members r)) < maxLedgerLineBytes) ?rs"
    using length_record_object [of format _ s] inv linv newServer_creds [OF assms(1)] assms(8)
    by (simp add: list_all_iff sys_inv_def log_inv_def)
  moreover have "length ?rs \<le> maxLedgerRecords"
    using rate_inv_day [OF rinv assms(4)] by (simp add: maxLedgerRecords_def)
  ultimately have "LedgerAuditRecords parses (concat (map record_line ?rs)) =
      Some [''credential_broker_summary status=complete granted='' @ dec (grants_in ?rs)
        @ '' denied='' @ dec (denials_in ?rs) @ '' malformed_lines=0'']"
    by (simp add: LedgerAuditRecords_def scan_lines_records ledger_fold_records ledger_summary_def dec_small)
  moreover have "log_bytes (sy_server y) = concat (map record_line ?rs)"
    using inv assms(5) by (simp add: sys_inv_def log_bytes_def)
  moreover have "released (sy_sent y) \<subseteq># recorded ?rs"
    using inv unfolding sys_inv_def by (metis mset_subset_eq_add_left subset_mset.order_trans)
  then have "size (released (sy_sent y)) \<le> grants_in ?rs"
    using size_mset_mono [of "released (sy_sent y)" "recorded ?rs"] by (simp add: recorded_def size_filter_records)
  ultimately show ?thesis by simp
qed

theorem ledger_reports_releases_witness:
  "LedgerAuditRecords (\<lambda>t. t = sample_time 0) (log_bytes (sy_server sample_run)) =
     Some [''credential_broker_summary status=complete granted=1 denied=0 malformed_lines=0''] \<and>
   size (released (sy_sent sample_run)) \<le> 1"
proof -
  have s: "newServer 501 sample_config = Inr sample_server" by (rule sample_newServer)
  have c: "rateWindow \<le> sample_t0" "sy_clock sample_run \<le> sample_t0 + 24 * 60 * rateWindow"
    "\<not> sv_logFailed (sy_server sample_run)"
    by code_simp+
  have t: "sample_time t = sample_time 0" "list_all (\<lambda>c. byte c < 0x80) (sample_time t)"
    "length (sample_time t) \<le> 35" for t by (simp_all add: sample_time_def)
  have n: "grants_in (sv_records (sy_server sample_run)) = 1" "denials_in (sv_records (sy_server sample_run)) = 0"
    by code_simp+
  show ?thesis
    using ledger_reports_releases [OF s sample_run_reaches c, of "\<lambda>t. t = sample_time 0", OF t] n by (simp add: dec_small)
qed

text \<open>
  The reader of the ledger trusts nothing. A line that it counts as a grant is one JSON object
  with the ledger's fields, each of them once, that names a credential and one of the pairs of
  host and header that the grant table gives to it; a line it counts as a refusal names no
  credential.
\<close>

theorem parseLedgerLine_strict:
  assumes "parseLedgerLine parses line = Some r"
  shows "uniqueObjectKeys line \<and> parses (lr_Time r) \<and>
    (\<exists>st. decode_struct True record_fields line = Some (st, []) \<and> r = record_of st) \<and>
    (if granted_record r
     then \<lparr>g_host = lr_Host r, g_header = lr_Header r\<rparr> \<in> set (grants_of (lr_Credential r)) \<and> Brokers (lr_Credential r)
     else lr_Result r \<in> set deniedResults \<and> lr_Credential r = [])"
proof -
  obtain st where st: "decode_struct True record_fields line = Some (st, [])" "uniqueObjectKeys line"
      "parses (lr_Time (record_of st))" "r = record_of st"
    using assms by (auto simp: parseLedgerLine_def Let_def split: if_splits option.splits)
  have "g \<in> set (grants_of key) \<Longrightarrow> Brokers key" for g key
    by (cases "map_of grants key") (simp_all add: grants_of_def Brokers_def)
  then show ?thesis
    using assms st by (auto simp: parseLedgerLine_def granted_record_def Let_def split: if_splits)
qed

theorem parseLedgerLine_strict_witness:
  "uniqueObjectKeys (json_object (record_members sample_record)) \<and> Brokers ''codex_auth''"
proof -
  have "parseLedgerLine (\<lambda>_. True) (json_object (record_members sample_record)) = Some sample_record"
    by code_simp
  from parseLedgerLine_strict [OF this] show ?thesis
    by (simp add: sample_record_def new_record_def granted_record_def)
qed

end
