(* ===== verification/Egress_Proxy.thy ===== *)
theory Egress_Proxy
  imports Egress_Allowlist Go_Runes "HOL-Library.AList"
begin

text \<open>
  The egress proxy's decision about one connection (\<open>src/internal/egressproxy/proxy.go\<close>): which
  addresses it refuses, how it routes a connection, and what it dials; and the upstream dial of a terminated
  connection (\<open>Terminate\<close> in \<open>terminate.go\<close>). The resolver, the TLS
  stack that reads the server name, the clock and the outcome of a dial are inputs.
\<close>

section \<open>Blocked addresses\<close>

definition publicIPv6 :: Prefix where
  "publicIPv6 = P6 0x20000000000000000000000000000000 3"

definition blockedPrefixes :: "Prefix list" where
  "blockedPrefixes =
     [P4 0x00000000 8, P4 0x64400000 10, P4 0xC0000000 24,
      P6 0x20010000000000000000000000000000 23, P6 0x20020000000000000000000000000000 16,
      P4 0xC0000200 24, P4 0xC0586300 24, P4 0xC6120000 15, P4 0xC6336400 24, P4 0xCB007100 24,
      P4 0xF0000000 4, P6 0x20010DB8000000000000000000000000 32, P6 0x3FFF0000000000000000000000000000 20]"

definition blockedAddr :: "Addr \<Rightarrow> bool" where
  "blockedAddr addr =
     (let a = Unmap addr in
      if \<not> IsGlobalUnicast a \<or> IsPrivate a then True
      else if Is6 a \<and> \<not> prefix_Contains publicIPv6 a then True
      else list_ex (\<lambda>p. prefix_Contains p a) blockedPrefixes)"

section \<open>Routing\<close>

text \<open>\<open>strings.ToLower\<close>; \<open>lower\<close> is \<open>unicode.ToLower\<close> outside ASCII.\<close>

definition ToLower :: "(rune \<Rightarrow> rune) \<Rightarrow> string \<Rightarrow> string" where
  "ToLower lower s =
     (if list_all (\<lambda>c. byte c < 0x80) s then map lower_ascii s
      else concat (map (\<lambda>r. if r < 0x80 then [lower_ascii (char_of r)] else EncodeRune (lower r)) (runes s)))"

text \<open>
  \<open>route\<close>: the host and the bytes to replay, or the host to log and the reason of the denial.
  \<open>peek\<close> is what \<open>peekSNI\<close> found: the server name and the bytes it read.
\<close>

definition route ::
  "(rune \<Rightarrow> rune) \<Rightarrow> Allowlist \<Rightarrow> (string \<times> string) option \<Rightarrow> nat \<Rightarrow> (string \<times> string, string \<times> string) result"
where
  "route lower allow peek port =
     (if port \<noteq> tlsPort then
        (case map_of (al_forward allow) port of
           None \<Rightarrow> Inl ([], ''port_not_allowed'')
         | Some host \<Rightarrow> Inr (host, []))
      else case peek of
        None \<Rightarrow> Inl ([], ''no_sni'')
      | Some (sni, replay) \<Rightarrow>
          (let l = ToLower lower sni in
           if length l \<noteq> length sni \<or> l \<notin> set (al_sni allow) then Inl (sni, ''sni_not_allowed'')
           else Inr (l, replay)))"

text \<open>
  \<open>peekSNI\<close> on a parsed ClientHello: its extension types and its server name. Nothing is
  returned for an encrypted hello or an empty name.
\<close>

definition extECH :: nat where "extECH = 0xFE0D"

definition peekSNI :: "(nat list \<times> string) option \<Rightarrow> string \<Rightarrow> (string \<times> string) option" where
  "peekSNI hello read =
     (case hello of None \<Rightarrow> None
      | Some (extensions, name) \<Rightarrow>
          if extECH \<in> set extensions \<or> name = [] then None else Some (name, read))"

text \<open>What the recording connection lets through: never more than \<open>maxHelloBytes\<close>.\<close>

definition maxHelloBytes :: nat where "maxHelloBytes = 2 ^ 17"

definition recording_Read :: "string \<Rightarrow> nat \<Rightarrow> string \<Rightarrow> string option \<times> string" where
  "recording_Read buf want available =
     (if maxHelloBytes \<le> length buf then (None, buf)
      else (let b = take (min want (maxHelloBytes - length buf)) available in (Some b, buf @ b)))"

section \<open>Connecting\<close>

definition dialTimeout :: int where "dialTimeout = 10 * 1000000000"

text \<open>
  The dial loop from address \<open>i\<close> of \<open>n\<close>: \<open>remaining i\<close> is the budget left before attempt \<open>i\<close> (Go's
  division truncates; a share of zero or less ends the loop), \<open>dial\<close> whether a dial succeeds.
\<close>

fun dial_loop :: "(nat \<Rightarrow> int) \<Rightarrow> (int \<Rightarrow> Addr \<Rightarrow> nat \<Rightarrow> bool) \<Rightarrow> nat \<Rightarrow> nat \<Rightarrow> nat \<Rightarrow> Addr list \<Rightarrow> Addr option" where
  "dial_loop remaining dial port n i [] = None"
| "dial_loop remaining dial port n i (a # as) =
     (let share = min dialTimeout (remaining i div int (n - i)) in
      if share \<le> 0 then None
      else if dial share (Unmap a) port then Some (Unmap a)
      else dial_loop remaining dial port n (Suc i) as)"

definition connect ::
  "(string \<Rightarrow> Addr list option) \<Rightarrow> (nat \<Rightarrow> int) \<Rightarrow> (int \<Rightarrow> Addr \<Rightarrow> nat \<Rightarrow> bool) \<Rightarrow> string \<Rightarrow> nat \<Rightarrow> (string, Addr) result"
where
  "connect lookup remaining dial host port =
     (case lookup (host @ ''.'') of
        None \<Rightarrow> Inl ''resolve_failed''
      | Some addrs \<Rightarrow>
          if addrs = [] then Inl ''resolve_failed''
          else if list_ex blockedAddr addrs then Inl ''blocked_address''
          else case dial_loop remaining dial port (length addrs) 0 addrs of
            None \<Rightarrow> Inl ''dial_failed''
          | Some a \<Rightarrow> Inr a)"

text \<open>
  \<open>handle\<close>: the outcome of one connection. \<open>terminate\<close> are the hosts with termination rules.
\<close>

datatype outcome =
    Denied string string
  | Terminated string string
  | Spliced string Addr string

definition handle ::
  "(rune \<Rightarrow> rune) \<Rightarrow> Allowlist \<Rightarrow> string list \<Rightarrow> (string \<Rightarrow> Addr list option) \<Rightarrow> (nat \<Rightarrow> int) \<Rightarrow>
   (int \<Rightarrow> Addr \<Rightarrow> nat \<Rightarrow> bool) \<Rightarrow> (string \<times> string) option \<Rightarrow> nat \<Rightarrow> outcome" where
  "handle lower allow terminate lookup remaining dial peek port =
     (case route lower allow peek port of
        Inl (host, reason) \<Rightarrow> Denied host reason
      | Inr (host, replay) \<Rightarrow>
          if host \<in> set terminate \<and> port = tlsPort then Terminated host replay
          else case connect lookup remaining dial host port of
            Inl reason \<Rightarrow> Denied host reason
          | Inr a \<Rightarrow> Spliced host a replay)"

section \<open>The upstream dial of a terminated connection\<close>

record TerminateRule =
  tr_Host :: string
  tr_Header :: string
  tr_Placeholder :: string

datatype terminate_error = NotAllowlisted string | RepeatedHeader string string

text \<open>The loop of \<open>Terminate\<close>: \<open>seen\<close> are the keys of host and header so far, \<open>hosts\<close> is the map from a host to its rules.\<close>

fun terminate_rules ::
  "(rune \<Rightarrow> rune) \<Rightarrow> Allowlist \<Rightarrow> string list \<Rightarrow> (string \<times> TerminateRule list) list \<Rightarrow> TerminateRule list \<Rightarrow>
   (terminate_error, (string \<times> TerminateRule list) list) result" where
  "terminate_rules lower allow seen hosts [] = Inr hosts"
| "terminate_rules lower allow seen hosts (r # rules) =
     (if tr_Host r \<notin> set (al_sni allow) then Inl (NotAllowlisted (tr_Host r))
      else
        (let r = r\<lparr>tr_Header := ToLower lower (tr_Header r)\<rparr>; key = tr_Host r @ '' '' @ tr_Header r in
         if key \<in> set seen then Inl (RepeatedHeader (tr_Host r) (tr_Header r))
         else terminate_rules lower allow (key # seen)
                (AList.update (tr_Host r) ((case map_of hosts (tr_Host r) of None \<Rightarrow> [] | Some rs \<Rightarrow> rs) @ [r]) hosts) rules))"

definition Terminate ::
  "(rune \<Rightarrow> rune) \<Rightarrow> Allowlist \<Rightarrow> TerminateRule list \<Rightarrow> (terminate_error, (string \<times> TerminateRule list) list) result" where
  "Terminate lower allow rules = terminate_rules lower allow [] [] rules"

datatype dial_error = BadDialAddress | NotTerminateHost string | DialDenied string string

text \<open>\<open>DialContext\<close> of the transport: it connects on port 443 whatever port the address has.\<close>

definition DialContext ::
  "(string \<times> TerminateRule list) list \<Rightarrow> (string \<Rightarrow> Addr list option) \<Rightarrow> (nat \<Rightarrow> int) \<Rightarrow>
   (int \<Rightarrow> Addr \<Rightarrow> nat \<Rightarrow> bool) \<Rightarrow> string \<Rightarrow> (dial_error, Addr) result" where
  "DialContext hosts lookup remaining dial addr =
     (case SplitHostPort addr of
        None \<Rightarrow> Inl BadDialAddress
      | Some (host, _) \<Rightarrow>
          if map_of hosts host = None then Inl (NotTerminateHost host)
          else case connect lookup remaining dial host tlsPort of
            Inl reason \<Rightarrow> Inl (DialDenied host reason)
          | Inr a \<Rightarrow> Inr a)"

section \<open>The special address blocks\<close>

text \<open>
  The reference: the blocks an agent must not reach, as intervals of the 32-bit number. The
  names are those of the IANA registries.
\<close>

definition special4 :: "(nat \<times> nat) list" where
  "special4 =
     [(0x00000000, 0x00FFFFFF), (0x0A000000, 0x0AFFFFFF), (0x64400000, 0x647FFFFF),
      (0x7F000000, 0x7FFFFFFF), (0xA9FE0000, 0xA9FEFFFF), (0xAC100000, 0xAC1FFFFF),
      (0xC0000000, 0xC00000FF), (0xC0000200, 0xC00002FF), (0xC0586300, 0xC05863FF),
      (0xC0A80000, 0xC0A8FFFF), (0xC6120000, 0xC613FFFF), (0xC6336400, 0xC63364FF),
      (0xCB007100, 0xCB0071FF), (0xE0000000, 0xEFFFFFFF), (0xF0000000, 0xFFFFFFFF)]"

text \<open>The public part of IPv6 is \<open>2000::/3\<close> without these blocks.\<close>

definition special6 :: "(nat \<times> nat) list" where
  "special6 =
     [(0x20010000000000000000000000000000, 0x200101FFFFFFFFFFFFFFFFFFFFFFFFFF),
      (0x20010DB8000000000000000000000000, 0x20010DB8FFFFFFFFFFFFFFFFFFFFFFFF),
      (0x20020000000000000000000000000000, 0x2002FFFFFFFFFFFFFFFFFFFFFFFFFFFF),
      (0x3FFF0000000000000000000000000000, 0x3FFF0FFFFFFFFFFFFFFFFFFFFFFFFFFF)]"

definition within :: "(nat \<times> nat) list \<Rightarrow> nat \<Rightarrow> bool" where
  "within blocks n \<longleftrightarrow> list_ex (\<lambda>(lo, hi). lo \<le> n \<and> n \<le> hi) blocks"

fun public :: "Addr \<Rightarrow> bool" where
  "public NoAddr \<longleftrightarrow> False"
| "public (V4 a) \<longleftrightarrow> \<not> within special4 (unat a)"
| "public (V6 a zone) \<longleftrightarrow>
     (if 0xFFFF00000000 \<le> unat a \<and> unat a \<le> 0xFFFFFFFFFFFF
      then \<not> within special4 (unat a - 0xFFFF00000000)
      else zone = [] \<and> 0x20000000000000000000000000000000 \<le> unat a \<and>
        unat a \<le> 0x3FFFFFFFFFFFFFFFFFFFFFFFFFFFFFFF \<and> \<not> within special6 (unat a))"

lemma in_prefix_iff:
  fixes a p :: "'a :: len word"
  shows "in_prefix bits p a \<longleftrightarrow>
    unat p div 2 ^ (LENGTH('a) - bits) * 2 ^ (LENGTH('a) - bits) \<le> unat a \<and>
    unat a < (unat p div 2 ^ (LENGTH('a) - bits) + 1) * 2 ^ (LENGTH('a) - bits)"
  by (simp only: in_prefix_def drop_bit_eq_iff [of _ a] unat_drop_bit_eq drop_bit_eq_div [where 'a = nat])

lemma prefixes4:
  fixes a :: "32 word"
  shows "in_prefix 8 0 a \<longleftrightarrow> unat a \<le> 0x00FFFFFF"
    "in_prefix 10 0x64400000 a \<longleftrightarrow> 0x64400000 \<le> unat a \<and> unat a \<le> 0x647FFFFF"
    "in_prefix 24 0xC0000000 a \<longleftrightarrow> 0xC0000000 \<le> unat a \<and> unat a \<le> 0xC00000FF"
    "in_prefix 24 0xC0000200 a \<longleftrightarrow> 0xC0000200 \<le> unat a \<and> unat a \<le> 0xC00002FF"
    "in_prefix 24 0xC0586300 a \<longleftrightarrow> 0xC0586300 \<le> unat a \<and> unat a \<le> 0xC05863FF"
    "in_prefix 15 0xC6120000 a \<longleftrightarrow> 0xC6120000 \<le> unat a \<and> unat a \<le> 0xC613FFFF"
    "in_prefix 24 0xC6336400 a \<longleftrightarrow> 0xC6336400 \<le> unat a \<and> unat a \<le> 0xC63364FF"
    "in_prefix 24 0xCB007100 a \<longleftrightarrow> 0xCB007100 \<le> unat a \<and> unat a \<le> 0xCB0071FF"
    "in_prefix 4 0xF0000000 a \<longleftrightarrow> 0xF0000000 \<le> unat a"
  using unsigned_less [of a, where ?'a = nat] by (auto simp: in_prefix_iff)

lemma classes4:
  fixes a :: "32 word"
  shows "drop_bit 24 a = 127 \<longleftrightarrow> 0x7F000000 \<le> unat a \<and> unat a \<le> 0x7FFFFFFF"
    "drop_bit 28 a = 0xE \<longleftrightarrow> 0xE0000000 \<le> unat a \<and> unat a \<le> 0xEFFFFFFF"
    "drop_bit 16 a = 0xA9FE \<longleftrightarrow> 0xA9FE0000 \<le> unat a \<and> unat a \<le> 0xA9FEFFFF"
    "drop_bit 24 a = 10 \<longleftrightarrow> 0x0A000000 \<le> unat a \<and> unat a \<le> 0x0AFFFFFF"
    "drop_bit 20 a = 0xAC1 \<longleftrightarrow> 0xAC100000 \<le> unat a \<and> unat a \<le> 0xAC1FFFFF"
    "drop_bit 16 a = 0xC0A8 \<longleftrightarrow> 0xC0A80000 \<le> unat a \<and> unat a \<le> 0xC0A8FFFF"
  unfolding drop_bit_eq_iff by (simp_all, linarith+)


lemma blocked4: "blockedAddr (V4 a) \<longleftrightarrow> within special4 (unat a)"
proof -
  have top: "unat a \<le> 0xFFFFFFFF" using unsigned_less [of a, where ?'a = nat] by simp
  have ends: "a = 0 \<Longrightarrow> unat a \<le> 0x00FFFFFF" "a = 0xFFFFFFFF \<Longrightarrow> 0xF0000000 \<le> unat a" by simp_all
  show ?thesis
    unfolding blockedAddr_def IsGlobalUnicast_def blockedPrefixes_def within_def special4_def Let_def
    using top ends by (simp del: not_le not_less add: prefixes4 classes4) argo
qed

lemma prefixes6:
  fixes a :: "128 word"
  shows "in_prefix 3 0x20000000000000000000000000000000 a \<longleftrightarrow>
      0x20000000000000000000000000000000 \<le> unat a \<and> unat a \<le> 0x3FFFFFFFFFFFFFFFFFFFFFFFFFFFFFFF"
    "in_prefix 23 0x20010000000000000000000000000000 a \<longleftrightarrow>
      0x20010000000000000000000000000000 \<le> unat a \<and> unat a \<le> 0x200101FFFFFFFFFFFFFFFFFFFFFFFFFF"
    "in_prefix 16 0x20020000000000000000000000000000 a \<longleftrightarrow>
      0x20020000000000000000000000000000 \<le> unat a \<and> unat a \<le> 0x2002FFFFFFFFFFFFFFFFFFFFFFFFFFFF"
    "in_prefix 32 0x20010DB8000000000000000000000000 a \<longleftrightarrow>
      0x20010DB8000000000000000000000000 \<le> unat a \<and> unat a \<le> 0x20010DB8FFFFFFFFFFFFFFFFFFFFFFFF"
    "in_prefix 20 0x3FFF0000000000000000000000000000 a \<longleftrightarrow>
      0x3FFF0000000000000000000000000000 \<le> unat a \<and> unat a \<le> 0x3FFF0FFFFFFFFFFFFFFFFFFFFFFFFFFF"
  by (simp_all add: in_prefix_iff, linarith+)

lemma classes6:
  fixes a :: "128 word"
  shows "drop_bit 32 a = 0xFFFF \<longleftrightarrow> 0xFFFF00000000 \<le> unat a \<and> unat a \<le> 0xFFFFFFFFFFFF"
    "drop_bit 120 a = 0xFF \<longleftrightarrow>
      0xFF000000000000000000000000000000 \<le> unat a \<and> unat a \<le> 0xFFFFFFFFFFFFFFFFFFFFFFFFFFFFFFFF"
    "drop_bit 118 a = 0x3FA \<longleftrightarrow>
      0xFE800000000000000000000000000000 \<le> unat a \<and> unat a \<le> 0xFEBFFFFFFFFFFFFFFFFFFFFFFFFFFFFF"
    "drop_bit 121 a = 0x7E \<longleftrightarrow>
      0xFC000000000000000000000000000000 \<le> unat a \<and> unat a \<le> 0xFDFFFFFFFFFFFFFFFFFFFFFFFFFFFFFF"
  unfolding drop_bit_eq_iff by (simp_all, linarith+)

lemma unat_ucast_mapped:
  fixes a :: "128 word"
  assumes "0xFFFF00000000 \<le> unat a" "unat a \<le> 0xFFFFFFFFFFFF"
  shows "unat (ucast a :: 32 word) = unat a - 0xFFFF00000000"
proof -
  obtain k where k: "unat a = 0xFFFF * 2 ^ 32 + k" "k < 2 ^ 32"
    using assms le_Suc_ex [of "0xFFFF00000000" "unat a"] by auto
  have "(0xFFFF * 2 ^ 32 + k) mod 2 ^ 32 = k" using k(2) by (metis mod_less mod_mult_self3)
  then show ?thesis using k by (simp add: unsigned_ucast_eq take_bit_eq_mod)
qed

lemma blocked_public: "blockedAddr a \<longleftrightarrow> \<not> public a"
proof (cases a)
  case NoAddr
  then show ?thesis by (simp add: blockedAddr_def IsGlobalUnicast_def)
next
  case (V4 w)
  then show ?thesis by (simp add: blocked4)
next
  case (V6 w zone)
  show ?thesis
  proof (cases "drop_bit 32 w = 0xFFFF")
    case True
    then have m: "0xFFFF00000000 \<le> unat w" "unat w \<le> 0xFFFFFFFFFFFF" by (simp_all add: classes6)
    have "blockedAddr a = blockedAddr (V4 (ucast w))" using True V6 by (simp add: blockedAddr_def)
    then show ?thesis using V6 m by (simp add: blocked4 unat_ucast_mapped)
  next
    case False
    have out: "w = 0 \<Longrightarrow> unat w < 0x20000000000000000000000000000000"
      "w = 1 \<Longrightarrow> unat w < 0x20000000000000000000000000000000" by simp_all
    have nm: "\<not> (0xFFFF00000000 \<le> unat w \<and> unat w \<le> 0xFFFFFFFFFFFF)" using False by (simp add: classes6)
    show ?thesis
    proof (cases "zone = [] \<and> 0x20000000000000000000000000000000 \<le> unat w \<and> unat w \<le> 0x3FFFFFFFFFFFFFFFFFFFFFFFFFFFFFFF")
      case True
      then have "w \<noteq> 0" "w \<noteq> 1" using out by auto
      then have "IsGlobalUnicast a \<and> \<not> IsPrivate a" "prefix_Contains publicIPv6 a" "Unmap a = a"
        using True V6 False by (simp_all add: IsGlobalUnicast_def publicIPv6_def prefixes6 classes6)
      then show ?thesis
        using True V6 nm by (simp add: blockedAddr_def blockedPrefixes_def prefixes6 within_def special6_def) blast
    next
      case no: False
      have "\<not> public a" using no V6 nm by auto
      moreover have "blockedAddr a"
        using no V6 False by (auto simp: blockedAddr_def publicIPv6_def prefixes6)
      ultimately show ?thesis by simp
    qed
  qed
qed

section \<open>Exact names\<close>

lemma length_EncodeRune: "length (EncodeRune r) = 1 \<longleftrightarrow> r < 0x80"
  by (simp add: EncodeRune_def)

lemma EncodeRune_ascii_iff:
  assumes "list_all (\<lambda>c. byte c < 0x80) (EncodeRune r)"
  shows "r < 0x80"
proof (rule ccontr)
  assume high: "\<not> r < 0x80"
  show False
  proof (cases "ValidRune r")
    case True
    then show ?thesis using EncodeRune_high [OF True, of "hd (EncodeRune r)"] high assms
      by (cases "EncodeRune r") auto
  next
    case False
    then have "EncodeRune r = [char_of (0xEF::nat), char_of (0xBF::nat), char_of (0xBD::nat)]"
      by (auto simp: EncodeRune_def ValidRune_def)
    then show ?thesis using assms by simp
  qed
qed

lemma of_runes_no_error: "RuneError \<notin> set (runes s) \<Longrightarrow> of_runes (runes s) = s"
proof (induction s rule: runes.induct)
  case (2 a t)
  obtain r n where rn: "DecodeRune (a # t) = (r, n)" by fastforce
  then have "EncodeRune r = take n (a # t)" using EncodeRune_DecodeRune [OF rn] 2(2) by auto
  then show ?case using 2 rn by (simp del: take_Suc_Cons)
qed simp

lemma sum_list_ge: "(\<And>x. 1 \<le> f x) \<Longrightarrow> length xs \<le> sum_list (map (f :: 'a \<Rightarrow> nat) xs)"
proof (induction xs)
  case (Cons x xs)
  have "1 \<le> f x" "length xs \<le> sum_list (map f xs)" using Cons.IH Cons.prems by simp_all
  then show ?case by simp
qed simp

lemma sum_list_ones: "sum_list (map (f :: 'a \<Rightarrow> nat) xs) = length xs \<Longrightarrow> (\<And>x. 1 \<le> f x) \<Longrightarrow> list_all (\<lambda>x. f x = 1) xs"
proof (induction xs)
  case (Cons x xs)
  have "length xs \<le> sum_list (map f xs)" by (rule sum_list_ge [OF Cons.prems(2)])
  then have "f x = 1" "sum_list (map f xs) = length xs" using Cons.prems(1) Cons.prems(2) [of x] by simp_all
  then show ?case using Cons.IH [OF _ Cons.prems(2)] by simp
qed simp

text \<open>A name whose lower case is ASCII and has its length is ASCII itself.\<close>

lemma ToLower_exact:
  assumes "list_all (\<lambda>c. byte c < 0x80) (ToLower lower s)" "length (ToLower lower s) = length s"
    "lower RuneError = RuneError"
  shows "list_all (\<lambda>c. byte c < 0x80) s"
proof (rule ccontr)
  assume non: "\<not> list_all (\<lambda>c. byte c < 0x80) s"
  let ?f = "\<lambda>r. if r < 0x80 then [lower_ascii (char_of r)] else EncodeRune (lower r)"
  have l: "ToLower lower s = concat (map ?f (runes s))" using non by (simp add: ToLower_def)
  have one: "length (?f r) = 1" and noerr: "r \<noteq> RuneError" if "r \<in> set (runes s)" for r
  proof -
    have asc: "list_all (\<lambda>c. byte c < 0x80) (?f r)" using assms(1) that unfolding l list_all_iff set_concat set_map by blast
    have low: "lower r < 0x80" if "\<not> r < 0x80"
      using asc that by (intro EncodeRune_ascii_iff) (simp only: if_False)
    show "length (?f r) = 1" using low by (cases "r < 0x80") simp_all
    show "r \<noteq> RuneError" using low assms(3) by auto
  qed
  have "length (concat (map ?f rs)) = length rs" if "set rs \<subseteq> set (runes s)" for rs
    using that one by (induction rs) auto
  then have "length s = length (runes s)" using assms(2) l by simp
  moreover have "of_runes (runes s) = s" using noerr by (intro of_runes_no_error) blast
  then have "length s = sum_list (map (length \<circ> EncodeRune) (runes s))"
    by (metis length_concat map_map of_runes_def)
  ultimately have "list_all (\<lambda>r. (length \<circ> EncodeRune) r = 1) (runes s)"
    by (intro sum_list_ones) (simp only:, simp add: Suc_le_eq)
  then have "list_all (\<lambda>r. r < 0x80) (runes s)" by (simp only: o_apply length_EncodeRune)
  then have "list_all (\<lambda>c. byte c < 0x80) (of_runes (runes s))" by (auto simp: list_all_iff of_runes_def)
  then show False using non \<open>of_runes (runes s) = s\<close> by simp
qed

lemma route_admits:
  assumes "route lower allow peek port = Inr (host, replay)" "lower RuneError = RuneError"
    "\<forall>h p. admits allow h p \<longrightarrow> host_ok h"
  shows "admits allow host port \<and>
    (port = tlsPort \<longrightarrow> (\<exists>sni. peek = Some (sni, replay) \<and> map lower_ascii sni = host \<and> list_all (\<lambda>c. byte c < 0x80) sni))"
proof (cases "port = tlsPort")
  case True
  then obtain sni where sni: "peek = Some (sni, replay)" "host = ToLower lower sni" "length host = length sni"
      "host \<in> set (al_sni allow)"
    using assms(1) by (auto simp: route_def Let_def split: option.splits if_splits)
  then have ad: "admits allow host port" using True by (simp add: admits_def)
  then have "list_all (\<lambda>c. byte c < 0x80) (ToLower lower sni)"
    using assms(3) sni(2) by (auto simp: host_ok_def list_all_iff)
  then have "list_all (\<lambda>c. byte c < 0x80) sni" using ToLower_exact assms(2) sni by blast
  then show ?thesis using sni ad by (simp add: ToLower_def)
next
  case False
  then show ?thesis using assms(1) by (auto simp: route_def admits_def split: option.splits)
qed

lemma dial_loop_mem: "dial_loop remaining dial port n i as = Some a \<Longrightarrow> \<exists>b\<in>set as. a = Unmap b"
  by (induction remaining dial port n i as rule: dial_loop.induct) (auto simp: Let_def split: if_splits)

text \<open>The address is one that the resolver gave for the host itself, and every address it gave is public.\<close>

definition resolved_public :: "(string \<Rightarrow> Addr list option) \<Rightarrow> string \<Rightarrow> Addr \<Rightarrow> bool" where
  "resolved_public lookup host a \<longleftrightarrow>
     (\<exists>addrs b. lookup (host @ ''.'') = Some addrs \<and> b \<in> set addrs \<and> a = Unmap b \<and> list_all public addrs)"

lemma terminate_rules_hosts:
  "terminate_rules lower allow seen hosts rules = Inr hosts' \<Longrightarrow> fst ` set hosts \<subseteq> set (al_sni allow) \<Longrightarrow>
   fst ` set hosts' \<subseteq> set (al_sni allow)"
  by (induction rules arbitrary: seen hosts) (auto simp: Let_def dom_update split: if_splits)

lemma Terminate_hosts: "Terminate lower allow rules = Inr hosts \<Longrightarrow> map_of hosts host = Some rs \<Longrightarrow> host \<in> set (al_sni allow)"
  using terminate_rules_hosts [of lower allow "[]" "[]"] map_of_SomeD by (fastforce simp: Terminate_def)

lemma connect_public:
  assumes "connect lookup remaining dial host port = Inr a"
  shows "resolved_public lookup host a"
  using assms dial_loop_mem
  by (fastforce simp: resolved_public_def connect_def list_ex_iff list_all_iff blocked_public split: option.splits if_splits)

section \<open>Properties\<close>

text \<open>
  C28: the address filter is exact. The proxy refuses an address exactly when it is in one of the
  special blocks: for IPv4 the fifteen blocks of \<open>special4\<close> (loopback, private, link-local with
  the metadata service, shared, documentation, multicast, reserved), also when it is written as
  an IPv4-mapped IPv6 address; for IPv6 everything outside \<open>2000::/3\<close>, the blocks of \<open>special6\<close>, and
  an address with a zone.
\<close>

theorem blockedAddr_exact: "blockedAddr a \<longleftrightarrow> \<not> public a"
  by (rule blocked_public)

text \<open>
  C25: the proxy reaches only allowlisted hosts at public addresses. Whatever a client sends and
  whatever the resolver answers: when the proxy splices a connection to an upstream address on a port, an entry of the
  allowlist names that host and port, and on port 443 the client's server name is that host up to
  ASCII case, so no Unicode folding passes; and when it dials upstream for a terminated connection, the host it
  dials is allowlisted on port 443. In both cases the address is one the resolver gave for the host
  itself, and every address it gave is public.
\<close>

theorem egress_only_allowlisted:
  assumes "ParseAllowlist src = Inr allow" "lower RuneError = RuneError"
  shows "(\<forall>host a replay. handle lower allow terminate lookup remaining dial peek port = Spliced host a replay \<longrightarrow>
      (\<exists>e\<in>set (allow_entries src). parse_entry e = Inr (host, port)) \<and>
      (port = tlsPort \<longrightarrow> (\<exists>sni. peek = Some (sni, replay) \<and> map lower_ascii sni = host)) \<and>
      resolved_public lookup host a) \<and>
    (\<forall>hosts addr a. Terminate lower allow rules = Inr hosts \<longrightarrow> DialContext hosts lookup remaining dial addr = Inr a \<longrightarrow>
      (\<exists>host p. SplitHostPort addr = Some (host, p) \<and> (\<exists>e\<in>set (allow_entries src). parse_entry e = Inr (host, tlsPort)) \<and>
        resolved_public lookup host a))"
proof -
  note adm = allowlist_admits [OF assms(1)]
  have spliced: "(\<exists>e\<in>set (allow_entries src). parse_entry e = Inr (host, port)) \<and>
      (port = tlsPort \<longrightarrow> (\<exists>sni. peek = Some (sni, replay) \<and> map lower_ascii sni = host)) \<and> resolved_public lookup host a"
    if "handle lower allow terminate lookup remaining dial peek port = Spliced host a replay" for host a replay
  proof -
    have "route lower allow peek port = Inr (host, replay)" "connect lookup remaining dial host port = Inr a"
      using that by (auto simp: handle_def split: sum.splits if_splits)
    then show ?thesis
      using route_admits [of lower allow peek port host replay] assms(2) connect_public adm by blast
  qed
  have "\<exists>host p. SplitHostPort addr = Some (host, p) \<and> (\<exists>e\<in>set (allow_entries src). parse_entry e = Inr (host, tlsPort)) \<and>
      resolved_public lookup host a"
    if t: "Terminate lower allow rules = Inr hosts" and d: "DialContext hosts lookup remaining dial addr = Inr a" for hosts addr a
  proof -
    obtain host p rs where "SplitHostPort addr = Some (host, p)" "map_of hosts host = Some rs"
      "connect lookup remaining dial host tlsPort = Inr a"
      using d by (auto simp: DialContext_def split: option.splits if_splits sum.splits)
    moreover from Terminate_hosts [OF t this(2)] have "admits allow host tlsPort" by (simp add: admits_def)
    ultimately show ?thesis using connect_public adm by blast
  qed
  with spliced show ?thesis by blast
qed

definition sample_lookup :: "string \<Rightarrow> Addr list option" where
  "sample_lookup name = (if name = ''api.example.com.'' then Some [V4 0x08080808] else None)"

definition sample_rules :: "TerminateRule list" where
  "sample_rules = [\<lparr>tr_Host = ''api.example.com'', tr_Header = ''Authorization'', tr_Placeholder = ''wcph-0''\<rparr>]"

definition sample_hosts :: "(string \<times> TerminateRule list) list" where
  "sample_hosts = [(''api.example.com'', [\<lparr>tr_Host = ''api.example.com'', tr_Header = ''authorization'', tr_Placeholder = ''wcph-0''\<rparr>])]"

theorem egress_only_allowlisted_witness:
  "(\<exists>e\<in>set (allow_entries sample_allowlist). parse_entry e = Inr (''api.example.com'', tlsPort)) \<and>
   resolved_public sample_lookup ''api.example.com'' (V4 0x08080808) \<and>
   (\<exists>host p. SplitHostPort ''api.example.com:443'' = Some (host, p) \<and>
      (\<exists>e\<in>set (allow_entries sample_allowlist). parse_entry e = Inr (host, tlsPort)) \<and>
      resolved_public sample_lookup host (V4 0x08080808))"
proof -
  have s: "handle id sample_allow [] sample_lookup (\<lambda>_. 1000) (\<lambda>_ _ _. True) (Some (''Api.example.COM'', ''hello'')) tlsPort =
      Spliced ''api.example.com'' (V4 0x08080808) ''hello''"
    and t: "Terminate id sample_allow sample_rules = Inr sample_hosts"
    and d: "DialContext sample_hosts sample_lookup (\<lambda>_. 1000) (\<lambda>_ _ _. True) ''api.example.com:443'' = Inr (V4 0x08080808)"
    by code_simp+
  have "id RuneError = RuneError" by simp
  note E = egress_only_allowlisted [where lower = id, OF sample_allowlist_parses this]
  show ?thesis using E [THEN conjunct1, rule_format, OF s] E [THEN conjunct2, rule_format, OF t d] by simp
qed

end
