(* ===== verification/Egress_Denylog.thy ===== *)
theory Egress_Denylog
  imports Egress_Proxy Go_Json Go_Sort
begin

text \<open>
  The deny log of the egress proxy: \<open>deny\<close> writes one bounded line per denial
  (\<open>src/internal/egressproxy/proxy.go\<close>) and \<open>DenyAuditRecords\<close> folds the log into session audit
  records (\<open>src/internal/egressproxy/denylog.go\<close>). The reader's fold simulates the writer's state, so
  the summary counts every denial whose host is UTF-8 text; for other hosts it does not.
\<close>

section \<open>The writer\<close>

definition maxLogHost :: nat where "maxLogHost = 253"
definition maxDenyKeys :: nat where "maxDenyKeys = 4096"
definition overflowHost :: string where "overflowHost = ''(overflow)''"
definition overflowCause :: string where "overflowCause = ''key_limit''"

record denyKey =
  dk_host :: string
  dk_port :: nat
  dk_reason :: string

record denyLine =
  dl_Host :: string
  dl_Port :: nat
  dl_Reason :: string
  dl_Count :: nat
  dl_Seq :: nat

text \<open>
  The state under the proxy's mutex and the log that it has written. Counters are \<open>uint64\<close>: \<open>u64\<close>
  wraps them.
\<close>

definition u64 :: "nat \<Rightarrow> nat" where "u64 n = n mod 2 ^ 64"

record denier =
  de_counts :: "(denyKey \<times> nat) list"
  de_seq :: nat
  de_log :: string

definition new_denier :: denier where
  "new_denier = \<lparr>de_counts = [], de_seq = 0, de_log = []\<rparr>"

definition lookup_count :: "(denyKey \<times> nat) list \<Rightarrow> denyKey \<Rightarrow> nat" where
  "lookup_count m k = (case map_of m k of None \<Rightarrow> 0 | Some n \<Rightarrow> n)"

text \<open>An update keeps the place of a key that is there and adds a new one at the end.\<close>

fun set_count :: "denyKey \<Rightarrow> nat \<Rightarrow> (denyKey \<times> nat) list \<Rightarrow> (denyKey \<times> nat) list" where
  "set_count k n [] = [(k, n)]"
| "set_count k n ((k', m) # ms) = (if k' = k then (k, n) # ms else (k', m) # set_count k n ms)"

definition line_members :: "denyLine \<Rightarrow> (string \<times> jval) list" where
  "line_members d =
     [(''host'', JString (dl_Host d)), (''port'', JNumber (dec (dl_Port d))), (''reason'', JString (dl_Reason d)),
      (''count'', JNumber (dec (dl_Count d))), (''seq'', JNumber (dec (dl_Seq d)))]"

definition deny_key :: "string \<Rightarrow> nat \<Rightarrow> string \<Rightarrow> denier \<Rightarrow> denyKey" where
  "deny_key host port reason p =
     (let key = \<lparr>dk_host = take maxLogHost host, dk_port = port, dk_reason = reason\<rparr> in
      if map_of (de_counts p) key = None \<and> maxDenyKeys \<le> length (de_counts p)
      then \<lparr>dk_host = overflowHost, dk_port = 0, dk_reason = overflowCause\<rparr> else key)"

definition deny :: "string \<Rightarrow> nat \<Rightarrow> string \<Rightarrow> denier \<Rightarrow> denier" where
  "deny host port reason p =
     (let key = deny_key host port reason p;
          n = u64 (lookup_count (de_counts p) key + 1); sq = u64 (de_seq p + 1);
          d = \<lparr>dl_Host = dk_host key, dl_Port = dk_port key, dl_Reason = dk_reason key, dl_Count = n, dl_Seq = sq\<rparr> in
      \<lparr>de_counts = set_count key n (de_counts p), de_seq = sq,
       de_log = de_log p @ json_object (line_members d) @ [NL]\<rparr>)"

section \<open>The reader\<close>

definition maxDenyLineBytes :: nat where "maxDenyLineBytes = 4096"
definition maxAuditDenyKeys :: nat where "maxAuditDenyKeys = 32"
definition invalidHost :: string where "invalidHost = ''(invalid)''"

definition auditHost :: "string \<Rightarrow> bool" where
  "auditHost s \<longleftrightarrow> 1 \<le> length s \<and> length s \<le> 253 \<and> list_all (\<lambda>c. host_char c \<or> c = CHR ''_'') s"

definition auditReason :: "string \<Rightarrow> bool" where
  "auditReason s \<longleftrightarrow> 1 \<le> length s \<and> length s \<le> 32 \<and>
     list_all (\<lambda>c. 97 \<le> byte c \<and> byte c \<le> 122 \<or> c = CHR ''_'') s"

definition deny_fields :: "(string \<times> jkind) list" where
  "deny_fields = [(''host'', KString), (''port'', KUint 16), (''reason'', KString), (''count'', KUint 64),
     (''seq'', KUint 64)]"

definition parseDenyLine :: "string \<Rightarrow> denyLine option" where
  "parseDenyLine line =
     (if maxDenyLineBytes < length line then None
      else case decode_struct True deny_fields line of
        None \<Rightarrow> None
      | Some (st, rest) \<Rightarrow>
          (let d = \<lparr>dl_Host = js_str st ''host'', dl_Port = js_num st ''port'', dl_Reason = js_str st ''reason'',
                     dl_Count = js_num st ''count'', dl_Seq = js_num st ''seq''\<rparr>;
               overflow = (dl_Host d = overflowHost \<and> dl_Reason d = overflowCause) in
           if rest = [] \<and> (dl_Port d \<noteq> 0 \<or> overflow) \<and> dl_Count d \<noteq> 0 \<and> dl_Seq d \<noteq> 0 \<and>
              length (dl_Host d) \<le> maxLogHost \<and> auditReason (dl_Reason d)
           then Some d else None))"

record dfold =
  df_counts :: "(denyKey \<times> nat) list"
  df_malformed :: nat
  df_gap :: bool
  df_seq :: nat

definition line_key :: "denyLine \<Rightarrow> denyKey" where
  "line_key d = \<lparr>dk_host = dl_Host d, dk_port = dl_Port d, dk_reason = dl_Reason d\<rparr>"

definition fold_line :: "string \<Rightarrow> dfold \<Rightarrow> dfold" where
  "fold_line line f =
     (case parseDenyLine line of
        None \<Rightarrow> f\<lparr>df_malformed := Suc (df_malformed f)\<rparr>
      | Some d \<Rightarrow>
          (let key = line_key d in
           if map_of (df_counts f) key = None \<and> maxDenyKeys < length (df_counts f)
           then f\<lparr>df_malformed := Suc (df_malformed f)\<rparr>
           else
             (let sq = u64 (df_seq f + 1) in
              f\<lparr>df_counts := set_count key (max (lookup_count (df_counts f) key) (dl_Count d)) (df_counts f),
                df_seq := sq, df_gap := (df_gap f \<or> dl_Seq d \<noteq> sq)\<rparr>)))"

definition deny_log_lines :: "string \<Rightarrow> string list" where
  "deny_log_lines log = (let ls = split_on NL log in if last ls = [] then butlast ls else ls)"

definition fold_log :: "string \<Rightarrow> dfold" where
  "fold_log log = foldl (\<lambda>f l. fold_line l f) \<lparr>df_counts = [], df_malformed = 0, df_gap = False, df_seq = 0\<rparr>
     (deny_log_lines log)"

text \<open>The order of the records: the largest count first, then host, port and reason.\<close>

definition deny_before :: "denyKey \<times> nat \<Rightarrow> denyKey \<times> nat \<Rightarrow> bool" where
  "deny_before a b \<longleftrightarrow>
     (if snd a \<noteq> snd b then snd b < snd a
      else if dk_host (fst a) \<noteq> dk_host (fst b) then dk_host (fst a) < dk_host (fst b)
      else if dk_port (fst a) \<noteq> dk_port (fst b) then dk_port (fst a) < dk_port (fst b)
      else dk_reason (fst a) < dk_reason (fst b))"

definition saturating_add :: "nat \<Rightarrow> nat \<Rightarrow> nat" where
  "saturating_add acc n = (if acc \<le> u64 (acc + n) then u64 (acc + n) else 2 ^ 64 - 1)"

definition deny_record :: "denyKey \<times> nat \<Rightarrow> string" where
  "deny_record kn =
     (case kn of (key, n) \<Rightarrow>
        (let host = (if dk_host key \<noteq> [] \<and> dk_host key \<noteq> overflowHost \<and> \<not> auditHost (dk_host key)
                     then invalidHost else dk_host key) in
         ''egress_deny host='' @ host @ '' port='' @ dec (dk_port key) @ '' reason='' @ dk_reason key
         @ '' count='' @ dec n))"

definition deny_summary :: "dfold \<Rightarrow> string" where
  "deny_summary f =
     (let keys = sort_stable deny_before (df_counts f);
          status = (if 0 < df_malformed f then ''malformed''
                    else if df_gap f \<or> maxAuditDenyKeys < length keys then ''truncated'' else ''complete'') in
      ''egress_summary status='' @ status @ '' deny_keys='' @ dec (length keys) @ '' deny_total=''
      @ dec (foldl (\<lambda>acc kn. saturating_add acc (snd kn)) 0 keys) @ '' malformed_lines='' @ dec (df_malformed f))"

definition DenyAuditRecords :: "string \<Rightarrow> string list" where
  "DenyAuditRecords log =
     (let f = fold_log log in
      map deny_record (take maxAuditDenyKeys (sort_stable deny_before (df_counts f))) @ [deny_summary f])"

section \<open>Association lists of counts\<close>

lemma map_of_set_count: "map_of (set_count k n ms) = (map_of ms)(k \<mapsto> n)"
  by (induction k n ms rule: set_count.induct) auto

lemma keys_set_count:
  "map fst (set_count k n ms) = (if map_of ms k = None then map fst ms @ [k] else map fst ms)"
  by (induction k n ms rule: set_count.induct) auto

lemma length_set_count: "length (set_count k n ms) = (if map_of ms k = None then Suc (length ms) else length ms)"
  by (induction k n ms rule: set_count.induct) auto

lemma distinct_set_count: "distinct (map fst ms) \<Longrightarrow> distinct (map fst (set_count k n ms))"
  by (auto simp: keys_set_count map_of_eq_None_iff)

lemma sum_set_count:
  assumes "distinct (map fst ms)"
  shows "sum_list (map snd (set_count k n ms)) + lookup_count ms k = sum_list (map snd ms) + n"
  using assms
  by (induction k n ms rule: set_count.induct) (auto simp: lookup_count_def)

lemma set_set_count: "set (set_count k n ms) \<subseteq> insert (k, n) (set ms)"
  by (induction k n ms rule: set_count.induct) auto

section \<open>A written line reads back\<close>

definition key_ok :: "denyKey \<Rightarrow> bool" where
  "key_ok k \<longleftrightarrow> ValidString (dk_host k) \<and> length (dk_host k) \<le> maxLogHost \<and> auditReason (dk_reason k) \<and>
     dk_port k < 2 ^ 16 \<and> (dk_port k \<noteq> 0 \<or> dk_host k = overflowHost \<and> dk_reason k = overflowCause)"

lemma length_dec: "n < 10 ^ k \<Longrightarrow> 0 < k \<Longrightarrow> length (dec n) \<le> k"
proof (induction k arbitrary: n)
  case (Suc k)
  show ?case
  proof (cases "n < 10")
    case False
    then have "0 < k" "n div 10 < 10 ^ k" using Suc.prems by (cases k; simp)+
    then have "length (dec (n div 10)) \<le> k" by (rule Suc.IH [rotated])
    then show ?thesis using False by (subst dec.simps) simp
  qed (subst dec.simps, simp)
qed simp

lemma ParseUint10_dec: "n < 2 ^ bits \<Longrightarrow> ParseUint10 (dec n) bits = Some n"
  by (simp add: ParseUint10_def dec_digits digits_value_dec del: dec.simps)

lemma auditReason_ascii: "auditReason r \<Longrightarrow> list_all (\<lambda>c. byte c < 0x80) r"
  by (auto simp: auditReason_def list_all_iff)

lemma length_json_quote: "length (json_quote s) \<le> 2 + 6 * length s"
  using length_json_chars [of s] length_runes_le [of s] by (simp add: json_quote_def)

lemma parseDenyLine_line:
  assumes "key_ok (line_key d)" "0 < dl_Count d" "dl_Count d < 2 ^ 64" "0 < dl_Seq d" "dl_Seq d < 2 ^ 64"
  shows "parseDenyLine (json_object (line_members d)) = Some d"
proof -
  have k: "ValidString (dl_Host d)" "length (dl_Host d) \<le> 253" "auditReason (dl_Reason d)" "dl_Port d < 2 ^ 16"
    "dl_Port d \<noteq> 0 \<or> dl_Host d = overflowHost \<and> dl_Reason d = overflowCause"
    using assms(1) by (auto simp: key_ok_def line_key_def maxLogHost_def)
  have names: "ValidString ''host''" "ValidString ''port''" "ValidString ''reason''" "ValidString ''count''"
    "ValidString ''seq''" by (rule ValidString_ascii, simp)+
  have f: "flat_members (line_members d)"
    using k ValidString_ascii [OF auditReason_ascii [OF k(3)]] names
    by (auto simp: flat_members_def line_members_def flat_def simp del: dec.simps)
  have "decode_struct True deny_fields (json_object (line_members d)) =
      Some (\<lparr>js_str = (\<lambda>_. [])(''host'' := dl_Host d, ''reason'' := dl_Reason d),
             js_num = (\<lambda>_. 0)(''port'' := dl_Port d, ''count'' := dl_Count d, ''seq'' := dl_Seq d)\<rparr>, [])"
    using json_value_object [OF f, of 0 "[]"] k(4) assms(3,5)
    by (simp add: decode_struct_def line_members_def deny_fields_def find_field_def zero_struct_def
        maxNestingDepth_def ParseUint10_dec del: dec.simps)
  moreover have "length (json_object (line_members d)) \<le> maxDenyLineBytes"
  proof -
    have "length (dec (dl_Port d)) \<le> 5" "length (dec (dl_Count d)) \<le> 20" "length (dec (dl_Seq d)) \<le> 20"
      using k(4) assms(3,5) by (intro length_dec; simp)+
    moreover have "length (dl_Reason d) \<le> 32" using k(3) by (simp add: auditReason_def)
    moreover have "json_quote ''host'' = [DQUOTE] @ ''host'' @ [DQUOTE]" "json_quote ''port'' = [DQUOTE] @ ''port'' @ [DQUOTE]"
      "json_quote ''reason'' = [DQUOTE] @ ''reason'' @ [DQUOTE]" "json_quote ''count'' = [DQUOTE] @ ''count'' @ [DQUOTE]"
      "json_quote ''seq'' = [DQUOTE] @ ''seq'' @ [DQUOTE]"
      by code_simp+
    ultimately show ?thesis
      using length_json_quote [of "dl_Host d"] length_json_quote [of "dl_Reason d"] k(2)
      by (simp add: json_object_def line_members_def json_member_def maxDenyLineBytes_def del: dec.simps)
  qed
  ultimately show ?thesis
    using k assms(2,4) by (cases d) (auto simp: parseDenyLine_def maxLogHost_def Let_def)
qed

lemma line_no_NL: "NL \<notin> set (json_object (line_members d))"
proof (rule json_object_no_NL)
  have "NL \<notin> set (dec n)" for n
    using dec_digits [of n] by (auto simp: list_all_iff is_digit_def simp del: dec.simps)
  then show "list_all (\<lambda>m. NL \<notin> set (json_print (snd m))) (line_members d)"
    by (simp add: line_members_def json_quote_no_NL del: dec.simps)
qed

section \<open>The reader simulates the writer\<close>

lemma deny_log_lines_snoc:
  assumes "log = [] \<or> last log = NL" "NL \<notin> set l"
  shows "deny_log_lines (log @ l @ [NL]) = deny_log_lines log @ [l]"
proof (cases "log = []")
  case True
  then show ?thesis using assms(2) by (simp add: deny_log_lines_def split_on_append)
next
  case False
  then obtain log' where log: "log = log' @ [NL]" using assms(1) by (metis append_butlast_last_id)
  have "split_on NL (log @ l @ [NL]) = split_on NL log' @ [l] @ [[]]"
    using split_on_mid [of NL log' "l @ [NL]"] assms(2) by (simp add: log split_on_append)
  moreover have "split_on NL log = split_on NL log' @ [[]]"
    using split_on_mid [of NL log' "[]"] by (simp add: log)
  ultimately show ?thesis by (simp add: deny_log_lines_def butlast_append)
qed

lemma fold_log_snoc:
  assumes "log = [] \<or> last log = NL" "NL \<notin> set l"
  shows "fold_log (log @ l @ [NL]) = fold_line l (fold_log log)"
  using deny_log_lines_snoc [OF assms] by (simp add: fold_log_def)

lemma fold_log_Nil: "fold_log [] = \<lparr>df_counts = [], df_malformed = 0, df_gap = False, df_seq = 0\<rparr>"
  by (simp add: fold_log_def deny_log_lines_def)

type_synonym denial = "string \<times> nat \<times> string"

definition deny_all :: "denial list \<Rightarrow> denier" where
  "deny_all ds = foldl (\<lambda>p (host, port, reason). deny host port reason p) new_denier ds"

definition denial_ok :: "denial \<Rightarrow> bool" where
  "denial_ok d \<longleftrightarrow>
     (case d of (host, port, reason) \<Rightarrow>
        ValidString host \<and> length host \<le> maxLogHost \<and> 0 < port \<and> port < 2 ^ 16 \<and> auditReason reason)"

definition denial_key :: "denial \<Rightarrow> denyKey" where
  "denial_key d = (case d of (host, port, reason) \<Rightarrow> \<lparr>dk_host = host, dk_port = port, dk_reason = reason\<rparr>)"

definition overflowKey :: denyKey where
  "overflowKey = \<lparr>dk_host = overflowHost, dk_port = 0, dk_reason = overflowCause\<rparr>"

definition denier_inv :: "denial list \<Rightarrow> denier \<Rightarrow> bool" where
  "denier_inv ds p \<longleftrightarrow>
     distinct (map fst (de_counts p)) \<and> list_all (\<lambda>(k, n). key_ok k \<and> n \<le> length ds) (de_counts p) \<and>
     de_seq p = length ds \<and> sum_list (map snd (de_counts p)) = length ds \<and>
     (if map_of (de_counts p) overflowKey = None
      then length (de_counts p) \<le> maxDenyKeys \<and>
        (\<forall>k. lookup_count (de_counts p) k = length (filter (\<lambda>d. denial_key d = k) ds))
      else length (de_counts p) = Suc maxDenyKeys) \<and>
     (de_log p = [] \<or> last (de_log p) = NL) \<and>
     fold_log (de_log p) = \<lparr>df_counts = de_counts p, df_malformed = 0, df_gap = False, df_seq = length ds\<rparr>"

lemma overflowKey_ok: "key_ok overflowKey"
  by (auto simp: key_ok_def overflowKey_def overflowHost_def overflowCause_def maxLogHost_def auditReason_def
      intro!: ValidString_ascii)

lemma denial_key_ok: "denial_ok d \<Longrightarrow> key_ok (denial_key d) \<and> denial_key d \<noteq> overflowKey"
  by (auto simp: denial_ok_def denial_key_def key_ok_def overflowKey_def)

lemma deny_key_cases:
  assumes "denial_ok (host, port, reason)"
  shows "deny_key host port reason p =
    (if map_of (de_counts p) (denial_key (host, port, reason)) = None \<and> maxDenyKeys \<le> length (de_counts p)
     then overflowKey else denial_key (host, port, reason))"
  using assms by (simp add: deny_key_def denial_key_def denial_ok_def overflowKey_def Let_def)

lemma deny_step:
  assumes inv: "denier_inv ds p" and ok: "denial_ok d" and small: "length ds + 1 < 2 ^ 64"
  shows "denier_inv (ds @ [d]) (case d of (host, port, reason) \<Rightarrow> deny host port reason p)"
proof -
  obtain host port reason where d: "d = (host, port, reason)" by (metis prod_cases3)
  define key where "key = deny_key host port reason p"
  have kc: "key = (if map_of (de_counts p) (denial_key d) = None \<and> maxDenyKeys \<le> length (de_counts p)
      then overflowKey else denial_key d)"
    unfolding key_def d by (rule deny_key_cases [OF ok [unfolded d]])
  have kok: "key_ok key" using kc overflowKey_ok denial_key_ok [OF ok] by simp
  define c where "c = lookup_count (de_counts p) key"
  have cl: "c \<le> length ds"
    using inv unfolding c_def lookup_count_def denier_inv_def
    by (auto split: option.splits dest!: map_of_SomeD simp: list_all_iff)
  define l where "l = \<lparr>dl_Host = dk_host key, dl_Port = dk_port key, dl_Reason = dk_reason key,
      dl_Count = Suc c, dl_Seq = Suc (length ds)\<rparr>"
  have lk: "line_key l = key" by (simp add: l_def line_key_def)
  let ?p' = "\<lparr>de_counts = set_count key (Suc c) (de_counts p), de_seq = Suc (length ds),
      de_log = de_log p @ json_object (line_members l) @ [NL]\<rparr>"
  have p': "(case d of (host, port, reason) \<Rightarrow> deny host port reason p) = ?p'"
    using inv small cl by (simp add: d deny_def key_def [symmetric] c_def [symmetric] u64_def denier_inv_def l_def Let_def)
  have parse: "parseDenyLine (json_object (line_members l)) = Some l"
    using kok cl small by (intro parseDenyLine_line) (simp_all add: lk, simp_all add: l_def)
  have seen: "\<not> (map_of (de_counts p) key = None \<and> maxDenyKeys < length (de_counts p))"
    using inv kc by (auto simp: denier_inv_def split: if_splits)
  have fold: "fold_log (de_log ?p') =
      \<lparr>df_counts = set_count key (Suc c) (de_counts p), df_malformed = 0, df_gap = False, df_seq = Suc (length ds)\<rparr>"
    using inv seen small by (simp add: denier_inv_def fold_log_snoc [OF _ line_no_NL] fold_line_def parse lk
        c_def [symmetric] u64_def) (simp add: l_def)
  have sum: "sum_list (map snd (set_count key (Suc c) (de_counts p))) = Suc (length ds)"
    using inv sum_set_count [of "de_counts p" key "Suc c"] by (simp add: denier_inv_def c_def [symmetric])
  have kall: "list_all (\<lambda>(k, n). key_ok k \<and> n \<le> Suc (length ds)) (set_count key (Suc c) (de_counts p))"
    using inv kok cl set_set_count [of key "Suc c" "de_counts p"]
    by (fastforce simp: denier_inv_def list_all_iff)
  have over: "if map_of (set_count key (Suc c) (de_counts p)) overflowKey = None
     then length (set_count key (Suc c) (de_counts p)) \<le> maxDenyKeys \<and>
        (\<forall>k. lookup_count (set_count key (Suc c) (de_counts p)) k = length (filter (\<lambda>d. denial_key d = k) (ds @ [d])))
     else length (set_count key (Suc c) (de_counts p)) = Suc maxDenyKeys"
  proof (cases "key = overflowKey")
    case True
    then show ?thesis using inv kc denial_key_ok [OF ok]
      by (auto simp: map_of_set_count length_set_count denier_inv_def split: if_splits)
  next
    case False
    then have k: "key = denial_key d" using kc by (auto split: if_splits)
    show ?thesis
    proof (cases "map_of (de_counts p) overflowKey = None")
      case True
      then show ?thesis using inv False k kc
        by (auto simp: map_of_set_count length_set_count denier_inv_def c_def lookup_count_def split: if_splits)
    next
      case ov: False
      then have "map_of (de_counts p) key \<noteq> None" using inv kc False k by (auto simp: denier_inv_def split: if_splits)
      then show ?thesis using inv False ov by (auto simp: map_of_set_count length_set_count denier_inv_def)
    qed
  qed
  have "distinct (map fst (set_count key (Suc c) (de_counts p)))"
    using inv by (simp add: denier_inv_def distinct_set_count)
  then show ?thesis unfolding p' using fold sum kall over by (simp add: denier_inv_def)
qed

lemma deny_all_inv:
  "list_all denial_ok ds \<Longrightarrow> length ds < 2 ^ 64 \<Longrightarrow> denier_inv ds (deny_all ds)"
proof (induction ds rule: rev_induct)
  case Nil
  then show ?case by (simp add: denier_inv_def deny_all_def new_denier_def fold_log_Nil lookup_count_def)
next
  case (snoc d ds)
  then have "denier_inv ds (deny_all ds)" by simp
  then show ?case using deny_step [of ds "deny_all ds" d] snoc.prems by (simp add: deny_all_def)
qed

section \<open>The audit records\<close>

interpretation deny_order: weak_order deny_before
  by unfold_locales (auto simp: deny_before_def split: if_splits)

lemma saturating_sum:
  assumes "acc + sum_list (map snd kns) < 2 ^ 64"
  shows "foldl (\<lambda>acc kn. saturating_add acc (snd kn)) acc kns = acc + sum_list (map snd kns)"
  using assms by (induction kns arbitrary: acc) (simp_all add: saturating_add_def u64_def)

lemma sum_sort_stable: "sum_list (map snd (sort_stable lt xs)) = (sum_list (map snd xs) :: nat)"
  by (metis mset_sort_stable mset_map sum_mset_sum_list)

text \<open>
  C31: the deny log accounts for every denial. For denials whose host is UTF-8 text of at most 253 bytes,
  the records read back from the log of the proxy are, largest count first, those of the proxy's own
  counters, at most 32 of them, and a summary whose total is the number of denials and that says
  \<open>complete\<close> exactly when no key was left out; while the counters have not overflowed into the
  overflow key, each is the number of denials of its key.
\<close>

theorem deny_log_counts:
  assumes "list_all denial_ok ds" and "length ds < 2 ^ 64" and "p = deny_all ds"
  shows "DenyAuditRecords (de_log p) =
      map deny_record (take 32 (sort_stable deny_before (de_counts p))) @
      [''egress_summary status='' @ (if 32 < length (de_counts p) then ''truncated'' else ''complete'')
       @ '' deny_keys='' @ dec (length (de_counts p)) @ '' deny_total='' @ dec (length ds) @ '' malformed_lines=0'']
    \<and> sorted_wrt (\<lambda>a b. snd b \<le> snd a) (sort_stable deny_before (de_counts p))
    \<and> length (de_counts p) \<le> 4097
    \<and> (map_of (de_counts p) overflowKey = None \<longrightarrow>
         (\<forall>k. lookup_count (de_counts p) k = length (filter (\<lambda>d. denial_key d = k) ds)))"
proof (intro conjI impI allI)
  have inv: "denier_inv ds p" unfolding assms(3) using assms(1,2) by (rule deny_all_inv)
  have "foldl (\<lambda>acc kn. saturating_add acc (snd kn)) 0 (sort_stable deny_before (de_counts p)) = length ds"
    using inv assms(2) saturating_sum [of 0 "sort_stable deny_before (de_counts p)"]
    by (simp add: denier_inv_def sum_sort_stable)
  moreover have "dec 0 = ''0''" by code_simp
  ultimately show "DenyAuditRecords (de_log p) =
      map deny_record (take 32 (sort_stable deny_before (de_counts p))) @
      [''egress_summary status='' @ (if 32 < length (de_counts p) then ''truncated'' else ''complete'')
       @ '' deny_keys='' @ dec (length (de_counts p)) @ '' deny_total='' @ dec (length ds) @ '' malformed_lines=0'']"
    using inv by (simp add: DenyAuditRecords_def deny_summary_def denier_inv_def maxAuditDenyKeys_def Let_def del: dec.simps)
  have "\<not> deny_before b a \<Longrightarrow> snd b \<le> snd a" for a b
    by (auto simp: deny_before_def split: if_splits)
  then show "sorted_wrt (\<lambda>a b. snd b \<le> snd a) (sort_stable deny_before (de_counts p))"
    by (rule sorted_wrt_mono_rel [rotated, OF deny_order.sorted_sort])
  show "length (de_counts p) \<le> 4097" using inv by (simp add: denier_inv_def maxDenyKeys_def split: if_splits)
  show "lookup_count (de_counts p) k = length (filter (\<lambda>d. denial_key d = k) ds)"
    if "map_of (de_counts p) overflowKey = None" for k
    using inv that by (simp add: denier_inv_def)
qed

theorem deny_log_counts_witness:
  "DenyAuditRecords (de_log (deny_all [(''a.b'', 443, ''host''), (''c'', 22, ''port''), (''a.b'', 443, ''host'')])) =
    [''egress_deny host=a.b port=443 reason=host count=2'', ''egress_deny host=c port=22 reason=port count=1'',
     ''egress_summary status=complete deny_keys=2 deny_total=3 malformed_lines=0'']"
proof -
  let ?ds = "[(''a.b'', 443, ''host''), (''c'', 22, ''port''), (''a.b'', 443, ''host'')] :: denial list"
  let ?c = "[(\<lparr>dk_host = ''a.b'', dk_port = 443, dk_reason = ''host''\<rparr>, 2), (\<lparr>dk_host = ''c'', dk_port = 22, dk_reason = ''port''\<rparr>, 1)]"
  have ok: "list_all denial_ok ?ds" by code_simp
  have c: "de_counts (deny_all ?ds) = ?c" by code_simp
  have "map deny_record (take 32 (sort_stable deny_before ?c)) =
      [''egress_deny host=a.b port=443 reason=host count=2'', ''egress_deny host=c port=22 reason=port count=1'']"
    and "''egress_summary status='' @ (if 32 < length ?c then ''truncated'' else ''complete'')
       @ '' deny_keys='' @ dec (length ?c) @ '' deny_total='' @ dec (length ?ds) @ '' malformed_lines=0'' =
      ''egress_summary status=complete deny_keys=2 deny_total=3 malformed_lines=0''"
    by code_simp+
  then show ?thesis
    using deny_log_counts [of ?ds, OF ok _ refl] unfolding c by simp
qed

text \<open>
  Two denied server names that are not UTF-8 become the same line of the log, and the summary still
  says \<open>complete\<close> with one key and a total of one.
\<close>

theorem deny_log_invalid_host_undercount:
  "DenyAuditRecords (de_log (deny_all [([CHR 0xFF], 443, ''host''), ([CHR 0xFE], 443, ''host'')])) =
    [''egress_deny host=(invalid) port=443 reason=host count=1'',
     ''egress_summary status=complete deny_keys=1 deny_total=1 malformed_lines=0'']"
  by code_simp

end
