(* ===== verification/Ocsf_Export.thy ===== *)
theory Ocsf_Export
  imports Audit_Line Session_Record Egress_Proxy "HOL-Library.AList"
begin

text \<open>
  The OCSF export of a session, \<open>src/internal/ocsf/ocsf.go\<close>, with the tables of \<open>auditline.go\<close>: one summary event
  for the session record and one event for each audit record of the session. \<open>redact\<close> is the redactor that
  the code passes to its core \<open>mapExport\<close>; \<open>ptime\<close> is \<open>time.Parse\<close> with the RFC 3339 layout, as milliseconds;
  \<open>lower\<close> is \<open>unicode.ToLower\<close> outside ASCII. The lemmas show what of a record can reach the events.
\<close>

section \<open>Tables\<close>

definition knownAuditFields :: "string list" where
  "knownAuditFields =
     [''access_model'', ''agent'', ''agent_autonomy'', ''argv'', ''autonomy_assurance'',
      ''bootstrap_applied'', ''bootstrap_endpoints'', ''bootstrap_id'', ''children'',
      ''cache_assurance'', ''cache_profile'', ''codex_rules_assurance_configured'',
      ''codex_rules_assurance_effective_final'', ''codex_rules_assurance_effective_initial'',
      ''codex_rules_mutability_configured'', ''codex_rules_mutability_effective_final'',
      ''codex_rules_mutability_effective_initial'', ''command'', ''container_assurance'',
      ''container_cpu'', ''container_memory'', ''container_name'', ''count'', ''credential_mode'',
      ''egress_enforcement'', ''deny_keys'', ''deny_total'', ''debug_log_enabled'', ''denied'',
      ''endpoints'', ''event'', ''execution_path'', ''exit_status'', ''final_assurance'', ''force'',
      ''github_auth_present'', ''granted'', ''host'', ''image_ref'', ''injection_credential_keys'',
      ''injection_policy_sha256'', ''injection_secret_copy_targets'', ''injection_ssh_enabled'',
      ''item'', ''key'', ''log_level'', ''malformed_lines'', ''materialization_id'', ''mode'',
      ''network_policy'', ''observability_assurance'', ''package_mutation_downgraded'', ''prev_digest'',
      ''profile'', ''provider_auth_mode'', ''provider_auth_modes'',
      ''provider_native_sandbox_configured'', ''provider_native_sandbox_effective'',
      ''provider_native_sandbox_reason'', ''reason'', ''record_digest'', ''runtime_api'',
      ''session_assurance_final'', ''parent'', ''port'', ''provider_arg_count'',
      ''session_assurance_initial'', ''session_id'', ''shared_auth_modes'', ''snapshot_head'',
      ''snapshot_id'', ''snapshot_workspace'', ''source'', ''ssh_config_assurance'', ''status'',
      ''stdin_mode'', ''target_id'', ''target_kind'', ''target_provider'', ''timestamp'',
      ''transcript_logging'', ''transport_status'', ''ts'', ''ui'', ''v'', ''vm_cpu'', ''vm_disk_gib'',
      ''vm_memory_gib'', ''workspace'', ''workspace_control_plane'', ''workspace_head'',
      ''workspace_origin'', ''workspace_repo_mcp'', ''workspace_transport'']"

definition FreeFormPlaceholder :: string where
  "FreeFormPlaceholder = ''[REDACTED-FREEFORM]''"


definition knownAuditEvents :: "string list" where
  "knownAuditEvents =
     [''launch'', ''exit'', ''assurance-change'', ''command'', ''attach'', ''attach-attempt'',
      ''stop-request'', ''stop-failed'', ''session_started'', ''session_finished'', ''bootstrap_ready'',
      ''workspace_materialized'', ''session_fork'', ''egress_deny'', ''egress_summary'',
      ''credential_broker_start'', ''credential_broker_summary'']"

section \<open>Events\<close>

definition OCSFSchemaVersion :: string where "OCSFSchemaVersion = ''1.3.0''"
definition MappingVersion :: string where "MappingVersion = ''8''"

definition categoryName :: string where "categoryName = ''Application Activity''"
definition className :: string where "className = ''Application Lifecycle''"

definition networkCategoryUID :: int where "networkCategoryUID = 4"
definition networkClassUID :: int where "networkClassUID = 4001"
definition networkName :: string where "networkName = ''Network Activity''"
definition networkActivityRefuse :: int where "networkActivityRefuse = 5"
definition actionDenied :: int where "actionDenied = 2"
definition dispositionBlocked :: int where "dispositionBlocked = 2"

definition productName :: string where "productName = ''workcell''"
definition vendorName :: string where "vendorName = ''Workcell''"




definition deviceTypeVirtual :: string where "deviceTypeVirtual = ''Virtual''"

record Product =
  pr_Name :: string
  pr_VendorName :: string

record Metadata =
  md_Version :: string
  md_Product :: Product
  md_LoggedTime :: int
  md_MappingVersion :: string

record App =
  ap_Name :: string
  ap_VendorName :: string
  ap_UID :: string

record Device =
  dv_TypeID :: int
  dv_Type :: string
  dv_Name :: string
  dv_Hostname :: string
  dv_UID :: string

record Endpoint =
  ep_Hostname :: string
  ep_Port :: nat

record Event =
  ev_CategoryUID :: int
  ev_CategoryName :: string
  ev_ClassUID :: int
  ev_ClassName :: string
  ev_ActivityID :: int
  ev_ActivityName :: string
  ev_TypeUID :: int
  ev_TypeName :: string
  ev_Time :: int
  ev_TimeDt :: string
  ev_SeverityID :: int
  ev_Severity :: string
  ev_StatusID :: int
  ev_Status :: string
  ev_Message :: string
  ev_Metadata :: Metadata
  ev_App :: "App option"
  ev_Device :: "Device option"
  ev_Unmapped :: "(string \<times> string) list"
  ev_ActionID :: int
  ev_Action :: string
  ev_DispositionID :: int
  ev_Disposition :: string
  ev_Count :: nat
  ev_DstEndpoint :: "Endpoint option"














section \<open>The session event\<close>







section \<open>Audit events\<close>

text \<open>
  \<open>strconv.ParseUint(s, 10, bits)\<close> with its error dropped: 0 for a syntax error, the largest value
  where the number leaves the range, which ends the scan.
\<close>

fun uint_loop :: "nat \<Rightarrow> nat \<Rightarrow> string \<Rightarrow> nat" where
  "uint_loop maxVal n [] = n"
| "uint_loop maxVal n (c # cs) =
     (if \<not> is_digit c then 0
      else if maxVal < 10 * n + digit_value c then maxVal
      else uint_loop maxVal (10 * n + digit_value c) cs)"

definition uint_value :: "string \<Rightarrow> nat \<Rightarrow> nat" where
  "uint_value s bits = uint_loop (2 ^ bits - 1) 0 s"

text \<open>The map of the fields; the decoder refuses a repeated key.\<close>

definition lookup_field :: "AuditField list \<Rightarrow> string \<Rightarrow> string" where
  "lookup_field flds key = (case find (\<lambda>f. af_key f = key) flds of None \<Rightarrow> [] | Some f \<Rightarrow> af_value f)"

definition asNetworkDeny :: "Event \<Rightarrow> AuditField list \<Rightarrow> (string \<Rightarrow> string) \<Rightarrow> Event" where
  "asNetworkDeny ev flds redact =
     (let port = uint_value (lookup_field flds ''port'') 16; host = TrimSpace (lookup_field flds ''host'') in
      ev\<lparr>ev_CategoryUID := networkCategoryUID, ev_CategoryName := networkName,
         ev_ClassUID := networkClassUID, ev_ClassName := networkName,
         ev_ActivityID := networkActivityRefuse, ev_ActivityName := ''Refuse'',
         ev_TypeUID := networkClassUID * 100 + networkActivityRefuse, ev_TypeName := networkName @ '': Refuse'',
         ev_ActionID := actionDenied, ev_Action := ''Denied'',
         ev_DispositionID := dispositionBlocked, ev_Disposition := ''Blocked'',
         ev_Count := uint_value (lookup_field flds ''count'') 64,
         ev_DstEndpoint := (if host \<noteq> [] \<or> port \<noteq> 0 then Some \<lparr>ep_Hostname = redact host, ep_Port = port\<rparr> else None)\<rparr>)"






section \<open>The export\<close>




section \<open>What an audit record reveals\<close>










section \<open>The strings of an event\<close>





definition activity_names :: "string list" where
  "activity_names = [''Start'', ''Stop'', ''Other'', ''Unknown'']"

text \<open>The strings that are written in the code, whatever the record holds.\<close>

definition fixed_texts :: "string list" where
  "fixed_texts =
     [[], categoryName, className, networkName, ''Refuse'', networkName @ '': Refuse'', ''Denied'', ''Blocked'', ''Medium'', ''Informational'',
      ''Success'', ''Failure'', OCSFSchemaVersion, MappingVersion, productName, vendorName, deviceTypeVirtual,
      FreeFormPlaceholder, ''session.version'', ''audit.unexpected_fields''] @
     activity_names @ map (\<lambda>n. className @ '': '' @ n) activity_names @
     map (\<lambda>n. ''workcell audit '' @ n) (activity_names @ knownAuditEvents) @
     map (\<lambda>f. ''session.'' @ field_name f) all_fields @ map (\<lambda>k. ''audit.'' @ k) knownAuditFields"

inductive released :: "(string \<Rightarrow> string) \<Rightarrow> string \<Rightarrow> bool" for redact where
  fixed: "s \<in> set fixed_texts \<Longrightarrow> released redact s"
| redacted: "released redact (redact s)"
| summary: "n \<in> set activity_names \<Longrightarrow> released redact (''workcell session '' @ redact s @ '' '' @ n)"
| version_number: "released redact (Itoa v)"
| unexpected: "set ws \<subseteq> {FreeFormPlaceholder @ ''='' @ FreeFormPlaceholder, ''event='' @ FreeFormPlaceholder} \<Longrightarrow>
    released redact (join '' '' ws)"


lemma released_fixed: "list_all (\<lambda>s. s \<in> set fixed_texts) ts \<Longrightarrow> s \<in> set ts \<Longrightarrow> released redact s"
  by (auto simp: list_all_iff intro: released.fixed)



















section \<open>Properties\<close>









text \<open>A port that is out of range is not left out of the event, as the comment on \<open>asNetworkDeny\<close> says: it becomes 65535.\<close>

theorem deny_port_saturates:
  "ev_DstEndpoint (asNetworkDeny ev [\<lparr>af_key = ''port'', af_value = ''99999''\<rparr>] redact) =
   Some \<lparr>ep_Hostname = redact [], ep_Port = 65535\<rparr>"
proof -
  have "uint_value ''99999'' 16 = 65535" by code_simp
  then show ?thesis by (simp add: asNetworkDeny_def lookup_field_def)
qed

end
