(* ===== verification/Adapters.thy ===== *)
theory Adapters
  imports Go_Prelude "HOL-Library.AList"
begin

text \<open>
  The registry of agents: \<open>src/internal/adapters/adapters.go\<close> over the tables of \<open>data.go\<close> and \<open>data_gen.go\<close>, and the
  list of providers of \<open>src/internal/providerid\<close>. It says which credentials an agent may use and where they are mounted.
  A Go set is the list of its members.
\<close>

record providerTables =
  pt_credentialKeys :: "string list"
  pt_credentialContainerPaths :: "(string \<times> string) list"
  pt_reservedTargets :: "string list"

record providerDefinition =
  pd_id :: string
  pd_sharedCredentialsEnabled :: bool
  pd_tables :: providerTables

definition sharedCredentialKeys :: "string list" where
  "sharedCredentialKeys = [''github_hosts'', ''github_config'']"

definition sharedCredentialContainerPaths :: "(string \<times> string) list" where
  "sharedCredentialContainerPaths =
     [(''github_hosts'', ''/opt/workcell/host-inputs/credentials/github-hosts.yml''),
      (''github_config'', ''/opt/workcell/host-inputs/credentials/github-config.yml'')]"

definition sharedReservedTargets :: "string list" where
  "sharedReservedTargets =
     [''/state/agent-home/.config/gh'', ''/state/agent-home/.config/gh/config.yml'',
      ''/state/agent-home/.config/gh/hosts.yml'', ''/state/agent-home/.ssh'']"

definition GeminiGoogleAuthEndpoints :: "string list" where
  "GeminiGoogleAuthEndpoints = [''accounts.google.com:443'', ''oauth2.googleapis.com:443'', ''sts.googleapis.com:443'']"

definition providers :: "providerDefinition list" where
  "providers =
     [\<lparr>pd_id = ''amp'', pd_sharedCredentialsEnabled = False, pd_tables =
        \<lparr>pt_credentialKeys = [], pt_credentialContainerPaths = [],
         pt_reservedTargets = [''/state/agent-home/.config/amp'']\<rparr>\<rparr>,
      \<lparr>pd_id = ''claude'', pd_sharedCredentialsEnabled = True, pd_tables =
        \<lparr>pt_credentialKeys = [''claude_api_key'', ''claude_auth'', ''claude_mcp''],
         pt_credentialContainerPaths =
           [(''claude_api_key'', ''/opt/workcell/host-inputs/credentials/claude-api-key.txt''),
            (''claude_auth'', ''/opt/workcell/host-inputs/credentials/claude-auth.json''),
            (''claude_mcp'', ''/opt/workcell/host-inputs/credentials/claude-mcp.json'')],
         pt_reservedTargets =
           [''/state/agent-home/.claude'', ''/state/agent-home/.config/claude-code'',
            ''/state/agent-home/.claude/settings.json'', ''/state/agent-home/.claude/CLAUDE.md'',
            ''/state/agent-home/.claude/.claude.json'', ''/state/agent-home/.claude.json'',
            ''/state/agent-home/.claude/.credentials.json'', ''/state/agent-home/.claude/workcell'',
            ''/state/agent-home/.config/claude-code/auth.json'', ''/state/agent-home/.mcp.json'']\<rparr>\<rparr>,
      \<lparr>pd_id = ''codex'', pd_sharedCredentialsEnabled = True, pd_tables =
        \<lparr>pt_credentialKeys = [''codex_auth''],
         pt_credentialContainerPaths = [(''codex_auth'', ''/opt/workcell/host-inputs/credentials/codex-auth.json'')],
         pt_reservedTargets =
           [''/state/agent-home/.codex'', ''/state/agent-home/.codex/AGENTS.md'', ''/state/agent-home/.codex/auth.json'',
            ''/state/agent-home/.codex/config.toml'', ''/state/agent-home/.codex/managed_config.toml'',
            ''/state/agent-home/.codex/requirements.toml'', ''/state/agent-home/.codex/agents'',
            ''/state/agent-home/.codex/rules'', ''/state/agent-home/.codex/mcp'']\<rparr>\<rparr>,
      \<lparr>pd_id = ''copilot'', pd_sharedCredentialsEnabled = False, pd_tables =
        \<lparr>pt_credentialKeys = [''copilot_github_token''],
         pt_credentialContainerPaths =
           [(''copilot_github_token'', ''/opt/workcell/host-inputs/credentials/copilot-github-token.txt'')],
         pt_reservedTargets =
           [''/state/agent-home/.copilot'', ''/state/agent-home/.copilot/AGENTS.md'', ''/state/agent-home/.copilot/logs'',
            ''/state/agent-home/.cache/github-copilot'', ''/state/agent-home/.config/github-copilot'']\<rparr>\<rparr>,
      \<lparr>pd_id = ''gemini'', pd_sharedCredentialsEnabled = True, pd_tables =
        \<lparr>pt_credentialKeys = [''gemini_env'', ''gemini_oauth'', ''gemini_projects'', ''gcloud_adc''],
         pt_credentialContainerPaths =
           [(''gemini_env'', ''/opt/workcell/host-inputs/credentials/gemini.env''),
            (''gemini_oauth'', ''/opt/workcell/host-inputs/credentials/gemini-oauth.json''),
            (''gemini_projects'', ''/opt/workcell/host-inputs/credentials/gemini-projects.json''),
            (''gcloud_adc'', ''/opt/workcell/host-inputs/credentials/gcloud-adc.json'')],
         pt_reservedTargets =
           [''/state/agent-home/.gemini'', ''/state/agent-home/.config/gcloud'', ''/state/agent-home/.gemini/settings.json'',
            ''/state/agent-home/.gemini/GEMINI.md'', ''/state/agent-home/.gemini/.env'',
            ''/state/agent-home/.gemini/oauth_creds.json'', ''/state/agent-home/.gemini/projects.json'',
            ''/state/agent-home/.gemini/trustedFolders.json'',
            ''/state/agent-home/.config/gcloud/application_default_credentials.json'']\<rparr>\<rparr>,
      \<lparr>pd_id = ''goose'', pd_sharedCredentialsEnabled = False, pd_tables =
        \<lparr>pt_credentialKeys = [], pt_credentialContainerPaths = [],
         pt_reservedTargets = [''/state/agent-home/.config/goose'']\<rparr>\<rparr>,
      \<lparr>pd_id = ''opencode'', pd_sharedCredentialsEnabled = False, pd_tables =
        \<lparr>pt_credentialKeys = [], pt_credentialContainerPaths = [],
         pt_reservedTargets = [''/state/agent-home/.config/opencode'']\<rparr>\<rparr>]"

definition AllProviders :: "string list" where
  "AllProviders = [''amp'', ''claude'', ''codex'', ''copilot'', ''gemini'', ''goose'', ''opencode'']"

definition AgentScopedCredentialKeys :: "(string \<times> string list) list" where
  "AgentScopedCredentialKeys = map (\<lambda>p. (pd_id p, pt_credentialKeys (pd_tables p))) providers"

definition AgentScopedCredentialKeysForProviders :: "string list \<Rightarrow> (string \<times> string list) list" where
  "AgentScopedCredentialKeysForProviders providerIDs =
     map (\<lambda>p. (pd_id p, pt_credentialKeys (pd_tables p))) (filter (\<lambda>p. pd_id p \<in> set providerIDs) providers)"

definition SharedCredentialsApplyToAgent :: "string \<Rightarrow> bool" where
  "SharedCredentialsApplyToAgent agent =
     (case find (\<lambda>p. pd_id p = agent) providers of None \<Rightarrow> False | Some p \<Rightarrow> pd_sharedCredentialsEnabled p)"

definition CredentialContainerPathsForProviders :: "string list \<Rightarrow> (string \<times> string) list" where
  "CredentialContainerPathsForProviders providerIDs =
     fold (\<lambda>(k, v). AList.update k v)
       (concat (map (\<lambda>p. pt_credentialContainerPaths (pd_tables p)) (filter (\<lambda>p. pd_id p \<in> set providerIDs) providers)) @
        sharedCredentialContainerPaths) []"

definition ReservedTargets :: "string list" where
  "ReservedTargets = concat (map (\<lambda>p. pt_reservedTargets (pd_tables p)) providers) @ sharedReservedTargets"

definition credentialKeyUnion :: "(string \<times> string list) list \<Rightarrow> string list \<Rightarrow> string list" where
  "credentialKeyUnion scoped shared = remdups (shared @ concat (map snd scoped))"

text \<open>The tables that the three packages derive, by value.\<close>

definition CredentialKeys :: "string list" where
  "CredentialKeys = credentialKeyUnion (AgentScopedCredentialKeysForProviders AllProviders) sharedCredentialKeys"

definition scoped_keys :: "string \<Rightarrow> string list" where
  "scoped_keys agent = (case map_of (AgentScopedCredentialKeysForProviders AllProviders) agent of None \<Rightarrow> [] | Some ks \<Rightarrow> ks)"

definition SupportedModes :: "string list" where
  "SupportedModes = [''strict'', ''development'', ''build'', ''breakglass'']"

lemma all_providers_registered: "map pd_id providers = AllProviders"
  by (simp add: providers_def AllProviders_def)

lemma registry_complete: "AgentScopedCredentialKeysForProviders AllProviders = AgentScopedCredentialKeys"
  by (simp add: AgentScopedCredentialKeysForProviders_def AgentScopedCredentialKeys_def flip: all_providers_registered)

lemma container_paths_cover: "set (map fst (CredentialContainerPathsForProviders AllProviders)) = set CredentialKeys"
  by code_simp

lemma scoped_not_shared: "set (scoped_keys agent) \<inter> set sharedCredentialKeys = {}"
proof -
  have "list_all (\<lambda>(a, ks). set ks \<inter> set sharedCredentialKeys = {}) (AgentScopedCredentialKeysForProviders AllProviders)"
    by code_simp
  then show ?thesis
    by (cases "map_of (AgentScopedCredentialKeysForProviders AllProviders) agent")
      (auto simp: scoped_keys_def list_all_iff dest!: map_of_SomeD)
qed

end
