(* ===== verification/Credential_Select.thy ===== *)
theory Credential_Select
  imports Adapters Credbroker Policy_File
begin

text \<open>
  Which credentials of a policy a session gets: \<open>src/internal/authpolicy/manage_helpers.go\<close> with the selectors of
  \<open>policy.go\<close>, and the two other implementations of the selector that the launch uses, in
  \<open>src/internal/authresolve\<close> and \<open>src/internal/injection\<close>. The lemmas show that a credential is selected exactly
  when the agent is entitled to it and the entry names agent and mode, and that the three selectors agree.
\<close>

section \<open>Resolvers\<close>

definition BrokerResolver :: string where
  "BrokerResolver = ''keychain-broker''"

definition allowedResolvers :: "(string \<times> string list) list" where
  "allowedResolvers = [(''codex_auth'', [''codex-home-auth-file'']), (''claude_auth'', [''claude-macos-keychain''])]"

definition ResolverSupported :: "string \<Rightarrow> string \<Rightarrow> bool" where
  "ResolverSupported key resolverName =
     (if resolverName = BrokerResolver then Brokers key
      else case map_of allowedResolvers key of None \<Rightarrow> False | Some resolverSet \<Rightarrow> resolverName \<in> set resolverSet)"

section \<open>Selectors\<close>

text \<open>\<open>selectorStrings\<close>: an absent field is \<open>None\<close> on both sides. The loop stops at the first value that is refused.\<close>

fun selector_values :: "tval list \<Rightarrow> string \<Rightarrow> string list \<Rightarrow> (bundle_error, string list) result" where
  "selector_values [] label allowedValues = Inr []"
| "selector_values (v # vs) label allowedValues =
     (case v of
        TString s \<Rightarrow>
          if s \<notin> set allowedValues then Inl (HookError label)
          else (case selector_values vs label allowedValues of Inl e \<Rightarrow> Inl e | Inr parsed \<Rightarrow> Inr (s # parsed))
      | _ \<Rightarrow> Inl (HookError label))"

definition selectorStrings :: "tval option \<Rightarrow> string \<Rightarrow> string list \<Rightarrow> (bundle_error, string list option) result" where
  "selectorStrings vals label allowedValues =
     (case vals of
        None \<Rightarrow> Inr None
      | Some (TArr rawValues) \<Rightarrow>
          if rawValues = [] then Inl (HookError label)
          else (case selector_values rawValues label allowedValues of Inl e \<Rightarrow> Inl e | Inr parsed \<Rightarrow> Inr (Some parsed))
      | Some _ \<Rightarrow> Inl (HookError label))"

definition selectedFor :: "tval option \<Rightarrow> string \<Rightarrow> string \<Rightarrow> string list \<Rightarrow> (bundle_error, bool) result" where
  "selectedFor vals current label allowedValues =
     (case selectorStrings vals label allowedValues of
        Inl e \<Rightarrow> Inl e
      | Inr None \<Rightarrow> Inr True
      | Inr (Some parsed) \<Rightarrow> Inr (current \<in> set parsed))"

definition validateSelectorValues :: "tval option \<Rightarrow> string \<Rightarrow> string list \<Rightarrow> bundle_error option" where
  "validateSelectorValues vals label allowedValues =
     (case selectorStrings vals label allowedValues of Inl e \<Rightarrow> Some e | Inr _ \<Rightarrow> None)"

text \<open>The selector of the resolver: it returns at the first match, so later values are not looked at.\<close>

fun resolve_select :: "tval list \<Rightarrow> string \<Rightarrow> string \<Rightarrow> string list \<Rightarrow> (bundle_error, bool) result" where
  "resolve_select [] current label allowed = Inr False"
| "resolve_select (v # vs) current label allowed =
     (case v of
        TString s \<Rightarrow>
          if s \<notin> set allowed then Inl (HookError label)
          else if s = current then Inr True
          else resolve_select vs current label allowed
      | _ \<Rightarrow> Inl (HookError label))"

definition resolve_selectedFor :: "tval option \<Rightarrow> string \<Rightarrow> string \<Rightarrow> string list \<Rightarrow> (bundle_error, bool) result" where
  "resolve_selectedFor vals current label allowed =
     (case vals of
        None \<Rightarrow> Inr True
      | Some (TArr arr) \<Rightarrow> if arr = [] then Inl (HookError label) else resolve_select arr current label allowed
      | Some _ \<Rightarrow> Inl (HookError label))"

text \<open>The selector of the renderer: all values have to be strings, then as above.\<close>

fun stringSlice :: "tval list \<Rightarrow> string \<Rightarrow> (bundle_error, string list) result" where
  "stringSlice [] label = Inr []"
| "stringSlice (v # vs) label =
     (case v of
        TString s \<Rightarrow> (case stringSlice vs label of Inl e \<Rightarrow> Inl e | Inr items \<Rightarrow> Inr (s # items))
      | _ \<Rightarrow> Inl (HookError label))"

fun render_select :: "string list \<Rightarrow> string \<Rightarrow> string \<Rightarrow> string list \<Rightarrow> (bundle_error, bool) result" where
  "render_select [] current label allowed = Inr False"
| "render_select (s # ss) current label allowed =
     (if s \<notin> set allowed then Inl (HookError label)
      else if s = current then Inr True
      else render_select ss current label allowed)"

definition render_selectedFor :: "tval option \<Rightarrow> string \<Rightarrow> string \<Rightarrow> string list \<Rightarrow> (bundle_error, bool) result" where
  "render_selectedFor vals current label allowed =
     (case vals of
        None \<Rightarrow> Inr True
      | Some (TArr arr) \<Rightarrow>
          (case stringSlice arr label of
             Inl e \<Rightarrow> Inl e
           | Inr items \<Rightarrow> if items = [] then Inl (HookError label) else render_select items current label allowed)
      | Some _ \<Rightarrow> Inl (HookError label))"

section \<open>Selection for the status of a policy\<close>

definition allowedCredentialsForAgent :: "string \<Rightarrow> string list" where
  "allowedCredentialsForAgent agent =
     remdups ((if SharedCredentialsApplyToAgent agent then sharedCredentialKeys else []) @ scoped_keys agent)"

definition credentialAllowedForAgent :: "string \<Rightarrow> string \<Rightarrow> bool" where
  "credentialAllowedForAgent agent credential \<longleftrightarrow> credential \<in> set (allowedCredentialsForAgent agent)"

definition entryAllowedKeys :: "string list" where
  "entryAllowedKeys = [''source'', ''resolver'', ''materialization'', ''providers'', ''modes'']"

definition credential_label :: "string \<Rightarrow> string" where
  "credential_label key = ''credentials.'' @ key"

definition string_field :: "table \<Rightarrow> string \<Rightarrow> string" where
  "string_field m name = (case map_of m name of Some (TString s) \<Rightarrow> s | _ \<Rightarrow> [])"

definition validateStatusCredentialEntry :: "string \<Rightarrow> tval \<Rightarrow> bundle_error option" where
  "validateStatusCredentialEntry key raw =
     (case raw of
        TTable rawMap \<Rightarrow>
          (let resolver = string_field rawMap ''resolver''; label = credential_label key in
           case validateAllowedKeys rawMap entryAllowedKeys label of
             Some e \<Rightarrow> Some e
           | None \<Rightarrow>
               if key \<in> set sharedCredentialKeys \<and> map_of rawMap ''providers'' = None then Some (HookError (label @ ''.providers''))
               else if map_of rawMap ''source'' \<noteq> None \<and> resolver \<noteq> [] then Some (HookError label)
               else if resolver = [] then
                 (if map_of rawMap ''materialization'' \<noteq> None then Some (HookError (label @ ''.materialization''))
                  else if map_of rawMap ''source'' = None then Some (HookError label)
                  else None)
               else if \<not> ResolverSupported key resolver then Some (HookError (label @ ''.resolver''))
               else if map_of rawMap ''materialization'' \<noteq> None \<and> map_of rawMap ''materialization'' \<noteq> Some (TString ''ephemeral'')
               then Some (HookError (label @ ''.materialization''))
               else None)
      | _ \<Rightarrow> if key \<in> set sharedCredentialKeys then Some (HookError (credential_label key @ ''.providers'')) else None)"

definition credentialInputKind :: "tval \<Rightarrow> string" where
  "credentialInputKind raw =
     (case raw of TTable rawMap \<Rightarrow> if map_of rawMap ''resolver'' \<noteq> None then ''resolver'' else ''source'' | _ \<Rightarrow> ''source'')"

text \<open>
  The body of the two loops of \<open>selectedCredentials\<close>. Without an agent the providers are only validated.
  Go visits a map in any order; on success the order does not matter.
\<close>

definition select_entry :: "string \<Rightarrow> string \<Rightarrow> string \<Rightarrow> tval \<Rightarrow> (bundle_error, bool) result" where
  "select_entry agent mode key raw =
     (case validateStatusCredentialEntry key raw of
        Some e \<Rightarrow> Inl e
      | None \<Rightarrow>
          (case raw of
             TTable rawMap \<Rightarrow>
               (case (if agent = [] then
                        (case validateSelectorValues (map_of rawMap ''providers'') (credential_label key @ ''.providers'') AllProviders of
                           Some e \<Rightarrow> Inl e | None \<Rightarrow> Inr True)
                      else selectedFor (map_of rawMap ''providers'') agent (credential_label key @ ''.providers'') AllProviders) of
                  Inl e \<Rightarrow> Inl e
                | Inr named \<Rightarrow>
                    if \<not> named then Inr False
                    else selectedFor (map_of rawMap ''modes'') mode (credential_label key @ ''.modes'') SupportedModes)
           | _ \<Rightarrow> Inr True))"

fun select_loop :: "string \<Rightarrow> string \<Rightarrow> table \<Rightarrow> string list \<Rightarrow> (bundle_error, table) result" where
  "select_loop agent mode credentials [] = Inr []"
| "select_loop agent mode credentials (key # keys) =
     (case map_of credentials key of
        None \<Rightarrow> select_loop agent mode credentials keys
      | Some raw \<Rightarrow>
          (case select_entry agent mode key raw of
             Inl e \<Rightarrow> Inl e
           | Inr chosen \<Rightarrow>
               (case select_loop agent mode credentials keys of
                  Inl e \<Rightarrow> Inl e
                | Inr rest \<Rightarrow> Inr (if chosen then (key, raw) # rest else rest))))"

definition selectedCredentials :: "table \<Rightarrow> string \<Rightarrow> string \<Rightarrow> (bundle_error, table) result" where
  "selectedCredentials policy agent mode =
     (let credentials = get_table policy ''credentials'' in
      if agent = [] then select_loop agent mode credentials (map fst credentials)
      else select_loop agent mode credentials (sort_stable (<) (allowedCredentialsForAgent agent)))"


section \<open>The three selectors agree\<close>

text \<open>What a selector field says: an absent field admits everyone, a list admits its members.\<close>

definition field_admits :: "tval option \<Rightarrow> string \<Rightarrow> bool" where
  "field_admits vals v = (case vals of None \<Rightarrow> True | Some (TArr vs) \<Rightarrow> TString v \<in> set vs | Some _ \<Rightarrow> False)"

lemma selector_values_Inr:
  "selector_values vs label allowed = Inr parsed \<Longrightarrow> vs = map TString parsed \<and> set parsed \<subseteq> set allowed"
  by (induction vs arbitrary: parsed) (auto split: tval.splits if_splits sum.splits)

lemma selectedFor_Inr:
  assumes "selectedFor vals current label allowed = Inr b"
  shows "b = field_admits vals current"
    and "vals = None \<or> (\<exists>parsed. vals = Some (TArr (map TString parsed)) \<and> parsed \<noteq> [] \<and> set parsed \<subseteq> set allowed)"
  using assms
  by (auto simp: selectedFor_def selectorStrings_def field_admits_def
      split: option.splits tval.splits if_splits sum.splits dest!: selector_values_Inr)

lemma resolve_select_strings:
  "set ps \<subseteq> set allowed \<Longrightarrow> resolve_select (map TString ps) current label allowed = Inr (current \<in> set ps)"
  by (induction ps) auto

lemma render_select_strings:
  "set ps \<subseteq> set allowed \<Longrightarrow> render_select ps current label allowed = Inr (current \<in> set ps)"
  by (induction ps) auto

lemma stringSlice_strings: "stringSlice (map TString ps) label = Inr ps"
  by (induction ps) auto

lemma selectors_agree:
  assumes "selectedFor vals current label allowed = Inr b"
  shows "resolve_selectedFor vals current label allowed = Inr b" "render_selectedFor vals current label allowed = Inr b"
  using selectedFor_Inr [OF assms]
  by (auto simp: resolve_selectedFor_def render_selectedFor_def resolve_select_strings render_select_strings
      stringSlice_strings field_admits_def)

lemma resolve_select_Inr: "resolve_select vs current label allowed = Inr b \<Longrightarrow> b = (TString current \<in> set vs)"
  by (induction vs) (auto split: tval.splits if_splits)

lemma resolve_selectedFor_Inr: "resolve_selectedFor vals current label allowed = Inr b \<Longrightarrow> b = field_admits vals current"
  by (auto simp: resolve_selectedFor_def field_admits_def split: option.splits tval.splits if_splits dest: resolve_select_Inr)

lemma stringSlice_Inr: "stringSlice vs label = Inr items \<Longrightarrow> vs = map TString items"
  by (induction vs arbitrary: items) (auto split: tval.splits sum.splits)

lemma render_select_Inr: "render_select ss current label allowed = Inr b \<Longrightarrow> b = (current \<in> set ss)"
  by (induction ss) (auto split: if_splits)

lemma render_selectedFor_Inr: "render_selectedFor vals current label allowed = Inr b \<Longrightarrow> b = field_admits vals current"
  by (auto simp: render_selectedFor_def field_admits_def split: option.splits tval.splits sum.splits if_splits
      dest!: render_select_Inr stringSlice_Inr)

section \<open>What is selected\<close>

definition entry_admits :: "string \<Rightarrow> string \<Rightarrow> tval \<Rightarrow> bool" where
  "entry_admits agent mode raw =
     (case raw of
        TTable m \<Rightarrow> field_admits (map_of m ''providers'') agent \<and> field_admits (map_of m ''modes'') mode
      | _ \<Rightarrow> True)"

text \<open>A shared credential names the agents that may use it.\<close>

definition names_agent :: "string \<Rightarrow> tval \<Rightarrow> bool" where
  "names_agent agent raw = (\<exists>m vs. raw = TTable m \<and> map_of m ''providers'' = Some (TArr vs) \<and> TString agent \<in> set vs)"

lemma select_entry_Inr:
  assumes "select_entry agent mode key raw = Inr b" "agent \<noteq> []"
  shows "b = entry_admits agent mode raw"
  using assms
  by (auto simp: select_entry_def entry_admits_def split: option.splits tval.splits sum.splits if_splits dest: selectedFor_Inr(1))

lemma select_entry_shared:
  assumes "select_entry agent mode key raw = Inr True" "agent \<noteq> []" "key \<in> set sharedCredentialKeys"
  shows "names_agent agent raw"
proof -
  have v: "validateStatusCredentialEntry key raw = None" using assms(1) by (auto simp: select_entry_def split: option.splits)
  then obtain m where m: "raw = TTable m" using assms(3) by (cases raw) (auto simp: validateStatusCredentialEntry_def)
  then obtain w where w: "map_of m ''providers'' = Some w"
    using v assms(3) by (auto simp: validateStatusCredentialEntry_def Let_def split: option.splits if_splits)
  have "field_admits (Some w) agent" using select_entry_Inr [OF assms(1,2)] m w by (simp add: entry_admits_def)
  then show ?thesis using m w by (cases w) (auto simp: names_agent_def field_admits_def)
qed

lemma select_loop_Inr:
  assumes "select_loop agent mode credentials keys = Inr sel"
  shows "map_of sel k = Some raw \<longleftrightarrow>
    k \<in> set keys \<and> map_of credentials k = Some raw \<and> select_entry agent mode k raw = Inr True"
  using assms
proof (induction keys arbitrary: sel)
  case (Cons key keys)
  show ?case
  proof (cases "map_of credentials key")
    case None
    then show ?thesis using Cons by auto
  next
    case (Some r)
    then obtain b rest where "select_entry agent mode key r = Inr b" "select_loop agent mode credentials keys = Inr rest"
      "sel = (if b then (key, r) # rest else rest)"
      using Cons.prems by (auto split: sum.splits)
    then show ?thesis using Cons.IH [of rest] Some by (cases b; cases "key = k") auto
  qed
qed simp

lemma select_loop_accepts:
  "select_loop agent mode credentials keys = Inr sel \<Longrightarrow> k \<in> set keys \<Longrightarrow> map_of credentials k = Some raw \<Longrightarrow>
   is_ok (select_entry agent mode k raw)"
  by (induction keys arbitrary: sel) (auto split: option.splits sum.splits)

lemma selectedCredentials_iff:
  assumes "selectedCredentials policy agent mode = Inr sel" "agent \<noteq> []"
  shows "map_of sel k = Some raw \<longleftrightarrow>
    credentialAllowedForAgent agent k \<and> map_of (get_table policy ''credentials'') k = Some raw \<and> entry_admits agent mode raw"
    and "map_of sel k = Some raw \<Longrightarrow> select_entry agent mode k raw = Inr True"
proof -
  let ?cs = "get_table policy ''credentials''"
  have l: "select_loop agent mode ?cs (sort_stable (<) (allowedCredentialsForAgent agent)) = Inr sel"
    using assms by (simp add: selectedCredentials_def)
  note sel = select_loop_Inr [OF l, of k raw]
  have "select_entry agent mode k raw = Inr True \<longleftrightarrow> entry_admits agent mode raw"
    if "k \<in> set (allowedCredentialsForAgent agent)" "map_of ?cs k = Some raw"
    using select_loop_accepts [OF l, of k raw] that select_entry_Inr [OF _ assms(2)] by (cases "select_entry agent mode k raw") auto
  then show "map_of sel k = Some raw \<longleftrightarrow>
      credentialAllowedForAgent agent k \<and> map_of ?cs k = Some raw \<and> entry_admits agent mode raw"
    using sel by (auto simp: credentialAllowedForAgent_def)
  show "map_of sel k = Some raw \<Longrightarrow> select_entry agent mode k raw = Inr True" using sel by blast
qed

section \<open>Properties\<close>

text \<open>
  C19: the selection of credentials is exact and least-privilege. When the policy is accepted for an agent and
  a mode, the selected credentials are exactly those that the registry entitles the agent to and whose entry
  admits the agent and the mode; a shared credential is selected only if its entry names the agent.
\<close>

theorem selectedCredentials_exact:
  assumes "selectedCredentials policy agent mode = Inr sel" "agent \<noteq> []"
  shows "(map_of sel k = Some raw) =
      (credentialAllowedForAgent agent k \<and> map_of (get_table policy ''credentials'') k = Some raw \<and> entry_admits agent mode raw) \<and>
    (k \<in> set sharedCredentialKeys \<and> map_of sel k = Some raw \<longrightarrow> names_agent agent raw)"
  using selectedCredentials_iff [OF assms] select_entry_shared [OF _ assms(2)] by blast

definition select_policy :: table where
  "select_policy =
     [(''version'', TInt 1),
      (''credentials'', TTable
         [(''codex_auth'', TString ''/s/auth.json''),
          (''github_hosts'', TTable [(''source'', TString ''/s/hosts.yml''), (''providers'', TArr [TString ''claude''])]),
          (''claude_api_key'', TTable [(''resolver'', TString ''keychain-broker''), (''modes'', TArr [TString ''strict''])])])]"

definition hosts_entry :: tval where
  "hosts_entry = TTable [(''source'', TString ''/s/hosts.yml''), (''providers'', TArr [TString ''claude''])]"

theorem selectedCredentials_exact_witness:
  "\<exists>sel. selectedCredentials select_policy ''claude'' ''strict'' = Inr sel \<and> map fst sel = [''claude_api_key'', ''github_hosts''] \<and>
     map_of sel ''github_hosts'' = Some hosts_entry \<and> names_agent ''claude'' hosts_entry"
proof -
  have "map_sum id (map fst) (selectedCredentials select_policy ''claude'' ''strict'') = Inr [''claude_api_key'', ''github_hosts'']"
    by code_simp
  then obtain sel where sel: "selectedCredentials select_policy ''claude'' ''strict'' = Inr sel"
      "map fst sel = [''claude_api_key'', ''github_hosts'']"
    by (cases "selectedCredentials select_policy ''claude'' ''strict''") auto
  have "credentialAllowedForAgent ''claude'' ''github_hosts''" "''github_hosts'' \<in> set sharedCredentialKeys"
      "entry_admits ''claude'' ''strict'' hosts_entry"
      "map_of (get_table select_policy ''credentials'') ''github_hosts'' = Some hosts_entry"
    by code_simp+
  then show ?thesis
    using sel selectedCredentials_exact [OF sel(1), of "''github_hosts''" hosts_entry] by (intro exI [of _ sel]) simp
qed

end
