(* ===== verification/Authstate.thy ===== *)
theory Authstate
  imports Policy_File Go_Runes
begin

text \<open>
  The guard that keeps the host's own provider state out of a session: \<open>src/internal/host/authstate/authstate.go\<close>
  over the path comparison of \<open>src/internal/pathutil/identity.go\<close>. \<open>nfc\<close> and \<open>foldCase\<close> are \<open>norm.NFC.String\<close> and
  \<open>cases.Fold().String\<close> of \<open>golang.org/x/text\<close>; the lemmas only use that they leave a leading slash in place.
\<close>

section \<open>Path identity\<close>

text \<open>\<open>filepath.Rel\<close>: it fails when one path is rooted and the other is not, or the base has to be left by an unknown element.\<close>

definition filepath_Rel :: "string \<Rightarrow> string \<Rightarrow> string option" where
  "filepath_Rel base targ =
     (if Clean base = Clean targ then Some ''.''
      else if IsAbs base \<noteq> IsAbs targ then None
      else case strip_common (elems base) (elems targ) of
        (bs, ts) \<Rightarrow> if bs \<noteq> [] \<and> hd bs = ''..'' then None else Some (join ''/'' (replicate (length bs) ''..'' @ ts)))"

definition unsafe_rune :: "rune \<Rightarrow> bool" where
  "unsafe_rune r \<longleftrightarrow> r < 0x20 \<or> 0x7f \<le> r \<and> r < 0xa0 \<or> r = 0x2028 \<or> r = 0x2029"

record text_ops =
  nfc :: "string \<Rightarrow> string"
  foldCase :: "string \<Rightarrow> string"

definition normalizePath :: "text_ops \<Rightarrow> string \<Rightarrow> bool \<Rightarrow> string option" where
  "normalizePath ops path caseInsensitive =
     (if path = [] then None
      else if \<not> ValidString path then None
      else if list_ex unsafe_rune (runes path) then None
      else
        (let normalized = nfc ops (Clean path) in
         Some (if caseInsensitive then nfc ops (foldCase ops normalized) else normalized)))"

definition WithinOrEqual :: "text_ops \<Rightarrow> string \<Rightarrow> string \<Rightarrow> bool \<Rightarrow> bool option" where
  "WithinOrEqual ops root candidate caseInsensitive =
     (case (normalizePath ops root caseInsensitive, normalizePath ops candidate caseInsensitive) of
        (Some r, Some c) \<Rightarrow>
          map_option (\<lambda>rel. rel = ''.'' \<or> rel \<noteq> ''..'' \<and> \<not> IsAbs rel \<and> \<not> HasPrefix rel ''../'') (filepath_Rel r c)
      | _ \<Rightarrow> None)"

section \<open>Protected state\<close>

definition forbiddenCredentialSourceRoots :: "string list" where
  "forbiddenCredentialSourceRoots =
     [''.codex'', ''.claude'', ''.claude.json'', ''.copilot'', ''.gemini'', ''.config/claude-code'', ''.config/gh'',
      ''.config/gcloud'', ''.config/git'', ''.config/github-copilot'', ''.config/op'', ''.cache/github-copilot'',
      ''.ssh'', ''.aws'', ''.docker'', ''.kube'', ''.gnupg'', ''.git-credentials'', ''.mcp.json'', ''.netrc'',
      ''Library/Keychains'']"

definition protected_root :: "string \<Rightarrow> string \<Rightarrow> string" where
  "protected_root home rel = Clean (Join [home, rel])"

text \<open>The loop over the roots; the outer option is an error. \<open>within\<close> compares a root with the source.\<close>

fun first_root :: "(string \<Rightarrow> bool option) \<Rightarrow> string list \<Rightarrow> string option option" where
  "first_root within [] = Some None"
| "first_root within (root # roots) =
     (case within root of None \<Rightarrow> None | Some True \<Rightarrow> Some (Some root) | Some False \<Rightarrow> first_root within roots)"

definition forbiddenCredentialSourceRoot ::
  "text_ops \<Rightarrow> string option \<Rightarrow> string \<Rightarrow> string \<Rightarrow> bool \<Rightarrow> string option option" where
  "forbiddenCredentialSourceRoot ops wd source home caseInsensitive =
     (case (filepath_Abs wd home, filepath_Abs wd source) of
        (Some h, Some s) \<Rightarrow>
          first_root (\<lambda>root. WithinOrEqual ops root (Clean s) caseInsensitive)
            (map (protected_root h) forbiddenCredentialSourceRoots)
      | _ \<Rightarrow> None)"

definition forbiddenCredentialDirectorySourceRoot ::
  "text_ops \<Rightarrow> string option \<Rightarrow> string \<Rightarrow> string \<Rightarrow> bool \<Rightarrow> string option option" where
  "forbiddenCredentialDirectorySourceRoot ops wd source home caseInsensitive =
     (case (filepath_Abs wd home, filepath_Abs wd source) of
        (Some h, Some s) \<Rightarrow>
          first_root (\<lambda>root. WithinOrEqual ops (Clean s) root caseInsensitive)
            (map (protected_root h) forbiddenCredentialSourceRoots)
      | _ \<Rightarrow> None)"

definition ForbiddenCredentialSourceRoot :: "text_ops \<Rightarrow> path_env \<Rightarrow> string \<Rightarrow> string option option" where
  "ForbiddenCredentialSourceRoot ops env source =
     (case pe_home env of
        None \<Rightarrow> None
      | Some home \<Rightarrow>
          if home = [] then None
          else forbiddenCredentialSourceRoot ops (pe_cwd env) source home (pe_darwin env))"

definition ForbiddenCredentialDirectorySourceRoot :: "text_ops \<Rightarrow> path_env \<Rightarrow> string \<Rightarrow> string option option" where
  "ForbiddenCredentialDirectorySourceRoot ops env source =
     (case pe_home env of
        None \<Rightarrow> None
      | Some home \<Rightarrow>
          if home = [] then None
          else forbiddenCredentialDirectorySourceRoot ops (pe_cwd env) source home (pe_darwin env))"

definition RejectCredentialSource :: "text_ops \<Rightarrow> path_env \<Rightarrow> string \<Rightarrow> string \<Rightarrow> bundle_error option" where
  "RejectCredentialSource ops env source label =
     (if ForbiddenCredentialSourceRoot ops env source = Some None then None else Some (HookError label))"

definition RejectCredentialDirectorySource :: "text_ops \<Rightarrow> path_env \<Rightarrow> string \<Rightarrow> string \<Rightarrow> bundle_error option" where
  "RejectCredentialDirectorySource ops env source label =
     (if ForbiddenCredentialDirectorySourceRoot ops env source = Some None then None else Some (HookError label))"

section \<open>What the guard compares\<close>

definition slash_preserving :: "text_ops \<Rightarrow> bool" where
  "slash_preserving ops \<longleftrightarrow> (\<forall>p. IsAbs (nfc ops p) = IsAbs p) \<and> (\<forall>p. IsAbs (foldCase ops p) = IsAbs p)"

lemma normalizePath_abs:
  assumes "slash_preserving ops" "normalizePath ops p ci = Some q" "IsAbs p"
  shows "IsAbs q"
proof -
  have "q = (if ci then nfc ops (foldCase ops (nfc ops (Clean p))) else nfc ops (Clean p))"
    using assms(2) unfolding normalizePath_def Let_def by (metis option.distinct(1) option.inject)
  moreover have "IsAbs (nfc ops x) = IsAbs x" "IsAbs (foldCase ops x) = IsAbs x" for x
    using assms(1) by (simp_all add: slash_preserving_def)
  ultimately show ?thesis using IsAbs_Clean [OF assms(3)] by simp
qed

lemma strip_common_append: "strip_common bs (bs @ r) = ([], r)"
  by (induction bs) simp_all

lemma join_plain_inside:
  assumes "list_all plain r" "r \<noteq> []"
  shows "join ''/'' r \<noteq> ''..''" "\<not> IsAbs (join ''/'' r)" "\<not> HasPrefix (join ''/'' r) ''../''"
proof -
  obtain e es where r: "r = e # es" using assms(2) by (cases r) auto
  then have e: "plain e" using assms(1) by simp
  have j: "join ''/'' r = e @ (if es = [] then [] else SLASH # join ''/'' es)" using r by (cases es) auto
  show "\<not> IsAbs (join ''/'' r)" using e j by (cases e) (auto simp: plain_def IsAbs_def)
  show "join ''/'' r \<noteq> ''..''" using e j by (cases "es = []") (auto simp: plain_def append_eq_Cons_conv)
  show "\<not> HasPrefix (join ''/'' r) ''../''"
    using e j by (auto simp: plain_def HasPrefix_append append_eq_append_conv2 append_eq_Cons_conv Cons_eq_append_conv)
qed

lemma strip_common_suffix: "strip_common xs ys = (bs, ts) \<Longrightarrow> suffix bs xs \<and> suffix ts ys"
  by (induction xs ys rule: strip_common.induct) (auto split: if_splits intro: suffix_ConsI)

lemma filepath_Rel_abs:
  assumes "IsAbs base" "IsAbs targ"
  shows "filepath_Rel base targ = Some (rel_abs base targ)"
proof -
  obtain bs ts where st: "strip_common (elems base) (elems targ) = (bs, ts)" by fastforce
  then have "set bs \<subseteq> set (elems base)" using strip_common_suffix set_mono_suffix by blast
  then have "hd bs \<noteq> ''..''" if "bs \<noteq> []"
    using elems_plain [OF assms(1)] hd_in_set [OF that] unfolding list_all_iff plain_def by blast
  then have "\<not> (bs \<noteq> [] \<and> hd bs = ''..'')" by blast
  then show ?thesis using assms st by (auto simp: filepath_Rel_def rel_abs_def)
qed

lemma WithinOrEqual_iff:
  assumes "slash_preserving ops" "IsAbs root" "IsAbs candidate"
  shows "WithinOrEqual ops root candidate ci =
    (case (normalizePath ops root ci, normalizePath ops candidate ci) of
       (Some r, Some c) \<Rightarrow> Some (prefix (elems r) (elems c)) | _ \<Rightarrow> None)"
proof -
  have "(rel_abs r c = ''.'' \<or> rel_abs r c \<noteq> ''..'' \<and> \<not> IsAbs (rel_abs r c) \<and> \<not> HasPrefix (rel_abs r c) ''../'') =
      prefix (elems r) (elems c)" if a: "IsAbs r" "IsAbs c" for r c
  proof
    assume "rel_abs r c = ''.'' \<or> rel_abs r c \<noteq> ''..'' \<and> \<not> IsAbs (rel_abs r c) \<and> \<not> HasPrefix (rel_abs r c) ''../''"
    then show "prefix (elems r) (elems c)" using rel_abs_within [OF a] by auto
  next
    assume "prefix (elems r) (elems c)"
    then obtain t where t: "elems c = elems r @ t" by (auto simp: prefix_def)
    then have "list_all plain t" using elems_plain [OF a(2)] by simp
    moreover have "t = [] \<Longrightarrow> Clean r = Clean c" using t a by (simp add: Clean_abs)
    ultimately show "rel_abs r c = ''.'' \<or> rel_abs r c \<noteq> ''..'' \<and> \<not> IsAbs (rel_abs r c) \<and> \<not> HasPrefix (rel_abs r c) ''../''"
      using t join_plain_inside by (auto simp: rel_abs_def strip_common_append)
  qed
  then show ?thesis
    using normalizePath_abs [OF assms(1)] assms(2,3) by (auto simp: WithinOrEqual_def filepath_Rel_abs split: option.splits)
qed

text \<open>A source is outside a root: both have an identity, and the elements of the root are no prefix of those of the source.\<close>

definition outside :: "text_ops \<Rightarrow> bool \<Rightarrow> string \<Rightarrow> string \<Rightarrow> bool" where
  "outside ops ci root source =
     (case (normalizePath ops root ci, normalizePath ops source ci) of
        (Some r, Some s) \<Rightarrow> \<not> prefix (elems r) (elems s) | _ \<Rightarrow> False)"

lemma first_root_None: "first_root within roots = Some None \<longleftrightarrow> list_all (\<lambda>root. within root = Some False) roots"
  by (induction roots) (auto split: option.splits bool.splits)

lemma protected_root_abs: "IsAbs home \<Longrightarrow> IsAbs (protected_root home rel)"
  by (simp add: protected_root_def IsAbs_Clean IsAbs_Join)

section \<open>Properties\<close>

text \<open>
  C21: the guard on credential sources is exact. For a host with a home directory, a source is admitted exactly
  when its identity lies neither at nor below any of the protected directories of the home.
\<close>

theorem RejectCredentialSource_exact:
  assumes "slash_preserving ops" "pe_home env = Some home" "IsAbs home" "IsAbs source"
  shows "RejectCredentialSource ops env source label = None \<longleftrightarrow>
    list_all (\<lambda>rel. outside ops (pe_darwin env) (protected_root (Clean home) rel) (Clean source)) forbiddenCredentialSourceRoots"
proof -
  have h: "home \<noteq> []" using assms(3) by (auto simp: IsAbs_def)
  have "WithinOrEqual ops (protected_root (Clean home) rel) (Clean source) (pe_darwin env) = Some False \<longleftrightarrow>
      outside ops (pe_darwin env) (protected_root (Clean home) rel) (Clean source)" for rel
    using WithinOrEqual_iff [OF assms(1) protected_root_abs [OF IsAbs_Clean [OF assms(3)]] IsAbs_Clean [OF assms(4)]]
    by (auto simp: outside_def split: option.splits)
  then show ?thesis using assms(2-4) h
    by (simp add: RejectCredentialSource_def ForbiddenCredentialSourceRoot_def forbiddenCredentialSourceRoot_def
        filepath_Abs_def first_root_None list.pred_map comp_def Clean_idem)
qed

definition plain_ops :: text_ops where
  "plain_ops = \<lparr>nfc = (\<lambda>s. s), foldCase = (\<lambda>s. s)\<rparr>"

definition linux_host :: path_env where
  "linux_host =
     \<lparr>pe_home = Some ''/home/u'', pe_user = (\<lambda>_. None), pe_cwd = Some ''/w'', pe_darwin = False, pe_lstat = (\<lambda>_. Some False),
      pe_stat = (\<lambda>_. Some True), pe_eval = Some\<rparr>"

theorem RejectCredentialSource_exact_witness:
  "RejectCredentialSource plain_ops linux_host ''/home/u/keys/a.txt'' ''l'' = None \<and>
   list_all (\<lambda>rel. outside plain_ops False (protected_root ''/home/u'' rel) ''/home/u/keys/a.txt'') forbiddenCredentialSourceRoots \<and>
   RejectCredentialSource plain_ops linux_host ''/home/u/x/../.ssh/id'' ''l'' \<noteq> None"
proof -
  have env: "slash_preserving plain_ops" "pe_home linux_host = Some ''/home/u''" "pe_darwin linux_host = False"
    by (simp_all add: slash_preserving_def plain_ops_def linux_host_def)
  have abs: "IsAbs ''/home/u''" "IsAbs ''/home/u/keys/a.txt''" "Clean ''/home/u'' = ''/home/u''"
    "Clean ''/home/u/keys/a.txt'' = ''/home/u/keys/a.txt''"
    by code_simp+
  have "RejectCredentialSource plain_ops linux_host ''/home/u/keys/a.txt'' ''l'' = None"
    "RejectCredentialSource plain_ops linux_host ''/home/u/x/../.ssh/id'' ''l'' \<noteq> None" by code_simp+
  then show ?thesis using RejectCredentialSource_exact [OF env(1,2) abs(1,2), of "''l''"] env(3) abs(3,4) by simp
qed

end
