(* ===== verification/Credential_Resolve.thy ===== *)
theory Credential_Resolve
  imports Credential_Select Authstate Policy_Render
begin

text \<open>
  The resolver that runs before a launch: \<open>src/internal/authresolve/resolve_credential_sources.go\<close>,
  \<open>resolve_provider_credentials.go\<close>, \<open>resolve_path_security.go\<close> and \<open>resolve_policy_render.go\<close>. It replaces every
  selected entry with a resolver by an entry with a source below the output directory, and writes there what the agent may
  see: for a brokered key a placeholder. The policy is a loaded bundle.
\<close>

section \<open>The host\<close>

text \<open>
  \<open>he_secret\<close> is the content of a file that \<open>secretfile.Open\<close> admits, \<open>he_statError\<close> tells a failure of \<open>os.Stat\<close> from
  an absent file, \<open>he_write\<close> is whether an atomic write to a path succeeds, \<open>he_export\<close> the test variable for the export of a
  login.
\<close>

record host_env = path_env +
  he_text :: text_ops
  he_secret :: "string \<Rightarrow> string option"
  he_isDir :: "string \<Rightarrow> bool"
  he_statError :: "string \<Rightarrow> bool"
  he_write :: "string \<Rightarrow> bool"
  he_export :: string

definition expandUser :: "'a path_env_scheme \<Rightarrow> string \<Rightarrow> string option" where
  "expandUser env raw =
     (if raw = ''~'' then pe_home env
      else if HasPrefix raw ''~/'' then map_option (\<lambda>home. Join [home, drop 2 raw]) (pe_home env)
      else if \<not> HasPrefix raw ''~'' then Some raw
      else
        (let (userName, remainder) = (case cut SLASH (tl raw) of None \<Rightarrow> (tl raw, []) | Some (u, rest) \<Rightarrow> (u, rest)) in
         case (if userName = [] then pe_home env else pe_user env userName) of
           None \<Rightarrow> None
         | Some home \<Rightarrow> Some (if remainder = [] then home else Join [home, remainder])))"

definition resolve_expandHostPath :: "'a path_env_scheme \<Rightarrow> string \<Rightarrow> string \<Rightarrow> string" where
  "resolve_expandHostPath env raw base =
     (let expanded = (if HasPrefix raw ''~'' then (case expandUser env raw of None \<Rightarrow> raw | Some home \<Rightarrow> home) else raw);
          rooted = (if IsAbs expanded then expanded else Join [base, expanded]) in
      case filepath_Abs (pe_cwd env) rooted of None \<Rightarrow> Clean rooted | Some p \<Rightarrow> p)"

text \<open>The loop of \<open>requireNoSymlinkInPathChain\<close> in this package: every ancestor has to exist.\<close>

fun lstat_walk :: "'a path_env_scheme \<Rightarrow> nat \<Rightarrow> string \<Rightarrow> bool" where
  "lstat_walk env 0 current = False"
| "lstat_walk env (Suc fuel) current =
     (case pe_lstat env current of
        None \<Rightarrow> False
      | Some link \<Rightarrow>
          if link \<and> current \<notin> set (systemSymlinkAllowlist (pe_darwin env)) then False
          else if Dir current = current then True
          else lstat_walk env fuel (Dir current))"

definition resolve_requireNoSymlink :: "'a path_env_scheme \<Rightarrow> string \<Rightarrow> string \<Rightarrow> bundle_error option" where
  "resolve_requireNoSymlink env path label =
     (if lstat_walk env (Suc (length path)) path then None else Some (HookError label))"

definition cwd :: "'a path_env_scheme \<Rightarrow> string" where
  "cwd env = (case pe_cwd env of None \<Rightarrow> ''.'' | Some wd \<Rightarrow> wd)"

definition resolve_validateSourcePath :: "host_env \<Rightarrow> tval \<Rightarrow> string \<Rightarrow> string \<Rightarrow> (bundle_error, string) result" where
  "resolve_validateSourcePath env raw label base =
     (case raw of
        TString s \<Rightarrow>
          if s = [] then Inl (HookError label)
          else
            (let source = resolve_expandHostPath env s base in
             if pe_stat env source = None then Inl (HookError label)
             else
               (case resolve_requireNoSymlink env source label of
                  Some e \<Rightarrow> Inl e
                | None \<Rightarrow>
                    (case RejectCredentialSource (he_text env) (path_env.truncate env) source label of
                       Some e \<Rightarrow> Inl e
                     | None \<Rightarrow> Inr source)))
      | _ \<Rightarrow> Inl (HookError label))"

definition requireSecretFile :: "host_env \<Rightarrow> string \<Rightarrow> string \<Rightarrow> bundle_error option" where
  "requireSecretFile env source label = (if he_secret env source = None then Some (HookError label) else None)"

section \<open>Resolvers\<close>

text \<open>A resolver gives the state that it reports and the content that it writes below the output directory.\<close>

type_synonym resolution = "string \<times> string"

definition quoted :: "string \<Rightarrow> string" where
  "quoted s = DQUOTE # s @ [DQUOTE]"

definition placeholder_text :: "string \<Rightarrow> string" where
  "placeholder_text resolver =
     ''{'' @ quoted ''resolver'' @ '': '' @ quoted resolver @ '', '' @ quoted ''workcell'' @ '': '' @ quoted ''metadata-only'' @ ''}'' @ [NL]"

definition codexHomeAuthFilePath :: "'a path_env_scheme \<Rightarrow> string" where
  "codexHomeAuthFilePath env =
     (case pe_home env of None \<Rightarrow> Join [''.codex'', ''auth.json''] | Some home \<Rightarrow> Join [home, ''.codex'', ''auth.json''])"

definition findCodexHomeAuthFile :: "host_env \<Rightarrow> (bundle_error, string option) result" where
  "findCodexHomeAuthFile env =
     (let source = codexHomeAuthFilePath env; label = ''credentials.codex_auth'' in
      if pe_stat env source = None then (if he_statError env source then Inl (HookError label) else Inr None)
      else if he_isDir env source then Inl (HookError label)
      else
        (case resolve_requireNoSymlink env source label of
           Some e \<Rightarrow> Inl e
         | None \<Rightarrow>
             (case requireSecretFile env source label of
                Some e \<Rightarrow> Inl e
              | None \<Rightarrow> Inr (Some source))))"

definition probeCodexHomeAuthFile :: "host_env \<Rightarrow> (bundle_error, string) result" where
  "probeCodexHomeAuthFile env =
     (case findCodexHomeAuthFile env of
        Inl e \<Rightarrow> Inl e
      | Inr found \<Rightarrow> Inr (if found = None then ''configured-only'' else ''host-source''))"

definition ProbeResolverReadiness :: "host_env \<Rightarrow> string \<Rightarrow> string \<Rightarrow> (bundle_error, string) result" where
  "ProbeResolverReadiness env key resolverName =
     (if key = ''codex_auth'' \<and> resolverName = ''codex-home-auth-file'' then probeCodexHomeAuthFile env
      else if key = ''claude_auth'' \<and> resolverName = ''claude-macos-keychain'' then Inr ''configured-only''
      else if resolverName = BrokerResolver \<and> ResolverSupported key resolverName then Inr ''host-source''
      else Inl (HookError key))"

definition materialize :: "host_env \<Rightarrow> string \<Rightarrow> string \<Rightarrow> (bundle_error, resolution) result" where
  "materialize env source label =
     (case he_secret env source of None \<Rightarrow> Inl (HookError label) | Some content \<Rightarrow> Inr (''resolved'', content))"

definition resolveCodexHomeAuthFile :: "host_env \<Rightarrow> string \<Rightarrow> (bundle_error, resolution) result" where
  "resolveCodexHomeAuthFile env resolutionMode =
     (case findCodexHomeAuthFile env of
        Inl e \<Rightarrow> Inl e
      | Inr (Some source) \<Rightarrow>
          if resolutionMode = ''metadata'' then Inr (''host-source'', placeholder_text ''codex-home-auth-file'')
          else materialize env source ''credentials.codex_auth''
      | Inr None \<Rightarrow>
          if resolutionMode = ''metadata'' then Inr (''configured-only'', placeholder_text ''codex-home-auth-file'')
          else Inl (HookError ''credentials.codex_auth''))"

definition testClaudeExportEnv :: string where
  "testClaudeExportEnv = ''WORKCELL_TEST_CLAUDE_KEYCHAIN_EXPORT_FILE''"

definition resolveClaudeMacosKeychain :: "host_env \<Rightarrow> string \<Rightarrow> (bundle_error, resolution) result" where
  "resolveClaudeMacosKeychain env resolutionMode =
     (if he_export env \<noteq> [] then
        (case resolve_validateSourcePath env (TString (he_export env)) testClaudeExportEnv (cwd env) of
           Inl e \<Rightarrow> Inl e
         | Inr source \<Rightarrow>
             (case requireSecretFile env source testClaudeExportEnv of
                Some e \<Rightarrow> Inl e
              | None \<Rightarrow> materialize env source testClaudeExportEnv))
      else if resolutionMode = ''metadata'' then Inr (''configured-only'', placeholder_text ''claude-macos-keychain'')
      else Inl (HookError ''credentials.claude_auth''))"

definition zero_placeholder :: string where
  "zero_placeholder = ''wcph-'' @ replicate 32 (CHR ''0'')"

definition placeholder_content :: "string \<Rightarrow> string \<Rightarrow> string" where
  "placeholder_content key placeholder =
     (if key = ''gemini_env'' then ''GEMINI_API_KEY='' @ placeholder @ [NL]
      else if key = ''codex_auth'' then ''{'' @ quoted ''OPENAI_API_KEY'' @ '':'' @ quoted placeholder @ ''}'' @ [NL]
      else placeholder @ [NL])"

definition resolveBrokerPlaceholder :: "string \<Rightarrow> string \<Rightarrow> string \<Rightarrow> (bundle_error, resolution) result" where
  "resolveBrokerPlaceholder key resolutionMode placeholder =
     (if placeholder = [] \<and> resolutionMode \<noteq> ''metadata'' then Inl (HookError (credential_label key))
      else Inr (''resolved'', placeholder_content key (if placeholder = [] then zero_placeholder else placeholder)))"

definition resolveCredential ::
  "host_env \<Rightarrow> string \<Rightarrow> string \<Rightarrow> string \<Rightarrow> string \<Rightarrow> string \<Rightarrow> (bundle_error, resolution) result" where
  "resolveCredential env key resolverName destination resolutionMode placeholder =
     (case (if resolverName = BrokerResolver then resolveBrokerPlaceholder key resolutionMode placeholder
            else if key = ''codex_auth'' \<and> resolverName = ''codex-home-auth-file'' then resolveCodexHomeAuthFile env resolutionMode
            else if key = ''claude_auth'' \<and> resolverName = ''claude-macos-keychain'' then resolveClaudeMacosKeychain env resolutionMode
            else Inl (HookError (credential_label key))) of
        Inl e \<Rightarrow> Inl e
      | Inr r \<Rightarrow> if he_write env destination then Inr r else Inl (HookError destination))"

section \<open>The loop over the entries\<close>

record config =
  cf_agent :: string
  cf_mode :: string
  cf_resolutionMode :: string
  cf_outputRoot :: string
  cf_placeholder :: string

record resolver_metadata =
  md_inputKinds :: "(string \<times> string) list"
  md_resolvers :: "(string \<times> string) list"
  md_materialization :: "(string \<times> string) list"
  md_states :: "(string \<times> string) list"
  md_providerReady :: "(string \<times> string) list"
  md_sharedReady :: "(string \<times> string) list"
  md_broker :: bool

text \<open>\<open>rs_files\<close> is what has been written below the output directory, by path.\<close>

record resolver_state =
  rs_credentials :: table
  rs_metadata :: resolver_metadata
  rs_files :: "(string \<times> string) list"

definition recordAuthReadyState :: "string \<Rightarrow> string \<Rightarrow> resolver_metadata \<Rightarrow> resolver_metadata" where
  "recordAuthReadyState key state m =
     (if key \<in> set sharedCredentialKeys then m\<lparr>md_sharedReady := AList.update key state (md_sharedReady m)\<rparr>
      else m\<lparr>md_providerReady := AList.update key state (md_providerReady m)\<rparr>)"

definition authReadyStateForResolution :: "string \<Rightarrow> string" where
  "authReadyStateForResolution state =
     (if state \<in> {''resolved'', ''source'', ''host-source''} then ''ready'' else state)"

definition selectedCredentialKeys :: "string \<Rightarrow> string list" where
  "selectedCredentialKeys agent =
     sort_stable (<) ((if SharedCredentialsApplyToAgent agent then sharedCredentialKeys else []) @ scoped_keys agent)"

definition record_source :: "string \<Rightarrow> resolver_state \<Rightarrow> resolver_state" where
  "record_source key st =
     (let m = rs_metadata st in
      st\<lparr>rs_metadata := recordAuthReadyState key ''ready''
           (m\<lparr>md_inputKinds := AList.update key ''source'' (md_inputKinds m),
              md_states := AList.update key ''source'' (md_states m)\<rparr>)\<rparr>)"

definition filter_entry :: "string \<Rightarrow> string \<Rightarrow> string \<Rightarrow> resolver_state \<Rightarrow> resolver_state" where
  "filter_entry key reason resolverName st =
     st\<lparr>rs_metadata := recordAuthReadyState key reason (rs_metadata st),
        rs_credentials := (if resolverName \<noteq> [] then AList.delete key (rs_credentials st) else rs_credentials st)\<rparr>"

definition source_entry :: "host_env \<Rightarrow> string \<Rightarrow> tval option \<Rightarrow> resolver_state \<Rightarrow> (bundle_error, resolver_state) result" where
  "source_entry env key raw st =
     (case raw of
        None \<Rightarrow> Inl (HookError (credential_label key))
      | Some v \<Rightarrow>
          (case resolve_validateSourcePath env v (credential_label key) (cwd env) of
             Inl e \<Rightarrow> Inl e
           | Inr source \<Rightarrow>
               (case requireSecretFile env source (credential_label key) of
                  Some e \<Rightarrow> Inl e
                | None \<Rightarrow> Inr (record_source key st))))"

definition destination_of :: "config \<Rightarrow> string \<Rightarrow> string" where
  "destination_of cfg key = Join [cf_outputRoot cfg, Join [''resolved'', ''credentials'', key @ ''.json'']]"

definition supportedMaterialization :: "string list" where
  "supportedMaterialization = [''ephemeral'', ''persistent'']"

definition resolver_entry ::
  "host_env \<Rightarrow> config \<Rightarrow> string \<Rightarrow> table \<Rightarrow> string \<Rightarrow> resolver_state \<Rightarrow> (bundle_error, resolver_state) result" where
  "resolver_entry env cfg key rawMap resolverName st =
     (if \<not> ResolverSupported key resolverName then Inl (HookError (credential_label key @ ''.resolver''))
      else
        (let raw = string_field rawMap ''materialization''; materialization = (if raw = [] then ''ephemeral'' else raw) in
         if materialization \<notin> set supportedMaterialization then Inl (HookError (credential_label key @ ''.materialization''))
         else if materialization \<noteq> ''ephemeral'' then Inl (HookError (credential_label key @ ''.materialization''))
         else
           (case resolveCredential env key resolverName (destination_of cfg key) (cf_resolutionMode cfg) (cf_placeholder cfg) of
              Inl e \<Rightarrow> Inl e
            | Inr (state, content) \<Rightarrow>
                (let m = rs_metadata st;
                     rewritten = AList.update ''source'' (TString (destination_of cfg key))
                       (AList.delete ''materialization'' (AList.delete ''resolver'' rawMap)) in
                 Inr (st\<lparr>rs_credentials := AList.update key (TTable rewritten) (rs_credentials st),
                         rs_files := AList.update (destination_of cfg key) content (rs_files st),
                         rs_metadata := recordAuthReadyState key (authReadyStateForResolution state)
                           (m\<lparr>md_inputKinds := AList.update key ''resolver'' (md_inputKinds m),
                              md_resolvers := AList.update key resolverName (md_resolvers m),
                              md_materialization := AList.update key materialization (md_materialization m),
                              md_states := AList.update key state (md_states m)\<rparr>)\<rparr>)))))"

definition resolve_entry ::
  "host_env \<Rightarrow> config \<Rightarrow> string \<Rightarrow> tval \<Rightarrow> resolver_state \<Rightarrow> (bundle_error, resolver_state) result" where
  "resolve_entry env cfg key raw st =
     (case raw of
        TTable rawMap \<Rightarrow>
          (let label = credential_label key; resolverName = string_field rawMap ''resolver'' in
           case validateAllowedKeys rawMap entryAllowedKeys label of
             Some e \<Rightarrow> Inl e
           | None \<Rightarrow>
               if key \<in> set sharedCredentialKeys \<and> map_of rawMap ''providers'' = None then Inl (HookError (label @ ''.providers''))
               else
                 (case resolve_selectedFor (map_of rawMap ''providers'') (cf_agent cfg) (label @ ''.providers'') AllProviders of
                    Inl e \<Rightarrow> Inl e
                  | Inr False \<Rightarrow> Inr (filter_entry key ''filtered-provider'' resolverName st)
                  | Inr True \<Rightarrow>
                      (case resolve_selectedFor (map_of rawMap ''modes'') (cf_mode cfg) (label @ ''.modes'') SupportedModes of
                         Inl e \<Rightarrow> Inl e
                       | Inr False \<Rightarrow> Inr (filter_entry key ''filtered-mode'' resolverName st)
                       | Inr True \<Rightarrow>
                           if map_of rawMap ''source'' \<noteq> None \<and> resolverName \<noteq> [] then Inl (HookError label)
                           else if map_of rawMap ''source'' = None \<and> resolverName = [] then Inl (HookError label)
                           else if resolverName = [] then source_entry env key (map_of rawMap ''source'') st
                           else resolver_entry env cfg key rawMap resolverName st)))
      | _ \<Rightarrow>
          if key \<in> set sharedCredentialKeys then Inl (HookError (credential_label key @ ''.providers''))
          else source_entry env key (Some raw) st)"

fun resolve_loop :: "host_env \<Rightarrow> config \<Rightarrow> string list \<Rightarrow> resolver_state \<Rightarrow> (bundle_error, resolver_state) result" where
  "resolve_loop env cfg [] st = Inr st"
| "resolve_loop env cfg (key # keys) st =
     (case map_of (rs_credentials st) key of
        None \<Rightarrow> resolve_loop env cfg keys st
      | Some raw \<Rightarrow>
          (case resolve_entry env cfg key raw st of
             Inl e \<Rightarrow> Inl e
           | Inr st' \<Rightarrow> resolve_loop env cfg keys st'))"

definition resolve_rebase :: "'a path_env_scheme \<Rightarrow> tval \<Rightarrow> string \<Rightarrow> tval" where
  "resolve_rebase env raw fragmentDir =
     (case raw of
        TString s \<Rightarrow> if s = [] then raw else TString (resolve_expandHostPath env s fragmentDir)
      | _ \<Rightarrow> raw)"

definition start_state :: "config \<Rightarrow> table \<Rightarrow> resolver_state" where
  "start_state cfg credentials =
     \<lparr>rs_credentials = credentials,
      rs_metadata = \<lparr>md_inputKinds = [], md_resolvers = [], md_materialization = [], md_states = [], md_providerReady = [],
        md_sharedReady = [], md_broker = (cf_placeholder cfg \<noteq> [])\<rparr>,
      rs_files = []\<rparr>"

text \<open>\<open>run\<close> from the loaded bundle to the policy that it writes, the metadata and the files.\<close>

definition resolve_run ::
  "host_env \<Rightarrow> config \<Rightarrow> string \<Rightarrow> table \<Rightarrow> (bundle_error, table \<times> resolver_state) result" where
  "resolve_run env cfg policyPath loaded =
     (let policy = RebasePolicyFragment loaded (Dir policyPath) (resolve_rebase env) in
      case validatePolicyNetwork policy of
        Some e \<Rightarrow> Inl e
      | None \<Rightarrow>
          (case map_of policy ''credentials'' of
             None \<Rightarrow> Inr (policy, start_state cfg [])
           | Some (TTable credentials) \<Rightarrow>
               (case resolve_loop env cfg (selectedCredentialKeys (cf_agent cfg)) (start_state cfg credentials) of
                  Inl e \<Rightarrow> Inl e
                | Inr st \<Rightarrow> Inr (AList.update ''credentials'' (TTable (rs_credentials st)) policy, st))
           | Some _ \<Rightarrow> Inl (HookError ''credentials'')))"

section \<open>Destinations\<close>

lemma clean_elems_append: "clean_elems True stack (xs @ ys) = clean_elems True (rev (clean_elems True stack xs)) ys"
  by (induction True stack xs rule: clean_elems.induct) (auto split: list.split)

lemma split_on_join_plain: "list_all plain es \<Longrightarrow> es \<noteq> [] \<Longrightarrow> split_on SLASH (join ''/'' es) = es"
  by (intro split_on_join) (auto simp: list_all_iff plain_def)

lemma Join_below:
  assumes "IsAbs root" "list_all plain es" "es \<noteq> []"
  shows "Join [root, join ''/'' es] = of_elems True (elems root @ es)"
proof -
  let ?p = "root @ SLASH # join ''/'' es"
  have a: "root \<noteq> []" "IsAbs ?p" using assms(1) by (auto simp: IsAbs_Cons)
  have j: "join ''/'' es \<noteq> []" using split_on_join_plain [OF assms(2,3)] assms(2,3) by (auto simp: plain_def)
  have "elems ?p = clean_elems True [] (split_on SLASH root @ es)"
    using a(2) split_on_join_plain [OF assms(2,3)] by (simp add: elems_def split_on_mid)
  also have "\<dots> = elems root @ es"
    using assms(1,2) by (simp add: clean_elems_append clean_elems_plain elems_def)
  finally show ?thesis using a j by (simp add: Join_def Clean_abs)
qed

lemma Join_relative:
  assumes "list_all plain es" "es \<noteq> []"
  shows "Join es = join ''/'' es"
proof -
  have f: "filter (\<lambda>p. p \<noteq> []) es = es" using assms(1) by (simp add: filter_id_conv list_all_iff plain_def)
  have "\<not> IsAbs (join ''/'' es)" using join_plain_inside [OF assms] by blast
  then have "elems (join ''/'' es) = es"
    using split_on_join_plain [OF assms] assms(1) by (simp add: elems_def clean_elems_plain)
  then show ?thesis using f assms(2) \<open>\<not> IsAbs (join ''/'' es)\<close> by (simp add: Join_def Clean_def of_elems_def)
qed

definition resolved_elems :: "string \<Rightarrow> string list" where
  "resolved_elems key = [''resolved'', ''credentials'', key @ ''.json'']"

lemma resolved_plain: "SLASH \<notin> set key \<Longrightarrow> list_all plain (resolved_elems key)"
  by (cases key) (auto simp: resolved_elems_def plain_def)

lemma destination_elems:
  assumes "IsAbs (cf_outputRoot cfg)" "SLASH \<notin> set key"
  shows "destination_of cfg key = of_elems True (elems (cf_outputRoot cfg) @ resolved_elems key)"
  using Join_below [OF assms(1) resolved_plain [OF assms(2)]] Join_relative [OF resolved_plain [OF assms(2)]]
  by (simp add: destination_of_def resolved_elems_def)

lemma destination_inj:
  assumes "IsAbs (cf_outputRoot cfg)" "SLASH \<notin> set k" "SLASH \<notin> set k'" "destination_of cfg k = destination_of cfg k'"
  shows "k = k'"
proof -
  have "list_all plain (elems (cf_outputRoot cfg) @ resolved_elems x)" if "SLASH \<notin> set x" for x
    using elems_plain [OF assms(1)] resolved_plain [OF that] by simp
  then have "elems (cf_outputRoot cfg) @ resolved_elems k = elems (cf_outputRoot cfg) @ resolved_elems k'"
    using assms destination_elems by (metis elems_of_elems)
  then show ?thesis by (simp add: resolved_elems_def)
qed

lemma registry_keys_plain: "k \<in> set (selectedCredentialKeys agent) \<Longrightarrow> SLASH \<notin> set k"
proof -
  have "list_all (\<lambda>k. SLASH \<notin> set k) sharedCredentialKeys"
    "list_all (\<lambda>(a, ks). list_all (\<lambda>k. SLASH \<notin> set k) ks) (AgentScopedCredentialKeysForProviders AllProviders)"
    by code_simp+
  moreover assume "k \<in> set (selectedCredentialKeys agent)"
  ultimately show ?thesis
    by (cases "map_of (AgentScopedCredentialKeysForProviders AllProviders) agent")
      (auto simp: selectedCredentialKeys_def scoped_keys_def list_all_iff split: if_splits dest!: map_of_SomeD)
qed

lemma registry_keys_distinct: "distinct (selectedCredentialKeys agent)"
proof -
  have "distinct sharedCredentialKeys" "list_all (\<lambda>(a, ks). distinct ks) (AgentScopedCredentialKeysForProviders AllProviders)"
    by code_simp+
  then show ?thesis using scoped_not_shared [of agent]
    by (cases "map_of (AgentScopedCredentialKeysForProviders AllProviders) agent")
      (auto simp: selectedCredentialKeys_def scoped_keys_def list_all_iff dest!: map_of_SomeD)
qed

section \<open>What the loop does to an entry\<close>

definition rewritten :: "config \<Rightarrow> string \<Rightarrow> table \<Rightarrow> table" where
  "rewritten cfg key rawMap =
     AList.update ''source'' (TString (destination_of cfg key)) (AList.delete ''materialization'' (AList.delete ''resolver'' rawMap))"

abbreviation resolvers_of :: "resolver_state \<Rightarrow> string \<Rightarrow> string option" where
  "resolvers_of st \<equiv> map_of (md_resolvers (rs_metadata st))"

text \<open>An entry with a source stays; an entry with a resolver is dropped, or rewritten with the content of its file.\<close>

definition outcome :: "host_env \<Rightarrow> config \<Rightarrow> string \<Rightarrow> tval \<Rightarrow> resolver_state \<Rightarrow> bool" where
  "outcome env cfg key raw st \<longleftrightarrow>
     (case raw of
        TTable m \<Rightarrow>
          (let n = string_field m ''resolver'' in
           if n = [] then map_of (rs_credentials st) key = Some raw \<and> resolvers_of st key = None
           else if entry_admits (cf_agent cfg) (cf_mode cfg) raw then
             (\<exists>state content.
                resolveCredential env key n (destination_of cfg key) (cf_resolutionMode cfg) (cf_placeholder cfg) = Inr (state, content) \<and>
                map_of (rs_files st) (destination_of cfg key) = Some content) \<and>
             map_of (rs_credentials st) key = Some (TTable (rewritten cfg key m)) \<and> resolvers_of st key = Some n
           else map_of (rs_credentials st) key = None \<and> resolvers_of st key = None)
      | _ \<Rightarrow> map_of (rs_credentials st) key = Some raw \<and> resolvers_of st key = None)"

lemma ready_state_frame [simp]:
  "md_resolvers (recordAuthReadyState key state m) = md_resolvers m" "md_broker (recordAuthReadyState key state m) = md_broker m"
  by (simp_all add: recordAuthReadyState_def)

lemma source_entry_frame:
  "source_entry env key raw st = Inr st' \<Longrightarrow>
   rs_credentials st' = rs_credentials st \<and> rs_files st' = rs_files st \<and> resolvers_of st' = resolvers_of st \<and>
   md_broker (rs_metadata st') = md_broker (rs_metadata st)"
  by (auto simp: source_entry_def record_source_def Let_def split: option.splits sum.splits)

lemma resolver_entry_Inr:
  assumes "resolver_entry env cfg key m n st = Inr st'"
  obtains state content where
    "resolveCredential env key n (destination_of cfg key) (cf_resolutionMode cfg) (cf_placeholder cfg) = Inr (state, content)"
    "rs_credentials st' = AList.update key (TTable (rewritten cfg key m)) (rs_credentials st)"
    "rs_files st' = AList.update (destination_of cfg key) content (rs_files st)"
    "md_resolvers (rs_metadata st') = AList.update key n (md_resolvers (rs_metadata st))"
    "md_broker (rs_metadata st') = md_broker (rs_metadata st)"
  using assms by (auto simp: resolver_entry_def Let_def rewritten_def split: if_splits sum.splits prod.splits)

lemma resolve_entry_frame:
  assumes "resolve_entry env cfg key raw st = Inr st'"
  shows "md_broker (rs_metadata st') = md_broker (rs_metadata st)"
    and "k \<noteq> key \<Longrightarrow> map_of (rs_credentials st') k = map_of (rs_credentials st) k \<and> resolvers_of st' k = resolvers_of st k"
    and "d \<noteq> destination_of cfg key \<Longrightarrow> map_of (rs_files st') d = map_of (rs_files st) d"
  using assms
  by (auto simp: resolve_entry_def Let_def filter_entry_def update_conv' delete_conv'
      split: tval.splits option.splits if_splits sum.splits bool.splits
      dest: source_entry_frame elim!: resolver_entry_Inr)

lemma resolve_entry_outcome:
  assumes "resolve_entry env cfg key raw st = Inr st'" "map_of (rs_credentials st) key = Some raw" "resolvers_of st key = None"
  shows "outcome env cfg key raw st'"
proof (cases raw)
  case (TTable m)
  let ?n = "string_field m ''resolver''"
  obtain b c where b: "resolve_selectedFor (map_of m ''providers'') (cf_agent cfg) (credential_label key @ ''.providers'') AllProviders = Inr b"
    and c: "b \<Longrightarrow> resolve_selectedFor (map_of m ''modes'') (cf_mode cfg) (credential_label key @ ''.modes'') SupportedModes = Inr c"
    using assms(1) TTable by (auto simp: resolve_entry_def Let_def split: option.splits if_splits sum.splits bool.splits)
  have adm: "entry_admits (cf_agent cfg) (cf_mode cfg) raw \<longleftrightarrow> b \<and> c"
    using resolve_selectedFor_Inr [OF b] resolve_selectedFor_Inr [OF c] TTable by (auto simp: entry_admits_def)
  consider (no) "\<not> b \<or> \<not> c" | (src) "b" "c" "?n = []" | (res) "b" "c" "?n \<noteq> []" by blast
  then show ?thesis
  proof cases
    case no
    then have "\<exists>reason. st' = filter_entry key reason ?n st"
      using assms(1) TTable b c by (cases b) (auto simp: resolve_entry_def Let_def split: option.splits if_splits)
    then show ?thesis using no adm assms(2,3) TTable by (auto simp: outcome_def filter_entry_def Let_def delete_conv')
  next
    case src
    then have "\<exists>w. source_entry env key w st = Inr st'"
      using assms(1) TTable b c by (auto simp: resolve_entry_def Let_def split: option.splits if_splits)
    then show ?thesis using source_entry_frame src assms(2,3) TTable by (fastforce simp: outcome_def Let_def)
  next
    case res
    then have "resolver_entry env cfg key m ?n st = Inr st'"
      using assms(1) TTable b c by (auto simp: resolve_entry_def Let_def split: option.splits if_splits)
    then show ?thesis using res adm TTable
      by (elim resolver_entry_Inr) (simp add: outcome_def Let_def update_conv')
  qed
qed (use assms source_entry_frame in \<open>fastforce simp: outcome_def resolve_entry_def split: if_splits\<close>)+

lemma outcome_frame:
  assumes "outcome env cfg key raw st" "map_of (rs_credentials st') key = map_of (rs_credentials st) key"
    "resolvers_of st' key = resolvers_of st key" "map_of (rs_files st') (destination_of cfg key) = map_of (rs_files st) (destination_of cfg key)"
  shows "outcome env cfg key raw st'"
  using assms by (auto simp: outcome_def Let_def split: tval.splits)

lemma resolve_loop_frame:
  assumes "resolve_loop env cfg keys st = Inr st'"
  shows "md_broker (rs_metadata st') = md_broker (rs_metadata st)"
    and "k \<notin> set keys \<Longrightarrow> map_of (rs_credentials st') k = map_of (rs_credentials st) k \<and> resolvers_of st' k = resolvers_of st k"
    and "d \<notin> destination_of cfg ` set keys \<Longrightarrow> map_of (rs_files st') d = map_of (rs_files st) d"
  using assms by (induction keys arbitrary: st) (auto split: option.splits sum.splits simp: resolve_entry_frame)

lemma resolve_loop_outcome:
  assumes "resolve_loop env cfg keys st = Inr st'" "distinct keys" "IsAbs (cf_outputRoot cfg)" "\<forall>k \<in> set keys. SLASH \<notin> set k"
    "\<forall>k \<in> set keys. resolvers_of st k = None" "k \<in> set keys"
  shows "case map_of (rs_credentials st) k of
      None \<Rightarrow> map_of (rs_credentials st') k = None \<and> resolvers_of st' k = None
    | Some raw \<Rightarrow> outcome env cfg k raw st'"
  using assms
proof (induction keys arbitrary: st)
  case (Cons key keys)
  obtain st1 where st1: "resolve_loop env cfg keys st1 = Inr st'"
    "(map_of (rs_credentials st) key = None \<and> st1 = st) \<or>
     (\<exists>raw. map_of (rs_credentials st) key = Some raw \<and> resolve_entry env cfg key raw st = Inr st1)"
    using Cons.prems(1) by (auto split: option.splits sum.splits)
  show ?case
  proof (cases "k = key")
    case True
    then have k: "k \<notin> set keys" using Cons.prems(2) by simp
    have "destination_of cfg k \<notin> destination_of cfg ` set keys"
      using k destination_inj [OF Cons.prems(3)] Cons.prems(4) True by auto
    note fr = resolve_loop_frame(2) [OF st1(1) k] resolve_loop_frame(3) [OF st1(1) this]
    have "outcome env cfg k raw st'" if r: "map_of (rs_credentials st) k = Some raw" for raw
    proof -
      have "resolve_entry env cfg key raw st = Inr st1" using st1(2) r True by auto
      then have "outcome env cfg k raw st1" using resolve_entry_outcome r Cons.prems(5) True by simp
      then show ?thesis using outcome_frame fr by blast
    qed
    then show ?thesis using fr st1(2) Cons.prems(5) True by (auto split: option.splits)
  next
    case False
    then have "map_of (rs_credentials st1) k = map_of (rs_credentials st) k"
      "\<forall>k' \<in> set keys. resolvers_of st1 k' = None"
      using st1(2) resolve_entry_frame(2) Cons.prems(2,5) by (auto, metis)
    then show ?thesis using Cons.IH [OF st1(1)] Cons.prems False by simp
  qed
qed simp

lemma resolve_entry_distinct:
  "resolve_entry env cfg key raw st = Inr st' \<Longrightarrow> distinct (map fst (md_resolvers (rs_metadata st))) \<Longrightarrow>
   distinct (map fst (md_resolvers (rs_metadata st')))"
  by (auto simp: resolve_entry_def Let_def filter_entry_def source_entry_def record_source_def distinct_update
      split: tval.splits option.splits if_splits sum.splits bool.splits elim!: resolver_entry_Inr)

lemma resolve_loop_distinct:
  "resolve_loop env cfg keys st = Inr st' \<Longrightarrow> distinct (map fst (md_resolvers (rs_metadata st))) \<Longrightarrow>
   distinct (map fst (md_resolvers (rs_metadata st')))"
  by (induction keys arbitrary: st) (auto split: option.splits sum.splits dest: resolve_entry_distinct)

end
