(* ===== verification/Gemini_Env.thy ===== *)
theory Gemini_Env
  imports Adapters Tomlsubset Egress_Proxy Go_Sort
begin

text \<open>
  The environment file of the Gemini agent, \<open>src/internal/injection/render_credentials.go\<close>: the parser of the file, the
  choice of the way to authenticate, and the endpoints that the choice adds to the allowlist of the session.
\<close>

section \<open>Parsing\<close>

datatype env_error =
    EnvUnreadable
  | EnvMalformed nat
  | EnvRepeated nat
  | EnvUnsupported
  | EnvEmpty string
  | EnvBoolean string
  | EnvSelectors
  | EnvLocation
  | EnvVertex
  | EnvGoogleKey
  | EnvNoMode

type_synonym env_map = "(string \<times> string) list"

definition env_letter :: "char \<Rightarrow> bool" where
  "env_letter c \<longleftrightarrow> c = CHR ''_'' \<or> 65 \<le> byte c \<and> byte c \<le> 90 \<or> 97 \<le> byte c \<and> byte c \<le> 122"

definition validEnvName :: "string \<Rightarrow> bool" where
  "validEnvName v = (case v of [] \<Rightarrow> False | c # cs \<Rightarrow> env_letter c \<and> list_all (\<lambda>d. env_letter d \<or> is_digit d) cs)"

text \<open>A value after its comment is stripped; \<open>None\<close> for a quote that is not closed or an escape that is not valid.\<close>

definition env_value :: "string \<Rightarrow> string option" where
  "env_value v =
     (if v \<noteq> [] \<and> (hd v = SQUOTE \<or> hd v = DQUOTE) then
        (if length v < 2 \<or> last v \<noteq> hd v then None
         else if hd v = DQUOTE then Unquote v
         else Some (butlast (tl v)))
      else if v \<noteq> [] \<and> (HasSuffix v [SQUOTE] \<or> HasSuffix v [DQUOTE]) then None
      else Some v)"

definition env_assignment :: "nat \<Rightarrow> string \<Rightarrow> env_map \<Rightarrow> (env_error, env_map) result" where
  "env_assignment lineNumber rawLine vals =
     (let trimmed = TrimSpace rawLine in
      if trimmed = [] \<or> HasPrefix trimmed ''#'' then Inr vals
      else
        (let stmt = (if HasPrefix trimmed ''export '' then TrimSpace (drop 7 trimmed) else trimmed) in
         case cut (CHR ''='') stmt of
           None \<Rightarrow> Inl (EnvMalformed lineNumber)
         | Some (left, right) \<Rightarrow>
             (let key = TrimSpace left in
              if \<not> validEnvName key then Inl (EnvMalformed lineNumber)
              else if map_of vals key \<noteq> None then Inl (EnvRepeated lineNumber)
              else
                (case env_value (StripComment right) of
                   None \<Rightarrow> Inl (EnvMalformed lineNumber)
                 | Some v \<Rightarrow> Inr (AList.update key v vals)))))"

fun env_lines :: "nat \<Rightarrow> string list \<Rightarrow> env_map \<Rightarrow> (env_error, env_map) result" where
  "env_lines lineNumber [] vals = Inr vals"
| "env_lines lineNumber (rawLine # rest) vals =
     (case env_assignment (Suc lineNumber) rawLine vals of
        Inl e \<Rightarrow> Inl e
      | Inr vals' \<Rightarrow> env_lines (Suc lineNumber) rest vals')"

text \<open>\<open>data\<close> is what \<open>readInjectionPath\<close> returns.\<close>

definition parseSimpleEnvFile :: "string option \<Rightarrow> (env_error, env_map) result" where
  "parseSimpleEnvFile data = (case data of None \<Rightarrow> Inl EnvUnreadable | Some bytes \<Rightarrow> env_lines 0 (split_on NL bytes) [])"

section \<open>Authentication\<close>

definition vertexEndpoint :: string where
  "vertexEndpoint = ''aiplatform.googleapis.com:443''"

definition geminiProjectKeys :: "string list" where
  "geminiProjectKeys = [''GOOGLE_CLOUD_PROJECT'', ''GOOGLE_CLOUD_PROJECT_ID'']"

definition geminiVertexLocationKeys :: "string list" where
  "geminiVertexLocationKeys =
     [''GOOGLE_CLOUD_LOCATION'', ''GOOGLE_CLOUD_REGION'', ''CLOUD_ML_REGION'', ''VERTEX_LOCATION'', ''VERTEX_AI_LOCATION'']"

definition geminiSupportedEnvKeys :: "string list" where
  "geminiSupportedEnvKeys =
     [''GEMINI_API_KEY'', ''GOOGLE_API_KEY'', ''GOOGLE_GENAI_USE_GCA'', ''GOOGLE_GENAI_USE_VERTEXAI'',
      ''GOOGLE_CLOUD_PROJECT'', ''GOOGLE_CLOUD_PROJECT_ID'', ''GOOGLE_CLOUD_LOCATION'', ''GOOGLE_CLOUD_REGION'',
      ''CLOUD_ML_REGION'', ''VERTEX_LOCATION'', ''VERTEX_AI_LOCATION'']"

definition env_get :: "env_map \<Rightarrow> string \<Rightarrow> string" where
  "env_get vals key = (case map_of vals key of None \<Rightarrow> [] | Some v \<Rightarrow> v)"

definition parseEnvBooleanValue :: "(rune \<Rightarrow> rune) \<Rightarrow> env_map \<Rightarrow> string \<Rightarrow> (env_error, bool) result" where
  "parseEnvBooleanValue lower vals key =
     (case map_of vals key of
        None \<Rightarrow> Inr False
      | Some raw \<Rightarrow>
          (let normalized = ToLower lower (TrimSpace raw) in
           if normalized \<noteq> ''true'' \<and> normalized \<noteq> ''false'' then Inl (EnvBoolean key) else Inr (normalized = ''true'')))"

definition location_char :: "char \<Rightarrow> bool" where
  "location_char c \<longleftrightarrow> 97 \<le> byte c \<and> byte c \<le> 122 \<or> is_digit c \<or> c = CHR ''-''"

definition normalizeVertexLocation :: "(rune \<Rightarrow> rune) \<Rightarrow> string \<Rightarrow> string" where
  "normalizeVertexLocation lower v =
     (let candidate = ToLower lower (TrimSpace v) in
      if \<not> list_all location_char candidate then []
      else if HasPrefix candidate ''-'' \<or> HasSuffix candidate ''-'' \<or> Contains candidate ''--'' then []
      else candidate)"

fun env_supported :: "env_map \<Rightarrow> env_error option" where
  "env_supported [] = None"
| "env_supported ((key, v) # rest) =
     (if key \<notin> set geminiSupportedEnvKeys then Some EnvUnsupported
      else if key \<noteq> ''GOOGLE_GENAI_USE_GCA'' \<and> key \<noteq> ''GOOGLE_GENAI_USE_VERTEXAI'' \<and> TrimSpace v = [] then Some (EnvEmpty key)
      else env_supported rest)"

definition vertex_endpoints :: "(rune \<Rightarrow> rune) \<Rightarrow> env_map \<Rightarrow> string list" where
  "vertex_endpoints lower vals =
     sort_stable (<) (remdups (vertexEndpoint #
       map (\<lambda>location. location @ ''-aiplatform.googleapis.com:443'')
         (filter (\<lambda>location. location \<noteq> []) (map (\<lambda>key. normalizeVertexLocation lower (env_get vals key)) geminiVertexLocationKeys))))"

text \<open>The result is the selected way to authenticate and the extra endpoints.\<close>

definition gemini_mode :: "(rune \<Rightarrow> rune) \<Rightarrow> env_map \<Rightarrow> bool \<Rightarrow> bool \<Rightarrow> (env_error, string \<times> string list) result" where
  "gemini_mode lower vals gcaEnabled vertexEnabled =
     (let geminiAPIKey = TrimSpace (env_get vals ''GEMINI_API_KEY'');
          googleAPIKey = TrimSpace (env_get vals ''GOOGLE_API_KEY'');
          hasProject = list_ex (\<lambda>key. TrimSpace (env_get vals key) \<noteq> []) geminiProjectKeys;
          hasLocation = list_ex (\<lambda>key. TrimSpace (env_get vals key) \<noteq> []) geminiVertexLocationKeys in
      if gcaEnabled \<and> vertexEnabled then Inl EnvSelectors
      else if hasLocation \<and> \<not> hasProject then Inl EnvLocation
      else if vertexEnabled then
        (if googleAPIKey \<noteq> [] \<or> hasProject \<and> hasLocation then Inr (''vertex-ai'', vertex_endpoints lower vals)
         else Inl EnvVertex)
      else if googleAPIKey \<noteq> [] then Inl EnvGoogleKey
      else if gcaEnabled then Inr (''oauth-personal'', GeminiGoogleAuthEndpoints)
      else if geminiAPIKey \<noteq> [] then Inr (''gemini-api-key'', [])
      else Inl EnvNoMode)"

definition validateGeminiEnvFile :: "(rune \<Rightarrow> rune) \<Rightarrow> string option \<Rightarrow> (env_error, string \<times> string list) result" where
  "validateGeminiEnvFile lower data =
     (case parseSimpleEnvFile data of
        Inl e \<Rightarrow> Inl e
      | Inr vals \<Rightarrow>
          (case env_supported vals of
             Some e \<Rightarrow> Inl e
           | None \<Rightarrow>
               (case parseEnvBooleanValue lower vals ''GOOGLE_GENAI_USE_GCA'' of
                  Inl e \<Rightarrow> Inl e
                | Inr gcaEnabled \<Rightarrow>
                    (case parseEnvBooleanValue lower vals ''GOOGLE_GENAI_USE_VERTEXAI'' of
                       Inl e \<Rightarrow> Inl e
                     | Inr vertexEnabled \<Rightarrow> gemini_mode lower vals gcaEnabled vertexEnabled))))"

section \<open>The extra endpoints\<close>

lemma Contains_skip: "c \<noteq> d \<Longrightarrow> Contains (c # s) (d # p) = Contains s (d # p)"
  by (auto simp: Contains_def)

lemma location_char_dot: "location_char c \<Longrightarrow> c \<noteq> CHR ''.''"
  by (auto simp: location_char_def is_digit_def)

lemma location_no_dots:
  "list_all location_char l \<Longrightarrow> Contains (l @ s) ''..'' = Contains s ''..''"
  using location_char_dot by (induction l) (auto simp: Contains_skip)

lemma location_endpoint:
  assumes "list_all location_char l" "l \<noteq> []"
  shows "ValidateEgressEndpoint (l @ ''-aiplatform.googleapis.com:443'') = None"
proof -
  let ?h = "l @ ''-aiplatform.googleapis.com''"
  have chars: "host_char c" "c \<noteq> CHR '':''" "c \<noteq> CHR ''[''" "c \<noteq> CHR ''.''" if "c \<in> set l" for c
    using assms(1) that by (auto simp: list_all_iff location_char_def host_char_def is_digit_def)
  have "cut CHR '':'' (l @ ''-aiplatform.googleapis.com:443'') = Some (?h, ''443'')"
    using chars(2) by (induction l) auto
  moreover have "ipv6EndpointPattern (l @ ''-aiplatform.googleapis.com:443'') = None"
    using assms(2) chars(3) by (cases l) (auto simp: ipv6EndpointPattern_def Let_def)
  moreover have "port_text ''443''" "Atoi ''443'' = Some 443" by code_simp+
  ultimately have e: "endpoint_host (l @ ''-aiplatform.googleapis.com:443'') = (?h, ''443'')"
    by (simp add: endpoint_host_def hostEndpointPattern_def)
  have "hostLabelPattern ?h" using chars(1) by (auto simp: hostLabelPattern_def list_all_iff host_char_def)
  moreover have "\<not> HasPrefix ?h ''.''" "\<not> HasPrefix ?h ''[''" using assms(2) chars(3,4) by (cases l; auto)+
  moreover have "\<not> ipv4ShapedPattern ?h" by (simp add: ipv4ShapedPattern_def is_digit_def)
  moreover have "\<not> Contains ''-aiplatform.googleapis.com'' ''..''" by code_simp
  then have "\<not> Contains ?h ''..''" using location_no_dots [OF assms(1)] by simp
  ultimately show ?thesis using e \<open>Atoi ''443'' = Some 443\<close> by (simp add: ValidateEgressEndpoint_def)
qed

lemma normalizeVertexLocation_chars: "list_all location_char (normalizeVertexLocation lower v)"
  by (simp add: normalizeVertexLocation_def Let_def)

lemma gemini_endpoints_valid:
  assumes "validateGeminiEnvFile lower data = Inr (ty, extra)"
  shows "list_all (\<lambda>e. ValidateEgressEndpoint e = None) extra"
proof -
  have fixed: "ValidateEgressEndpoint vertexEndpoint = None" "list_all (\<lambda>e. ValidateEgressEndpoint e = None) GeminiGoogleAuthEndpoints"
    by code_simp+
  have "list_all (\<lambda>e. ValidateEgressEndpoint e = None) (vertex_endpoints lower vals)" for vals
    using fixed(1) location_endpoint [OF normalizeVertexLocation_chars] by (auto simp: vertex_endpoints_def list_all_iff)
  then show ?thesis using assms fixed(2)
    by (auto simp: validateGeminiEnvFile_def gemini_mode_def Let_def split: sum.splits option.splits if_splits)
qed

end
