(* ===== verification/Credential_Render.thy ===== *)
theory Credential_Render
  imports Credential_Resolve Gemini_Env
begin

text \<open>
  The credentials of the injection bundle: \<open>src/internal/injection/render_credentials.go\<close> with the checks of
  \<open>render_validation.go\<close>, \<open>symlink_walk.go\<close> and \<open>input_limits.go\<close>, and the check of the credential broker that refuses an
  API key in a session that brokers it.
\<close>

section \<open>Limits\<close>

definition maxInjectionFileBytes :: int where
  "maxInjectionFileBytes = 16 * 1024 * 1024"

definition maxInjectionTreeBytes :: int where
  "maxInjectionTreeBytes = 64 * 1024 * 1024"

definition maxInjectionTreeEntries :: int where
  "maxInjectionTreeEntries = 4096"

record injectionTreeBudget =
  tb_bytes :: int
  tb_entries :: int

definition newInjectionTreeBudget :: injectionTreeBudget where
  "newInjectionTreeBudget = \<lparr>tb_bytes = 0, tb_entries = 0\<rparr>"

definition remainingBytes :: "injectionTreeBudget \<Rightarrow> int" where
  "remainingBytes budget = maxInjectionTreeBytes - tb_bytes budget"

definition remainingEntries :: "injectionTreeBudget \<Rightarrow> int" where
  "remainingEntries budget = maxInjectionTreeEntries - tb_entries budget"

definition addEntries :: "string \<Rightarrow> int \<Rightarrow> injectionTreeBudget \<Rightarrow> (bundle_error, injectionTreeBudget) result" where
  "addEntries source n budget =
     (if remainingEntries budget < n then Inl (HookError source) else Inr (budget\<lparr>tb_entries := tb_entries budget + n\<rparr>))"

text \<open>Without a budget only the limit of one file applies.\<close>

definition accountInjectionFileSize ::
  "int \<Rightarrow> string \<Rightarrow> injectionTreeBudget option \<Rightarrow> (bundle_error, injectionTreeBudget option) result" where
  "accountInjectionFileSize fileSize source budget =
     (if fileSize < 0 \<or> maxInjectionFileBytes < fileSize then Inl (HookError source)
      else case budget of
        None \<Rightarrow> Inr None
      | Some b \<Rightarrow>
          if remainingBytes b < fileSize then Inl (HookError source)
          else Inr (Some (b\<lparr>tb_bytes := tb_bytes b + fileSize\<rparr>)))"

section \<open>The host\<close>

text \<open>
  \<open>rv_read\<close> is the content of a regular file that the no-follow opener opens, \<open>rv_ownerOnly\<close> whether a path belongs to the
  user and only the user has access.
\<close>

record render_env = path_env +
  rv_text :: text_ops
  rv_lower :: "rune \<Rightarrow> rune"
  rv_isDir :: "string \<Rightarrow> bool"
  rv_readlink :: "string \<Rightarrow> string option"
  rv_lstatError :: "string \<Rightarrow> bool"
  rv_ownerOnly :: "string \<Rightarrow> bool"
  rv_size :: "string \<Rightarrow> int"
  rv_read :: "string \<Rightarrow> string option"

definition accountInjectionSourceSize ::
  "render_env \<Rightarrow> string \<Rightarrow> injectionTreeBudget \<Rightarrow> (bundle_error, injectionTreeBudget) result" where
  "accountInjectionSourceSize env source budget =
     (if pe_stat env source = None then Inl (HookError source)
      else
        (case addEntries source 1 budget of
           Inl e \<Rightarrow> Inl e
         | Inr b \<Rightarrow>
             (case accountInjectionFileSize (rv_size env source) source (Some b) of
                Inl e \<Rightarrow> Inl e
              | Inr None \<Rightarrow> Inr b
              | Inr (Some b') \<Rightarrow> Inr b')))"

definition readInjectionPath :: "render_env \<Rightarrow> string \<Rightarrow> string option" where
  "readInjectionPath env source =
     (case rv_read env source of
        None \<Rightarrow> None
      | Some data \<Rightarrow> if maxInjectionFileBytes < int (length data) then None else Some data)"

definition validateManifestPathField :: "string \<Rightarrow> bool" where
  "validateManifestPathField v \<longleftrightarrow> ValidString v \<and> \<not> list_ex unsafe_rune (runes v)"

definition isAllowedSystemSymlink :: "bool \<Rightarrow> string \<Rightarrow> string \<Rightarrow> bool" where
  "isAllowedSystemSymlink darwin linkPath linkTarget \<longleftrightarrow>
     darwin \<and>
     (let c = Clean linkPath in
      c = ''/var'' \<and> linkTarget = ''private/var'' \<or> c = ''/etc'' \<and> linkTarget = ''private/etc'' \<or> c = ''/tmp'' \<and> linkTarget = ''private/tmp'')"

text \<open>The walk from the root; the outer option is an error, the inner one the offending link.\<close>

fun symlink_walk :: "render_env \<Rightarrow> string \<Rightarrow> string list \<Rightarrow> string option option" where
  "symlink_walk env current [] = Some None"
| "symlink_walk env current (part # parts) =
     (if part = [] then symlink_walk env current parts
      else
        (let next = Join [current, part] in
         case pe_lstat env next of
           None \<Rightarrow> if rv_lstatError env next then None else Some None
         | Some False \<Rightarrow> symlink_walk env next parts
         | Some True \<Rightarrow>
             (case rv_readlink env next of
                None \<Rightarrow> None
              | Some linkTarget \<Rightarrow>
                  if isAllowedSystemSymlink (pe_darwin env) next linkTarget then symlink_walk env next parts
                  else Some (Some next))))"

definition findUnsafeSymlinkInPathChain :: "render_env \<Rightarrow> string \<Rightarrow> string option option" where
  "findUnsafeSymlinkInPathChain env cleanedPath = symlink_walk env ''/'' (split_on SLASH cleanedPath)"

definition render_validateSourcePath :: "render_env \<Rightarrow> tval option \<Rightarrow> string \<Rightarrow> string \<Rightarrow> (bundle_error, string) result" where
  "render_validateSourcePath env raw label base =
     (case raw of
        Some (TString rawStr) \<Rightarrow>
          if rawStr = [] \<or> \<not> validateManifestPathField rawStr then Inl (HookError label)
          else
            (case expandHostPath (path_env.truncate env) rawStr base of
               None \<Rightarrow> Inl (HookError label)
             | Some source \<Rightarrow>
                 if \<not> validateManifestPathField source then Inl (HookError label)
                 else if pe_stat env source = None then Inl (HookError label)
                 else if RejectCredentialSource (rv_text env) (path_env.truncate env) source label \<noteq> None then Inl (HookError label)
                 else if findUnsafeSymlinkInPathChain env source \<noteq> Some None then Inl (HookError label)
                 else if rv_isDir env source \<and>
                     RejectCredentialDirectorySource (rv_text env) (path_env.truncate env) source label \<noteq> None
                   then Inl (HookError label)
                 else Inr source)
      | _ \<Rightarrow> Inl (HookError label))"

definition validateSecretFile :: "render_env \<Rightarrow> string \<Rightarrow> string \<Rightarrow> bundle_error option" where
  "validateSecretFile env source label =
     (if pe_lstat env source = Some True then Some (HookError label)
      else if pe_stat env source \<noteq> Some True then Some (HookError label)
      else if pe_lstat env source = None \<or> \<not> rv_ownerOnly env source then Some (HookError label)
      else case accountInjectionFileSize (rv_size env source) source None of Inl e \<Rightarrow> Some e | Inr _ \<Rightarrow> None)"

section \<open>JSON files\<close>

definition json_document :: "string \<Rightarrow> jval option" where
  "json_document data =
     (case json_value 0 data of Some (v, rest) \<Rightarrow> if list_all json_space rest then Some v else None | None \<Rightarrow> None)"

text \<open>A lookup in the decoded object: the last of a repeated key.\<close>

definition json_lookup :: "(string \<times> jval) list \<Rightarrow> string \<Rightarrow> jval option" where
  "json_lookup ms key = map_of (rev ms) key"

definition validateJSONObjFile :: "string option \<Rightarrow> (string \<times> jval) list option" where
  "validateJSONObjFile data =
     (case data of
        None \<Rightarrow> None
      | Some bytes \<Rightarrow> (case json_document bytes of Some (JObject ms) \<Rightarrow> Some ms | _ \<Rightarrow> None))"

definition validateGcloudADCFile :: "string option \<Rightarrow> bool" where
  "validateGcloudADCFile data =
     (case validateJSONObjFile data of
        None \<Rightarrow> False
      | Some ms \<Rightarrow> (case json_lookup ms ''type'' of Some (JString t) \<Rightarrow> TrimSpace t \<noteq> [] | _ \<Rightarrow> False))"

definition validateGeminiProjectsFile :: "string option \<Rightarrow> bool" where
  "validateGeminiProjectsFile data =
     (case validateJSONObjFile data of
        None \<Rightarrow> False
      | Some ms \<Rightarrow> (case json_lookup ms ''projects'' of Some (JObject _) \<Rightarrow> True | _ \<Rightarrow> False))"

definition maxCodexAuthJSONDepth :: nat where
  "maxCodexAuthJSONDepth = 16"

text \<open>
  \<open>jsonstrict.RejectDuplicateKeys\<close> on a value that parses: no object repeats a key, and no more than the given number of levels.
\<close>

fun unique_keys :: "nat \<Rightarrow> jval \<Rightarrow> bool" where
  "unique_keys n (JArray vs) \<longleftrightarrow> n \<noteq> 0 \<and> list_all (unique_keys (n - 1)) vs"
| "unique_keys n (JObject ms) \<longleftrightarrow> n \<noteq> 0 \<and> distinct (map fst ms) \<and> list_all (\<lambda>m. unique_keys (n - 1) (snd m)) ms"
| "unique_keys n _ \<longleftrightarrow> True"

definition codexAuthHoldsAPIKey :: "string option \<Rightarrow> (bundle_error, bool) result" where
  "codexAuthHoldsAPIKey data =
     (case (case data of None \<Rightarrow> None | Some bytes \<Rightarrow> json_document bytes) of
        None \<Rightarrow> Inl (HookError ''credentials.codex_auth'')
      | Some v \<Rightarrow>
          if \<not> unique_keys maxCodexAuthJSONDepth v then Inl (HookError ''credentials.codex_auth'')
          else
            (case v of
               JObject ms \<Rightarrow> Inr (case json_lookup ms ''OPENAI_API_KEY'' of None \<Rightarrow> False | Some w \<Rightarrow> w \<noteq> JNull)
             | JNull \<Rightarrow> Inr False
             | _ \<Rightarrow> Inl (HookError ''credentials.codex_auth'')))"

section \<open>Rendering\<close>

record rendered_credential =
  rc_source :: string
  rc_mountPath :: string

definition credentialContainerPaths :: "(string \<times> string) list" where
  "credentialContainerPaths = CredentialContainerPathsForProviders AllProviders"

definition allowedCredentialEntryKeys :: "string list" where
  "allowedCredentialEntryKeys = [''source'', ''providers'', ''modes'']"

definition all_scoped_keys :: "string \<Rightarrow> string list" where
  "all_scoped_keys agent = (case map_of AgentScopedCredentialKeys agent of None \<Rightarrow> [] | Some ks \<Rightarrow> ks)"

definition relevant_keys :: "string \<Rightarrow> string list" where
  "relevant_keys agent =
     sort_stable (<) (remdups ((if SharedCredentialsApplyToAgent agent then sharedCredentialKeys else []) @ all_scoped_keys agent))"

definition content_ok :: "render_env \<Rightarrow> string \<Rightarrow> string \<Rightarrow> bool" where
  "content_ok env key source =
     (let data = readInjectionPath env source in
      if key = ''gemini_env'' then is_ok (validateGeminiEnvFile (rv_lower env) data)
      else if key = ''gemini_oauth'' then validateJSONObjFile data \<noteq> None
      else if key = ''gcloud_adc'' then validateGcloudADCFile data
      else if key = ''gemini_projects'' then validateGeminiProjectsFile data
      else True)"

definition render_source ::
  "render_env \<Rightarrow> string \<Rightarrow> string \<Rightarrow> tval option \<Rightarrow> injectionTreeBudget \<Rightarrow>
   (bundle_error, rendered_credential \<times> injectionTreeBudget) result" where
  "render_source env policyDir key sourceRaw budget =
     (let label = credential_label key in
      case render_validateSourcePath env sourceRaw label policyDir of
        Inl e \<Rightarrow> Inl e
      | Inr source \<Rightarrow>
          (case validateSecretFile env source label of
             Some e \<Rightarrow> Inl e
           | None \<Rightarrow>
               (case accountInjectionSourceSize env source budget of
                  Inl e \<Rightarrow> Inl e
                | Inr budget' \<Rightarrow>
                    if \<not> content_ok env key source then Inl (HookError label)
                    else Inr (\<lparr>rc_source = source,
                               rc_mountPath = (case map_of credentialContainerPaths key of None \<Rightarrow> [] | Some p \<Rightarrow> p)\<rparr>, budget'))))"

text \<open>The body of the loop; \<open>None\<close> is an entry that is not selected.\<close>

definition render_credential ::
  "render_env \<Rightarrow> string \<Rightarrow> string \<Rightarrow> string \<Rightarrow> string \<Rightarrow> tval \<Rightarrow> injectionTreeBudget \<Rightarrow>
   (bundle_error, rendered_credential option \<times> injectionTreeBudget) result" where
  "render_credential env policyDir agent mode key raw budget =
     (let label = credential_label key;
          entry = (case raw of TTable t \<Rightarrow> Some t | _ \<Rightarrow> None);
          field = (\<lambda>name. case entry of None \<Rightarrow> None | Some t \<Rightarrow> map_of t name) in
      case (case raw of
              TTable t \<Rightarrow> validateAllowedKeys t allowedCredentialEntryKeys label
            | TString _ \<Rightarrow> None
            | _ \<Rightarrow> Some (HookError label)) of
        Some e \<Rightarrow> Inl e
      | None \<Rightarrow>
          if key \<in> set sharedCredentialKeys \<and> field ''providers'' = None then Inl (HookError (label @ ''.providers''))
          else
            (case render_selectedFor (field ''providers'') agent (label @ ''.providers'') AllProviders of
               Inl e \<Rightarrow> Inl e
             | Inr False \<Rightarrow> Inr (None, budget)
             | Inr True \<Rightarrow>
                 (case render_selectedFor (field ''modes'') mode (label @ ''.modes'') SupportedModes of
                    Inl e \<Rightarrow> Inl e
                  | Inr False \<Rightarrow> Inr (None, budget)
                  | Inr True \<Rightarrow>
                      (case render_source env policyDir key (if entry = None then Some raw else field ''source'') budget of
                         Inl e \<Rightarrow> Inl e
                       | Inr (r, budget') \<Rightarrow> Inr (Some r, budget')))))"

fun render_loop ::
  "render_env \<Rightarrow> string \<Rightarrow> string \<Rightarrow> string \<Rightarrow> table \<Rightarrow> string list \<Rightarrow> injectionTreeBudget \<Rightarrow>
   (bundle_error, (string \<times> rendered_credential) list \<times> injectionTreeBudget) result" where
  "render_loop env policyDir agent mode credentials [] budget = Inr ([], budget)"
| "render_loop env policyDir agent mode credentials (key # keys) budget =
     (case map_of credentials key of
        None \<Rightarrow> render_loop env policyDir agent mode credentials keys budget
      | Some raw \<Rightarrow>
          (case render_credential env policyDir agent mode key raw budget of
             Inl e \<Rightarrow> Inl e
           | Inr (r, budget') \<Rightarrow>
               (case render_loop env policyDir agent mode credentials keys budget' of
                  Inl e \<Rightarrow> Inl e
                | Inr (rendered, budget'') \<Rightarrow>
                    Inr ((case r of None \<Rightarrow> rendered | Some c \<Rightarrow> (key, c) # rendered), budget''))))"

definition renderCredentialsWithBudget ::
  "render_env \<Rightarrow> table \<Rightarrow> string \<Rightarrow> string \<Rightarrow> string \<Rightarrow> injectionTreeBudget \<Rightarrow>
   (bundle_error, (string \<times> rendered_credential) list \<times> injectionTreeBudget) result" where
  "renderCredentialsWithBudget env policy policyDir agent mode budget =
     (case map_of policy ''credentials'' of
        None \<Rightarrow> Inr ([], budget)
      | Some (TTable credentials) \<Rightarrow>
          (case validateAllowedKeys credentials (map fst credentialContainerPaths) ''credentials'' of
             Some e \<Rightarrow> Inl e
           | None \<Rightarrow> render_loop env policyDir agent mode credentials (relevant_keys agent) budget)
      | Some _ \<Rightarrow> Inl (HookError ''credentials''))"

definition deriveCredentialExtraEndpoints :: "render_env \<Rightarrow> (string \<times> rendered_credential) list \<Rightarrow> string list" where
  "deriveCredentialExtraEndpoints env rendered =
     (case map_of rendered ''gemini_env'' of
        None \<Rightarrow> []
      | Some r \<Rightarrow>
          (case validateGeminiEnvFile (rv_lower env) (readInjectionPath env (rc_source r)) of
             Inl e \<Rightarrow> []
           | Inr (ty, extra) \<Rightarrow> sort_stable (<) (remdups extra)))"

section \<open>The broker check\<close>

record credentialBroker =
  cb_on :: bool
  cb_brokered :: "(string \<times> bool) list"

text \<open>The metadata of the resolver as a JSON object, and what the renderer takes from it.\<close>

definition string_object :: "(string \<times> string) list \<Rightarrow> jval" where
  "string_object m = JObject (map (\<lambda>(k, v). (k, JString v)) m)"

definition metadata_object :: "string \<Rightarrow> jval \<Rightarrow> resolver_metadata \<Rightarrow> (string \<times> jval) list" where
  "metadata_object entrypoint sources m =
     [(''credential_broker'', JBool (md_broker m)), (''credential_input_kinds'', string_object (md_inputKinds m)),
      (''credential_materialization'', string_object (md_materialization m)),
      (''credential_resolution_states'', string_object (md_states m)),
      (''credential_resolvers'', string_object (md_resolvers m)), (''policy_entrypoint'', JString entrypoint),
      (''policy_sources'', sources), (''provider_auth_ready_states'', string_object (md_providerReady m)),
      (''shared_auth_ready_states'', string_object (md_sharedReady m))]"

definition credentialBrokerFromMetadata :: "(string \<times> jval) list \<Rightarrow> credentialBroker option" where
  "credentialBrokerFromMetadata metadata =
     (case (case json_lookup metadata ''credential_broker'' of None \<Rightarrow> Some False | Some (JBool b) \<Rightarrow> Some b | Some _ \<Rightarrow> None) of
        None \<Rightarrow> None
      | Some on \<Rightarrow>
          (case json_lookup metadata ''credential_resolvers'' of
             None \<Rightarrow> Some \<lparr>cb_on = on, cb_brokered = []\<rparr>
           | Some JNull \<Rightarrow> Some \<lparr>cb_on = on, cb_brokered = []\<rparr>
           | Some (JObject resolvers) \<Rightarrow>
               Some \<lparr>cb_on = on, cb_brokered = map (\<lambda>(key, name). (key, name = JString BrokerResolver)) (rev resolvers)\<rparr>
           | Some _ \<Rightarrow> None))"

definition brokered :: "credentialBroker \<Rightarrow> string \<Rightarrow> bool" where
  "brokered b key = (map_of (cb_brokered b) key = Some True)"

definition brokersAny :: "credentialBroker \<Rightarrow> bool" where
  "brokersAny b \<longleftrightarrow> list_ex (\<lambda>(key, _). brokered b key) (cb_brokered b)"

text \<open>One key of the loop of \<open>check\<close>; \<open>None\<close> means that the loop goes on.\<close>

definition check_key :: "render_env \<Rightarrow> credentialBroker \<Rightarrow> string \<Rightarrow> rendered_credential \<Rightarrow> bundle_error option" where
  "check_key env b key r =
     (let data = readInjectionPath env (rc_source r); refused = Some (HookError (credential_label key)) in
      if brokered b key \<or> \<not> Brokers key then None
      else if key = ''gemini_env'' then
        (case validateGeminiEnvFile (rv_lower env) data of
           Inl e \<Rightarrow> refused
         | Inr (ty, extra) \<Rightarrow> if ty \<noteq> ''gemini-api-key'' then None else refused)
      else if key = ''codex_auth'' then
        (case codexAuthHoldsAPIKey data of Inl e \<Rightarrow> Some e | Inr apiKey \<Rightarrow> if \<not> apiKey then None else refused)
      else refused)"

fun check_loop :: "render_env \<Rightarrow> credentialBroker \<Rightarrow> (string \<times> rendered_credential) list \<Rightarrow> bundle_error option" where
  "check_loop env b [] = None"
| "check_loop env b ((key, r) # rest) = (case check_key env b key r of Some e \<Rightarrow> Some e | None \<Rightarrow> check_loop env b rest)"

text \<open>The rendered credentials are in the order of their keys.\<close>

definition broker_check :: "render_env \<Rightarrow> credentialBroker \<Rightarrow> (string \<times> rendered_credential) list \<Rightarrow> bundle_error option" where
  "broker_check env b rendered = (if \<not> cb_on b then None else check_loop env b rendered)"

section \<open>What is rendered\<close>

definition source_of :: "tval \<Rightarrow> tval option" where
  "source_of raw = (case raw of TTable t \<Rightarrow> map_of t ''source'' | _ \<Rightarrow> Some raw)"

lemma render_credential_Inr:
  assumes "render_credential env policyDir agent mode key raw budget = Inr (r, budget')"
  shows "(r \<noteq> None) = entry_admits agent mode raw"
    and "r = Some c \<Longrightarrow> render_source env policyDir key (source_of raw) budget = Inr (c, budget')"
proof (atomize (full), cases raw)
  case (TTable t)
  then show "(r \<noteq> None) = entry_admits agent mode raw \<and>
      (r = Some c \<longrightarrow> render_source env policyDir key (source_of raw) budget = Inr (c, budget'))"
    using assms
    by (auto simp: render_credential_def Let_def entry_admits_def source_of_def
        split: option.splits if_splits sum.splits bool.splits dest!: render_selectedFor_Inr)
next
  case (TString x)
  then show "(r \<noteq> None) = entry_admits agent mode raw \<and>
      (r = Some c \<longrightarrow> render_source env policyDir key (source_of raw) budget = Inr (c, budget'))"
    using assms
    by (auto simp: render_credential_def Let_def entry_admits_def source_of_def field_admits_def
        split: option.splits if_splits sum.splits bool.splits dest!: render_selectedFor_Inr)
qed (use assms in \<open>simp_all add: render_credential_def Let_def\<close>)

lemma render_loop_Inr:
  assumes "render_loop env policyDir agent mode credentials keys budget = Inr (rendered, budget')" "distinct keys"
  shows "(\<exists>r. map_of rendered k = Some r) \<longleftrightarrow>
      k \<in> set keys \<and> (\<exists>raw. map_of credentials k = Some raw \<and> entry_admits agent mode raw)"
    and "map_of rendered k = Some r \<Longrightarrow>
      \<exists>raw b b'. map_of credentials k = Some raw \<and> render_source env policyDir k (source_of raw) b = Inr (r, b')"
proof (atomize (full), use assms in \<open>induction keys arbitrary: budget rendered\<close>)
  case (Cons key keys)
  show ?case
  proof (cases "map_of credentials key")
    case None
    then show ?thesis using Cons.IH [of budget rendered] Cons.prems by auto
  next
    case (Some raw)
    then obtain c b1 rest where c: "render_credential env policyDir agent mode key raw budget = Inr (c, b1)"
      and rest: "render_loop env policyDir agent mode credentials keys b1 = Inr (rest, budget')"
      and rendered: "rendered = (case c of None \<Rightarrow> rest | Some x \<Rightarrow> (key, x) # rest)"
      using Cons.prems(1) by (auto split: sum.splits prod.splits)
    note IH = Cons.IH [OF rest]
    have key: "key \<notin> set keys" using Cons.prems(2) by simp
    show ?thesis
    proof (cases "k = key")
      case True
      then have "map_of rest k = None" using IH Cons.prems(2) key by (cases "map_of rest k") auto
      then show ?thesis using True Some rendered render_credential_Inr [OF c] by (auto split: option.splits)
    next
      case False
      then have "map_of rendered k = map_of rest k" using rendered by (auto split: option.splits)
      then show ?thesis using IH Cons.prems(2) False by simp
    qed
  qed
qed simp

lemma relevant_keys_set: "set (relevant_keys agent) = set (allowedCredentialsForAgent agent)"
  by (simp add: relevant_keys_def allowedCredentialsForAgent_def all_scoped_keys_def scoped_keys_def registry_complete)

lemma relevant_keys_distinct: "distinct (relevant_keys agent)"
  by (simp add: relevant_keys_def)

lemma selected_keys_set: "set (selectedCredentialKeys agent) = set (allowedCredentialsForAgent agent)"
  by (simp add: selectedCredentialKeys_def allowedCredentialsForAgent_def)

section \<open>From the loaded policy to the rendered credentials\<close>

lemma rebase_credential_facts:
  shows "entry_admits agent mode (rebase_credential (\<lambda>v. resolve_rebase env v d) raw) = entry_admits agent mode raw"
  by (cases raw)
    (auto simp: rebase_credential_def entry_admits_def rebase_key_def resolve_rebase_def update_conv' split: option.splits)

lemma rewritten_admits: "entry_admits agent mode (TTable (rewritten cfg key m)) = entry_admits agent mode (TTable m)"
  by (simp add: entry_admits_def rewritten_def update_conv' delete_conv')

lemma outcome_admits:
  assumes "outcome env cfg k raw st"
  shows "(\<exists>raw'. map_of (rs_credentials st) k = Some raw' \<and> entry_admits (cf_agent cfg) (cf_mode cfg) raw') \<longleftrightarrow>
    entry_admits (cf_agent cfg) (cf_mode cfg) raw"
  using assms by (auto simp: outcome_def Let_def rewritten_admits split: tval.splits if_splits)

lemma map_of_rebased:
  "map_of (get_table (RebasePolicyFragment loaded d f) ''credentials'') k =
   map_option (rebase_credential (\<lambda>v. f v d)) (map_of (get_table loaded ''credentials'') k)"
proof -
  have "map_of (RebasePolicyFragment loaded d f) ''credentials'' =
      map_option (rebase_value (\<lambda>v. f v d) ''credentials'') (map_of loaded ''credentials'')"
    unfolding RebasePolicyFragment_def by (induction loaded) auto
  moreover have "map_of (map (\<lambda>(k, c). (k, g c)) t) k = map_option g (map_of t k)" for g :: "tval \<Rightarrow> tval" and t
    by (induction t) auto
  ultimately show ?thesis
    by (cases "map_of loaded ''credentials''") (auto simp: get_table_def rebase_value_def split: tval.splits)
qed

lemma resolve_run_outcome:
  assumes "resolve_run env cfg path loaded = Inr (policy, st)" "IsAbs (cf_outputRoot cfg)"
    "k \<in> set (selectedCredentialKeys (cf_agent cfg))"
  shows "get_table policy ''credentials'' = rs_credentials st"
    and "case map_of (get_table (RebasePolicyFragment loaded (Dir path) (resolve_rebase env)) ''credentials'') k of
        None \<Rightarrow> map_of (rs_credentials st) k = None \<and> resolvers_of st k = None
      | Some raw \<Rightarrow> outcome env cfg k raw st"
    and "md_broker (rs_metadata st) = (cf_placeholder cfg \<noteq> [])"
proof -
  let ?p = "RebasePolicyFragment loaded (Dir path) (resolve_rebase env)"
  have "get_table policy ''credentials'' = rs_credentials st \<and> md_broker (rs_metadata st) = (cf_placeholder cfg \<noteq> []) \<and>
      (case map_of (get_table ?p ''credentials'') k of
        None \<Rightarrow> map_of (rs_credentials st) k = None \<and> resolvers_of st k = None
      | Some raw \<Rightarrow> outcome env cfg k raw st)"
  proof (cases "map_of ?p ''credentials''")
    case None
    then show ?thesis using assms(1)
      by (auto simp: resolve_run_def Let_def get_table_def start_state_def split: option.splits)
  next
    case (Some v)
    then obtain cs where cs: "v = TTable cs" "get_table ?p ''credentials'' = cs"
      and l: "resolve_loop env cfg (selectedCredentialKeys (cf_agent cfg)) (start_state cfg cs) = Inr st"
      and p: "policy = AList.update ''credentials'' (TTable (rs_credentials st)) ?p"
      using assms(1) by (auto simp: resolve_run_def Let_def get_table_def split: option.splits tval.splits sum.splits)
    have "get_table policy ''credentials'' = rs_credentials st" using p by (simp add: get_table_def update_conv')
    then show ?thesis
      using cs resolve_loop_frame(1) [OF l] resolve_loop_outcome [OF l registry_keys_distinct assms(2) _ _ assms(3)] registry_keys_plain
      by (simp add: start_state_def)
  qed
  then show "get_table policy ''credentials'' = rs_credentials st"
    "case map_of (get_table ?p ''credentials'') k of
        None \<Rightarrow> map_of (rs_credentials st) k = None \<and> resolvers_of st k = None
      | Some raw \<Rightarrow> outcome env cfg k raw st"
    "md_broker (rs_metadata st) = (cf_placeholder cfg \<noteq> [])" by blast+
qed

lemma rendered_iff:
  assumes "renderCredentialsWithBudget env policy policyDir agent mode b = Inr (rendered, b')"
  shows "(\<exists>r. map_of rendered k = Some r) \<longleftrightarrow>
      k \<in> set (allowedCredentialsForAgent agent) \<and>
      (\<exists>raw. map_of (get_table policy ''credentials'') k = Some raw \<and> entry_admits agent mode raw)"
    and "map_of rendered k = Some r \<Longrightarrow>
      \<exists>raw b b'. map_of (get_table policy ''credentials'') k = Some raw \<and> render_source env policyDir k (source_of raw) b = Inr (r, b')"
proof -
  have "rendered = [] \<and> get_table policy ''credentials'' = [] \<or>
      render_loop env policyDir agent mode (get_table policy ''credentials'') (relevant_keys agent) b = Inr (rendered, b')"
    using assms by (auto simp: renderCredentialsWithBudget_def get_table_def split: option.splits tval.splits)
  then show "(\<exists>r. map_of rendered k = Some r) \<longleftrightarrow>
      k \<in> set (allowedCredentialsForAgent agent) \<and>
      (\<exists>raw. map_of (get_table policy ''credentials'') k = Some raw \<and> entry_admits agent mode raw)"
    "map_of rendered k = Some r \<Longrightarrow>
      \<exists>raw b b'. map_of (get_table policy ''credentials'') k = Some raw \<and> render_source env policyDir k (source_of raw) b = Inr (r, b')"
    using render_loop_Inr [OF _ relevant_keys_distinct] relevant_keys_set by fastforce+
qed

lemma resolve_run_distinct:
  "resolve_run env cfg path loaded = Inr (policy, st) \<Longrightarrow> distinct (map fst (md_resolvers (rs_metadata st)))"
  by (auto simp: resolve_run_def Let_def start_state_def split: option.splits tval.splits sum.splits dest!: resolve_loop_distinct)

lemma map_of_rev: "distinct (map fst xs) \<Longrightarrow> map_of (rev xs) = map_of xs"
  by (intro map_of_inject_set [THEN iffD2]) (simp_all flip: rev_map)

lemma broker_of_metadata:
  assumes "credentialBrokerFromMetadata (metadata_object entrypoint sources m) = Some b" "distinct (map fst (md_resolvers m))"
  shows "cb_on b = md_broker m" "brokered b key \<longleftrightarrow> map_of (md_resolvers m) key = Some BrokerResolver"
proof -
  have b: "b = \<lparr>cb_on = md_broker m, cb_brokered =
      map (\<lambda>(key, name). (key, name = JString BrokerResolver)) (rev (map (\<lambda>(k, v). (k, JString v)) (md_resolvers m)))\<rparr>"
    using assms(1) by (simp add: credentialBrokerFromMetadata_def metadata_object_def json_lookup_def string_object_def)
  then show "cb_on b = md_broker m" by simp
  have "map_of (map (\<lambda>(k, v). (k, f v)) xs) key = map_option f (map_of xs key)" for f :: "'x \<Rightarrow> 'y" and xs
    by (induction xs) auto
  then have "map_of (cb_brokered b) key = map_option (\<lambda>v. JString v = JString BrokerResolver) (map_of (rev (md_resolvers m)) key)"
    using b by (simp add: rev_map comp_def case_prod_unfold)
  then show "brokered b key \<longleftrightarrow> map_of (md_resolvers m) key = Some BrokerResolver"
    by (auto simp: brokered_def map_of_rev [OF assms(2)])
qed

lemma check_loop_None: "check_loop env b rendered = None \<Longrightarrow> (key, r) \<in> set rendered \<Longrightarrow> check_key env b key r = None"
  by (induction env b rendered rule: check_loop.induct) (auto split: option.splits)

lemma expandHostPath_abs:
  assumes "IsAbs p"
  shows "expandHostPath env p base = Some (Clean p)"
proof -
  have "\<not> HasPrefix p ''~''" "p \<noteq> []" "p \<noteq> ''~''" "\<not> HasPrefix p ''~/''" using assms by (auto simp: IsAbs_Cons)
  then show ?thesis using assms
    by (simp add: expandHostPath_def ExpandUserPathStrictRequireNonEmpty_def expandUserPath_def filepath_Abs_def)
qed

lemma render_source_path:
  assumes "render_source env dir key (Some (TString p)) b = Inr (r, b')" "IsAbs p"
  shows "rc_source r = Clean p"
  using assms
  by (auto simp: render_source_def render_validateSourcePath_def Let_def expandHostPath_abs
      split: if_splits sum.splits option.splits)

lemma destination_clean:
  "IsAbs (cf_outputRoot cfg) \<Longrightarrow> SLASH \<notin> set key \<Longrightarrow>
   IsAbs (destination_of cfg key) \<and> Clean (destination_of cfg key) = destination_of cfg key"
  using elems_of_elems [of "elems (cf_outputRoot cfg) @ resolved_elems key"] elems_plain resolved_plain
  by (simp add: destination_elems Clean_abs)

text \<open>What the agent can learn from a credential that the broker serves.\<close>

definition keeps_api_key :: "render_env \<Rightarrow> string \<Rightarrow> string \<Rightarrow> rendered_credential \<Rightarrow> bool" where
  "keeps_api_key env placeholder key r \<longleftrightarrow>
     rv_read env (rc_source r) = Some (placeholder_content key placeholder) \<or>
     key = ''gemini_env'' \<and>
       (\<exists>ty extra. validateGeminiEnvFile (rv_lower env) (readInjectionPath env (rc_source r)) = Inr (ty, extra) \<and> ty \<noteq> ''gemini-api-key'') \<or>
     key = ''codex_auth'' \<and> codexAuthHoldsAPIKey (readInjectionPath env (rc_source r)) = Inr False"

lemma check_key_None:
  assumes "check_key env b key r = None" "Brokers key" "\<not> brokered b key"
  shows "keeps_api_key env placeholder key r"
  using assms by (auto simp: check_key_def Let_def keeps_api_key_def split: if_splits sum.splits prod.splits)

text \<open>The files of the resolver are there when the renderer reads them.\<close>

definition sees_files :: "render_env \<Rightarrow> (string \<times> string) list \<Rightarrow> bool" where
  "sees_files env files \<longleftrightarrow> list_all (\<lambda>(p, content). rv_read env p = Some content) files"

lemma brokered_rendered:
  assumes "resolve_run henv cfg path loaded = Inr (policy, st)" "IsAbs (cf_outputRoot cfg)" "cf_placeholder cfg \<noteq> []"
    and "renderCredentialsWithBudget env policy dir (cf_agent cfg) mode b = Inr (rendered, b')"
    and "sees_files env (rs_files st)" "map_of rendered key = Some r" "resolvers_of st key = Some BrokerResolver"
  shows "rv_read env (rc_source r) = Some (placeholder_content key (cf_placeholder cfg))"
proof -
  have k: "key \<in> set (selectedCredentialKeys (cf_agent cfg))"
    using rendered_iff(1) [OF assms(4), of key] assms(6) by (simp add: selected_keys_set)
  note run = resolve_run_outcome [OF assms(1,2) k]
  obtain raw where raw: "outcome henv cfg key raw st"
    using run(2) assms(7) by (cases "map_of (get_table (RebasePolicyFragment loaded (Dir path) (resolve_rebase henv)) ''credentials'') key") auto
  then obtain m state content where m: "map_of (rs_credentials st) key = Some (TTable (rewritten cfg key m))"
    and c: "resolveCredential henv key BrokerResolver (destination_of cfg key) (cf_resolutionMode cfg) (cf_placeholder cfg) = Inr (state, content)"
      "map_of (rs_files st) (destination_of cfg key) = Some content"
    using assms(7) by (auto simp: outcome_def Let_def split: tval.splits if_splits)
  have content: "content = placeholder_content key (cf_placeholder cfg)"
    using c(1) assms(3) by (auto simp: resolveCredential_def resolveBrokerPlaceholder_def split: if_splits)
  obtain raw' b1 b2 where "map_of (get_table policy ''credentials'') key = Some raw'" "render_source env dir key (source_of raw') b1 = Inr (r, b2)"
    using rendered_iff(2) [OF assms(4,6)] by blast
  then have "render_source env dir key (Some (TString (destination_of cfg key))) b1 = Inr (r, b2)"
    using m run(1) by (auto simp: source_of_def rewritten_def update_conv')
  then have "rc_source r = destination_of cfg key"
    using render_source_path destination_clean [OF assms(2) registry_keys_plain [OF k]] by metis
  then show ?thesis using assms(5) c(2) content by (auto simp: sees_files_def list_all_iff dest!: map_of_SomeD)
qed

section \<open>Properties\<close>

text \<open>
  C17: a session that brokers credentials gives the agent placeholders in place of keys. When the policy is
  resolved with the placeholder of the session, rendered, and accepted by the broker check on the metadata of the
  resolver, every rendered credential that the broker serves is the file with the placeholder, or a Gemini file
  that selects another way to authenticate, or a Codex file without an API key.
\<close>

theorem brokered_session_keeps_keys:
  assumes "resolve_run henv cfg path loaded = Inr (policy, st)" "IsAbs (cf_outputRoot cfg)" "cf_placeholder cfg \<noteq> []"
    and "renderCredentialsWithBudget env policy dir (cf_agent cfg) (cf_mode cfg) b = Inr (rendered, b')"
    and "sees_files env (rs_files st)"
    and "credentialBrokerFromMetadata (metadata_object entrypoint sources (rs_metadata st)) = Some broker"
    and "broker_check env broker rendered = None" "map_of rendered key = Some r" "Brokers key"
  shows "keeps_api_key env (cf_placeholder cfg) key r"
proof -
  have k: "key \<in> set (selectedCredentialKeys (cf_agent cfg))"
    using rendered_iff(1) [OF assms(4), of key] assms(8) by (simp add: selected_keys_set)
  note bm = broker_of_metadata [OF assms(6) resolve_run_distinct [OF assms(1)]]
  have "cb_on broker" using bm(1) resolve_run_outcome(3) [OF assms(1,2) k] assms(3) by simp
  then have "check_key env broker key r = None"
    using assms(7) check_loop_None map_of_SomeD [OF assms(8)] by (simp add: broker_check_def)
  then show ?thesis
    using check_key_None assms(9) bm(2) brokered_rendered [OF assms(1-5,8)] by (cases "brokered broker key") (auto simp: keeps_api_key_def)
qed

text \<open>
  C20: a launch injects what the status shows. When the status selects credentials for the agent and mode of a session,
  and the policy is resolved and rendered for the same agent and mode, the rendered credentials have exactly the
  keys of the selected ones.
\<close>

theorem launch_injects_selected:
  assumes "selectedCredentials loaded (cf_agent cfg) (cf_mode cfg) = Inr sel" "cf_agent cfg \<noteq> []"
    and "resolve_run henv cfg path loaded = Inr (policy, st)" "IsAbs (cf_outputRoot cfg)"
    and "renderCredentialsWithBudget env policy dir (cf_agent cfg) (cf_mode cfg) b = Inr (rendered, b')"
  shows "fst ` set rendered = fst ` set sel"
proof -
  have "(\<exists>r. map_of rendered k = Some r) \<longleftrightarrow> (\<exists>raw. map_of sel k = Some raw)" for k
  proof (cases "k \<in> set (allowedCredentialsForAgent (cf_agent cfg))")
    case True
    note run = resolve_run_outcome [OF assms(3,4), of k, unfolded selected_keys_set, OF True]
    have "(\<exists>raw'. map_of (rs_credentials st) k = Some raw' \<and> entry_admits (cf_agent cfg) (cf_mode cfg) raw') \<longleftrightarrow>
        (\<exists>raw. map_of (get_table loaded ''credentials'') k = Some raw \<and> entry_admits (cf_agent cfg) (cf_mode cfg) raw)"
      using run(2) outcome_admits rebase_credential_facts
      by (cases "map_of (get_table loaded ''credentials'') k") (fastforce simp: map_of_rebased)+
    then show ?thesis
      using rendered_iff(1) [OF assms(5), of k] selectedCredentials_iff(1) [OF assms(1,2)] run(1) True
      by (simp add: credentialAllowedForAgent_def)
  next
    case False
    then show ?thesis
      using rendered_iff(1) [OF assms(5), of k] selectedCredentials_iff(1) [OF assms(1,2)] by (simp add: credentialAllowedForAgent_def)
  qed
  then have "dom (map_of rendered) = dom (map_of sel)" by (auto simp: dom_def)
  then show ?thesis by (simp add: dom_map_of_conv_image_fst)
qed

section \<open>A session\<close>

definition demo_cfg :: config where
  "demo_cfg =
     \<lparr>cf_agent = ''claude'', cf_mode = ''strict'', cf_resolutionMode = ''launch'', cf_outputRoot = ''/run/o'',
      cf_placeholder = ''wcph-1''\<rparr>"

definition demo_policy :: table where
  "demo_policy =
     [(''version'', TInt 1),
      (''credentials'', TTable
         [(''codex_auth'', TString ''/s/auth.json''),
          (''github_hosts'', TTable [(''source'', TString ''/s/hosts.yml''), (''providers'', TArr [TString ''claude''])]),
          (''claude_mcp'', TTable [(''source'', TString ''/s/mcp.json''), (''modes'', TArr [TString ''build''])]),
          (''claude_api_key'', TTable [(''resolver'', TString ''keychain-broker''), (''modes'', TArr [TString ''strict''])])])]"

definition demo_host :: host_env where
  "demo_host =
     \<lparr>pe_home = Some ''/home/u'', pe_user = (\<lambda>_. None), pe_cwd = Some ''/w'', pe_darwin = False, pe_lstat = (\<lambda>_. Some False),
      pe_stat = (\<lambda>_. Some True), pe_eval = Some, he_text = plain_ops, he_secret = (\<lambda>_. Some ''secret''), he_isDir = (\<lambda>_. False),
      he_statError = (\<lambda>_. False), he_write = (\<lambda>_. True), he_export = []\<rparr>"

definition demo_files :: "string \<Rightarrow> string option" where
  "demo_files p = (if p = ''/run/o/resolved/credentials/claude_api_key.json'' then Some (''wcph-1'' @ [NL]) else Some ''secret'')"

definition demo_render :: render_env where
  "demo_render =
     \<lparr>pe_home = Some ''/home/u'', pe_user = (\<lambda>_. None), pe_cwd = Some ''/w'', pe_darwin = False, pe_lstat = (\<lambda>_. Some False),
      pe_stat = (\<lambda>_. Some True), pe_eval = Some, rv_text = plain_ops, rv_lower = (\<lambda>r. r), rv_isDir = (\<lambda>_. False),
      rv_readlink = (\<lambda>_. None), rv_lstatError = (\<lambda>_. False), rv_ownerOnly = (\<lambda>_. True), rv_size = (\<lambda>_. 7), rv_read = demo_files\<rparr>"

definition demo_resolved :: "table \<times> resolver_state" where
  "demo_resolved = (case resolve_run demo_host demo_cfg ''/p/policy.toml'' demo_policy of Inr x \<Rightarrow> x | Inl _ \<Rightarrow> ([], start_state demo_cfg []))"

definition demo_rendered :: "(string \<times> rendered_credential) list \<times> injectionTreeBudget" where
  "demo_rendered =
     (case renderCredentialsWithBudget demo_render (fst demo_resolved) ''/run/o'' ''claude'' ''strict'' newInjectionTreeBudget of
        Inr x \<Rightarrow> x | Inl _ \<Rightarrow> ([], newInjectionTreeBudget))"

definition demo_broker :: credentialBroker where
  "demo_broker = \<lparr>cb_on = True, cb_brokered = [(''claude_api_key'', True)]\<rparr>"

lemma result_eq: "is_ok e \<Longrightarrow> x = (case e of Inr y \<Rightarrow> y | Inl _ \<Rightarrow> d) \<Longrightarrow> e = Inr x"
  by (cases e) auto

lemma demo_run: "resolve_run demo_host demo_cfg ''/p/policy.toml'' demo_policy = Inr (fst demo_resolved, snd demo_resolved)"
proof (rule result_eq)
  show "is_ok (resolve_run demo_host demo_cfg ''/p/policy.toml'' demo_policy)" by code_simp
qed (simp add: demo_resolved_def)

lemma demo_render_run:
  "renderCredentialsWithBudget demo_render (fst demo_resolved) ''/run/o'' (cf_agent demo_cfg) (cf_mode demo_cfg) newInjectionTreeBudget =
   Inr (fst demo_rendered, snd demo_rendered)"
proof (rule result_eq)
  show "is_ok (renderCredentialsWithBudget demo_render (fst demo_resolved) ''/run/o'' (cf_agent demo_cfg) (cf_mode demo_cfg)
    newInjectionTreeBudget)" by code_simp
qed (simp add: demo_rendered_def demo_cfg_def)

lemma demo_root: "IsAbs (cf_outputRoot demo_cfg)" "cf_placeholder demo_cfg \<noteq> []" "cf_agent demo_cfg \<noteq> []" "Brokers ''claude_api_key''"
  by code_simp+

lemma demo_sees: "sees_files demo_render (rs_files (snd demo_resolved))"
  by code_simp

lemma demo_metadata:
  "credentialBrokerFromMetadata (metadata_object ''policy.toml'' JNull (rs_metadata (snd demo_resolved))) = Some demo_broker"
  by code_simp

lemma demo_check: "broker_check demo_render demo_broker (fst demo_rendered) = None"
  by code_simp

lemma demo_keys: "map fst (fst demo_rendered) = [''claude_api_key'', ''github_hosts'']"
  by code_simp

theorem brokered_session_keeps_keys_witness:
  "\<exists>r. map_of (fst demo_rendered) ''claude_api_key'' = Some r \<and> keeps_api_key demo_render ''wcph-1'' ''claude_api_key'' r"
proof -
  obtain r where r: "map_of (fst demo_rendered) ''claude_api_key'' = Some r"
    using demo_keys by (cases "fst demo_rendered") auto
  have "keeps_api_key demo_render (cf_placeholder demo_cfg) ''claude_api_key'' r"
    by (rule brokered_session_keeps_keys [OF demo_run demo_root(1,2) demo_render_run demo_sees demo_metadata demo_check r demo_root(4)])
  then show ?thesis using r by (simp add: demo_cfg_def)
qed

definition demo_selected :: table where
  "demo_selected = (case selectedCredentials demo_policy (cf_agent demo_cfg) (cf_mode demo_cfg) of Inr x \<Rightarrow> x | Inl _ \<Rightarrow> [])"

theorem launch_injects_selected_witness:
  "fst ` set (fst demo_rendered) = fst ` set demo_selected \<and> map fst (fst demo_rendered) = [''claude_api_key'', ''github_hosts'']"
proof -
  have "is_ok (selectedCredentials demo_policy (cf_agent demo_cfg) (cf_mode demo_cfg))" by code_simp
  then have "selectedCredentials demo_policy (cf_agent demo_cfg) (cf_mode demo_cfg) = Inr demo_selected"
    by (rule result_eq) (simp add: demo_selected_def)
  from launch_injects_selected [OF this demo_root(3) demo_run demo_root(1) demo_render_run] show ?thesis
    using demo_keys by blast
qed

text \<open>
  The check looks at the selected way to authenticate and not at the keys of the file: a Gemini file that selects Google Code
  Assist and also sets an API key is rendered as it is.
\<close>

definition gemini_leak :: string where
  "gemini_leak = ''GOOGLE_GENAI_USE_GCA=true'' @ [NL] @ ''GEMINI_API_KEY=k'' @ [NL]"

theorem broker_check_admits_gemini_key:
  assumes "rv_read env (rc_source r) = Some gemini_leak"
  shows "check_key env b ''gemini_env'' r = None"
proof -
  have l: "list_all (\<lambda>c. byte c < 0x80) ''true''" "map lower_ascii ''true'' = ''true''" by code_simp+
  have "env_lines 0 (split_on NL gemini_leak) [] = Inr [(''GOOGLE_GENAI_USE_GCA'', ''true''), (''GEMINI_API_KEY'', ''k'')]" by code_simp
  moreover have "env_supported [(''GOOGLE_GENAI_USE_GCA'', ''true''), (''GEMINI_API_KEY'', ''k'')] = None" by code_simp
  moreover have "parseEnvBooleanValue lower [(''GOOGLE_GENAI_USE_GCA'', ''true''), (''GEMINI_API_KEY'', ''k'')] ''GOOGLE_GENAI_USE_GCA'' = Inr True"
    for lower using l TrimSpace_id [of "''true''"] by (simp add: parseEnvBooleanValue_def ToLower_def graphic_def)
  moreover have "parseEnvBooleanValue lower [(''GOOGLE_GENAI_USE_GCA'', ''true''), (''GEMINI_API_KEY'', ''k'')] ''GOOGLE_GENAI_USE_VERTEXAI'' = Inr False"
    for lower by (simp add: parseEnvBooleanValue_def)
  moreover have "gemini_mode lower [(''GOOGLE_GENAI_USE_GCA'', ''true''), (''GEMINI_API_KEY'', ''k'')] True False = Inr (''oauth-personal'', GeminiGoogleAuthEndpoints)"
    for lower by (simp add: gemini_mode_def env_get_def geminiVertexLocationKeys_def TrimSpace_def)
  moreover have "readInjectionPath env (rc_source r) = Some gemini_leak"
    using assms by (simp add: readInjectionPath_def gemini_leak_def maxInjectionFileBytes_def)
  ultimately show ?thesis
    by (simp add: check_key_def Let_def validateGeminiEnvFile_def parseSimpleEnvFile_def del: env_lines.simps env_supported.simps)
qed

end
