(* ===== verification/Network_Render.thy ===== *)
theory Network_Render
  imports Credential_Render
begin

text \<open>
  The \<open>[network]\<close> table of a policy in the injection bundle, \<open>src/internal/injection/render_network.go\<close>: the endpoints that a
  policy adds to the allowlist of a session and those that it takes away, and the list that the manifest carries.
\<close>

definition networkEndpointArray :: "tval \<Rightarrow> string \<Rightarrow> (bundle_error, string list) result" where
  "networkEndpointArray raw label = (case raw of TArr items \<Rightarrow> stringSlice items label | _ \<Rightarrow> Inl (HookError label))"

text \<open>The loop over the items, which fills a set.\<close>

fun endpoint_set :: "string list \<Rightarrow> string \<Rightarrow> (bundle_error, string list) result" where
  "endpoint_set [] label = Inr []"
| "endpoint_set (endpoint # rest) label =
     (if ValidateEgressEndpoint endpoint \<noteq> None then Inl (HookError label)
      else case endpoint_set rest label of Inl e \<Rightarrow> Inl e | Inr es \<Rightarrow> Inr (List.insert endpoint es))"

definition parseNetworkEndpointList :: "table \<Rightarrow> string \<Rightarrow> (bundle_error, string list) result" where
  "parseNetworkEndpointList network key =
     (case map_of network key of
        None \<Rightarrow> Inr []
      | Some raw \<Rightarrow>
          (case networkEndpointArray raw (''network.'' @ key) of
             Inl e \<Rightarrow> Inl e
           | Inr items \<Rightarrow>
               (case endpoint_set items (''network.'' @ key) of
                  Inl e \<Rightarrow> Inl e
                | Inr es \<Rightarrow> Inr (sort_stable (<) es))))"

definition renderNetwork :: "table \<Rightarrow> (bundle_error, string list \<times> string list) result" where
  "renderNetwork policy =
     (case map_of policy ''network'' of
        None \<Rightarrow> Inr ([], [])
      | Some (TTable network) \<Rightarrow>
          (case validateAllowedKeys network networkKeys ''network'' of
             Some e \<Rightarrow> Inl e
           | None \<Rightarrow>
               (case parseNetworkEndpointList network ''allow_endpoints'' of
                  Inl e \<Rightarrow> Inl e
                | Inr allowed \<Rightarrow>
                    (case parseNetworkEndpointList network ''deny_endpoints'' of
                       Inl e \<Rightarrow> Inl e
                     | Inr denied \<Rightarrow> Inr (allowed, denied))))
      | Some _ \<Rightarrow> Inl (HookError ''network''))"

definition mergeEndpointLists :: "string list list \<Rightarrow> string list" where
  "mergeEndpointLists endpointLists = sort_stable (<) (remdups (filter (\<lambda>e. e \<noteq> []) (concat endpointLists)))"

text \<open>The field \<open>extra_endpoints\<close> of the manifest.\<close>

definition manifest_endpoints :: "render_env \<Rightarrow> (string \<times> rendered_credential) list \<Rightarrow> string list \<Rightarrow> string list" where
  "manifest_endpoints env rendered allowed = mergeEndpointLists [deriveCredentialExtraEndpoints env rendered, allowed]"

section \<open>Agreement with the validator\<close>

definition valid_list :: "string list \<Rightarrow> bool" where
  "valid_list es \<longleftrightarrow> list_all (\<lambda>e. ValidateEgressEndpoint e = None) es"

lemma endpoint_set_ok: "is_ok (endpoint_set es label) = valid_list es"
  by (induction es) (auto simp: valid_list_def is_ok_def split: sum.splits)

lemma endpoint_set_Inr: "endpoint_set es label = Inr xs \<Longrightarrow> set xs = set es \<and> distinct xs \<and> valid_list es"
  by (induction es arbitrary: xs) (auto simp: valid_list_def split: if_splits sum.splits)

lemma stringSlice_ok: "is_ok (stringSlice vs label) = (\<exists>es. vs = map TString es)"
proof
  assume "is_ok (stringSlice vs label)"
  then show "\<exists>es. vs = map TString es" using stringSlice_Inr [of vs label] by (cases "stringSlice vs label") auto
qed (auto simp: stringSlice_strings)

lemma parse_list_ok:
  "is_ok (parseNetworkEndpointList network key) = (case map_of network key of None \<Rightarrow> True | Some v \<Rightarrow> endpoints v)"
proof (cases "map_of network key")
  case (Some v)
  show ?thesis
  proof (cases v)
    case (TArr vs)
    show ?thesis
    proof (cases "stringSlice vs (''network.'' @ key)")
      case (Inl e)
      then have "\<nexists>es. vs = map TString es" using stringSlice_ok [of vs "''network.'' @ key"] by simp
      then show ?thesis using Some TArr Inl by (auto simp: parseNetworkEndpointList_def networkEndpointArray_def endpoints_def)
    next
      case (Inr es)
      then have "vs = map TString es" by (rule stringSlice_Inr)
      moreover have "endpoints (TArr (map TString es)) = valid_list es"
        by (auto simp: endpoints_def valid_list_def inj_map_eq_map [of TString] inj_def)
      ultimately show ?thesis using Some TArr Inr endpoint_set_ok [of es "''network.'' @ key"]
        by (cases "endpoint_set es (''network.'' @ key)") (auto simp: parseNetworkEndpointList_def networkEndpointArray_def)
    qed
  qed (use Some in \<open>simp_all add: parseNetworkEndpointList_def networkEndpointArray_def endpoints_def\<close>)
qed (simp add: parseNetworkEndpointList_def)

lemma renderNetwork_ok: "is_ok (renderNetwork policy) = (validatePolicyNetwork policy = None)"
proof (cases "map_of policy ''network''")
  case (Some v)
  show ?thesis
  proof (cases v)
    case (TTable network)
    have "(validate_endpoints network networkKeys = None) =
        (is_ok (parseNetworkEndpointList network ''allow_endpoints'') \<and> is_ok (parseNetworkEndpointList network ''deny_endpoints''))"
      by (auto simp: networkKeys_def parse_list_ok valid_endpoints_iff endpoints_def split: option.splits tval.splits)
    then show ?thesis using Some TTable
      by (auto simp: renderNetwork_def validatePolicyNetwork_def is_ok_def split: option.splits sum.splits)
  qed (use Some in \<open>simp_all add: renderNetwork_def validatePolicyNetwork_def\<close>)
qed (simp add: renderNetwork_def validatePolicyNetwork_def)

text \<open>The endpoints that a policy lists under a key.\<close>

definition listed :: "table \<Rightarrow> string \<Rightarrow> string set" where
  "listed policy key = {e. \<exists>vs. map_of (get_table policy ''network'') key = Some (TArr vs) \<and> TString e \<in> set vs}"

interpretation endpoint_order: weak_order "(<) :: string \<Rightarrow> string \<Rightarrow> bool"
  by unfold_locales auto

lemma parse_list_Inr:
  assumes "parseNetworkEndpointList network key = Inr es"
  shows "set es = {e. \<exists>vs. map_of network key = Some (TArr vs) \<and> TString e \<in> set vs} \<and> distinct es \<and> valid_list es \<and>
    sorted_wrt (\<lambda>a b. \<not> b < a) es"
proof (cases "map_of network key")
  case None
  then show ?thesis using assms by (simp add: parseNetworkEndpointList_def valid_list_def)
next
  case (Some v)
  then obtain vs items xs where v: "v = TArr vs" "vs = map TString items" and xs: "endpoint_set items (''network.'' @ key) = Inr xs"
    and es: "es = sort_stable (<) xs"
    using assms by (auto simp: parseNetworkEndpointList_def networkEndpointArray_def split: sum.splits tval.splits dest!: stringSlice_Inr)
  show ?thesis
    using endpoint_set_Inr [OF xs] es v Some endpoint_order.sorted_sort [of xs] by (auto simp: valid_list_def list_all_iff)
qed

lemma renderNetwork_lists:
  assumes "renderNetwork policy = Inr (allowed, denied)"
  shows "set allowed = listed policy ''allow_endpoints''" "set denied = listed policy ''deny_endpoints''"
    "valid_list allowed \<and> valid_list denied" "distinct allowed \<and> distinct denied"
    "sorted_wrt (\<lambda>a b. \<not> b < a) allowed \<and> sorted_wrt (\<lambda>a b. \<not> b < a) denied"
proof -
  have "allowed = [] \<and> denied = [] \<and> get_table policy ''network'' = [] \<or>
      parseNetworkEndpointList (get_table policy ''network'') ''allow_endpoints'' = Inr allowed \<and>
      parseNetworkEndpointList (get_table policy ''network'') ''deny_endpoints'' = Inr denied"
    using assms by (auto simp: renderNetwork_def get_table_def split: option.splits tval.splits sum.splits)
  then show "set allowed = listed policy ''allow_endpoints''" "set denied = listed policy ''deny_endpoints''"
    "valid_list allowed \<and> valid_list denied" "distinct allowed \<and> distinct denied"
    "sorted_wrt (\<lambda>a b. \<not> b < a) allowed \<and> sorted_wrt (\<lambda>a b. \<not> b < a) denied"
    using parse_list_Inr [of "get_table policy ''network''"] by (auto simp: listed_def valid_list_def)
qed

lemma derived_valid: "valid_list (deriveCredentialExtraEndpoints env rendered)"
proof (cases "map_of rendered ''gemini_env''")
  case (Some r)
  then show ?thesis
    using gemini_endpoints_valid [of "rv_lower env" "readInjectionPath env (rc_source r)"]
    by (cases "validateGeminiEnvFile (rv_lower env) (readInjectionPath env (rc_source r))")
      (auto simp: deriveCredentialExtraEndpoints_def valid_list_def list_all_iff)
qed (simp add: deriveCredentialExtraEndpoints_def valid_list_def)

section \<open>Properties\<close>

text \<open>
  C23: the renderer accepts a \<open>[network]\<close> table exactly when the validator of the policy commands does, and what it passes
  on is what the policy lists: sorted, without repetition, and in the grammar of endpoints. The list of the manifest
  adds only valid endpoints that a rendered credential needs.
\<close>

theorem renderNetwork_exact:
  "is_ok (renderNetwork policy) = (validatePolicyNetwork policy = None) \<and>
   (case renderNetwork policy of
      Inl _ \<Rightarrow> True
    | Inr (allowed, denied) \<Rightarrow>
        set allowed = listed policy ''allow_endpoints'' \<and> set denied = listed policy ''deny_endpoints'' \<and>
        distinct allowed \<and> distinct denied \<and>
        sorted_wrt (\<lambda>a b. \<not> b < a) allowed \<and> sorted_wrt (\<lambda>a b. \<not> b < a) denied \<and>
        set (manifest_endpoints env rendered allowed) =
          set (deriveCredentialExtraEndpoints env rendered) \<union> listed policy ''allow_endpoints'' \<and>
        list_all (\<lambda>e. ValidateEgressEndpoint e = None) (manifest_endpoints env rendered allowed @ denied))"
proof -
  have bad: "ValidateEgressEndpoint [] \<noteq> None" by code_simp
  show ?thesis
    using renderNetwork_ok [of policy] renderNetwork_lists [of policy] derived_valid [of env rendered] bad
    by (auto simp: manifest_endpoints_def mergeEndpointLists_def valid_list_def list_all_iff split: sum.splits prod.splits)
qed

end
