(* ===== verification/Policy_Commands.thy ===== *)
theory Policy_Commands
  imports Policy_Render Credential_Select Authstate
begin

text \<open>
  The commands that edit the credentials of a policy, \<open>src/internal/authpolicy/manage_mutate.go\<close> with the staging of
  \<open>staging.go\<close> and the atomic write of \<open>src/internal/rootio/rootio.go\<close>. The state is the policy file and the files below the
  managed root, by relative path. Every system call can fail: \<open>ce_io\<close> says which do. The lemmas show that a command
  that reports an error has changed nothing when the calls of its roll back succeed, and where that needs more.
\<close>

section \<open>The host\<close>

datatype syscall =
    ReadPolicy
  | OpenRoot
  | StatFile string
  | CreateFile string
  | CloseFile string
  | CopyFile string
  | MkdirAll string
  | RemoveFile string
  | RenameFile string string
  | ChmodFile string
  | OpenSource string
  | PrepareTemp
  | WriteTemp
  | RenamePolicy
  | ChmodPolicy

record command_env = path_env +
  ce_text :: text_ops
  ce_io :: "syscall \<Rightarrow> bool"
  ce_random :: "string \<Rightarrow> string list"
  ce_secret :: "string \<Rightarrow> string option"
  ce_marker :: "string \<Rightarrow> bool"
  ce_loads :: "string option \<Rightarrow> (bundle_error, table \<times> PolicySource list) result"

text \<open>
  \<open>ce_random\<close> are the suffixes that the random source gives for a prefix, \<open>ce_secret\<close> the content of a file that
  \<open>secretfile.Open\<close> admits, \<open>ce_marker\<close> whether a directory holds the marker of a managed root, \<open>ce_loads\<close> the outcome of
  \<open>loadPolicyBundle\<close> on a policy file with the given bytes.
\<close>

record world =
  w_managed :: "string \<Rightarrow> string option"
  w_policy :: "string option"

definition put_file :: "string \<Rightarrow> string \<Rightarrow> world \<Rightarrow> world" where
  "put_file p content w = w\<lparr>w_managed := (w_managed w)(p := Some content)\<rparr>"

definition remove_file :: "string \<Rightarrow> world \<Rightarrow> world" where
  "remove_file p w = w\<lparr>w_managed := (w_managed w)(p := None)\<rparr>"

definition rename_file :: "string \<Rightarrow> string \<Rightarrow> world \<Rightarrow> world" where
  "rename_file p q w = w\<lparr>w_managed := (w_managed w)(p := None, q := w_managed w p)\<rparr>"

type_synonym 'a outcome = "(bundle_error, 'a) result \<times> world"

section \<open>Files below the managed root\<close>

definition normalizeRootRelativePath :: "string \<Rightarrow> (bundle_error, string) result" where
  "normalizeRootRelativePath path =
     (if IsAbs path then Inl (HookError path)
      else if Clean path = ''.'' \<or> Clean path = ''/'' then Inl (HookError path)
      else Inr (Clean path))"

definition temp_path :: "string \<Rightarrow> string \<Rightarrow> string \<Rightarrow> string" where
  "temp_path parent prefx suff =
     (let name = prefx @ suff @ ''.tmp'' in if Clean parent = ''.'' then name else Join [Clean parent, name])"

text \<open>The loop that creates a file with a name that is not taken; no more than 32 attempts.\<close>

fun create_temp :: "(syscall \<Rightarrow> bool) \<Rightarrow> world \<Rightarrow> string list \<Rightarrow> (bundle_error, string) result" where
  "create_temp io w [] = Inl (HookError [])"
| "create_temp io w (p # ps) =
     (if w_managed w p \<noteq> None then create_temp io w ps
      else if io (CreateFile p) then Inr p
      else Inl (HookError p))"

definition temp_candidates :: "command_env \<Rightarrow> string \<Rightarrow> string \<Rightarrow> string list" where
  "temp_candidates env parent prefx = map (temp_path parent prefx) (take 32 (ce_random env prefx))"

definition try_remove :: "(syscall \<Rightarrow> bool) \<Rightarrow> string \<Rightarrow> world \<Rightarrow> world" where
  "try_remove io p w = (if io (RemoveFile p) then remove_file p w else w)"

definition reserveRootTempPath :: "command_env \<Rightarrow> string \<Rightarrow> string \<Rightarrow> world \<Rightarrow> string outcome" where
  "reserveRootTempPath env parent prefx w =
     (case create_temp (ce_io env) w (temp_candidates env parent prefx) of
        Inl e \<Rightarrow> (Inl e, w)
      | Inr p \<Rightarrow>
          (let created = put_file p [] w in
           if \<not> ce_io env (CloseFile p) then (Inl (HookError p), try_remove (ce_io env) p created)
           else if \<not> ce_io env (RemoveFile p) then (Inl (HookError p), created)
           else (Inr p, remove_file p created)))"

definition cleanupStagedFile :: "command_env \<Rightarrow> string option \<Rightarrow> world \<Rightarrow> world" where
  "cleanupStagedFile env path w = (case path of None \<Rightarrow> w | Some p \<Rightarrow> try_remove (ce_io env) p w)"

definition stagePrefix :: string where
  "stagePrefix = ''.workcell-stage-''"

text \<open>An empty path in the code is \<open>None\<close>.\<close>

definition stageExistingFile :: "command_env \<Rightarrow> string option \<Rightarrow> world \<Rightarrow> string option outcome" where
  "stageExistingFile env path w =
     (case path of
        None \<Rightarrow> (Inr None, w)
      | Some p \<Rightarrow>
          (case normalizeRootRelativePath p of
             Inl e \<Rightarrow> (Inl e, w)
           | Inr cleanPath \<Rightarrow>
               if \<not> ce_io env (StatFile cleanPath) then (Inl (HookError p), w)
               else if w_managed w cleanPath = None then (Inr None, w)
               else
                 (case reserveRootTempPath env (Dir cleanPath) stagePrefix w of
                    (Inl e, w1) \<Rightarrow> (Inl e, w1)
                  | (Inr tempPath, w1) \<Rightarrow>
                      if ce_io env (RenameFile cleanPath tempPath) then (Inr (Some tempPath), rename_file cleanPath tempPath w1)
                      else (Inl (HookError p), w1))))"

definition restoreStagedFile :: "command_env \<Rightarrow> string option \<Rightarrow> string option \<Rightarrow> world \<Rightarrow> world" where
  "restoreStagedFile env stagedPath destination w =
     (case (stagedPath, destination) of
        (Some staged, Some d) \<Rightarrow>
          (case normalizeRootRelativePath d of
             Inl e \<Rightarrow> w
           | Inr cleanDestination \<Rightarrow>
               if ce_io env (RenameFile staged cleanDestination) then rename_file staged cleanDestination w else w)
      | _ \<Rightarrow> w)"

text \<open>
  \<open>rootio.WriteFileAtomicFromReader\<close>: the deferred removal of the temporary file runs on every path after its creation.
\<close>

definition WriteFileAtomicFromReader ::
  "command_env \<Rightarrow> string \<Rightarrow> string \<Rightarrow> string \<Rightarrow> world \<Rightarrow> unit outcome" where
  "WriteFileAtomicFromReader env relativePath content prefx w =
     (case normalizeRootRelativePath relativePath of
        Inl e \<Rightarrow> (Inl e, w)
      | Inr cleanPath \<Rightarrow>
          if Dir cleanPath \<noteq> ''.'' \<and> \<not> ce_io env (MkdirAll (Dir cleanPath)) then (Inl (HookError cleanPath), w)
          else
            (case create_temp (ce_io env) w (temp_candidates env (Dir cleanPath) prefx) of
               Inl e \<Rightarrow> (Inl e, w)
             | Inr p \<Rightarrow>
                 if \<not> ce_io env (CopyFile p) then (Inl (HookError cleanPath), try_remove (ce_io env) p (put_file p [] w))
                 else if \<not> ce_io env (CloseFile p) \<or> \<not> ce_io env (RenameFile p cleanPath)
                 then (Inl (HookError cleanPath), try_remove (ce_io env) p (put_file p content w))
                 else
                   (if ce_io env (ChmodFile cleanPath) then Inr () else Inl (HookError cleanPath),
                    put_file cleanPath content w)))"

definition writeSourceFile :: "command_env \<Rightarrow> string \<Rightarrow> string \<Rightarrow> world \<Rightarrow> unit outcome" where
  "writeSourceFile env source destination w =
     (case (if ce_io env (OpenSource source) then ce_secret env source else None) of
        None \<Rightarrow> (Inl (HookError source), w)
      | Some content \<Rightarrow> WriteFileAtomicFromReader env destination content ''.workcell-auth-'' w)"

definition managedRootMarker :: string where
  "managedRootMarker = ''.workcell-managed-root''"

definition writeManagedRootMarker :: "command_env \<Rightarrow> world \<Rightarrow> world" where
  "writeManagedRootMarker env w =
     (if ce_io env OpenRoot
      then snd (WriteFileAtomicFromReader env managedRootMarker (''managed_by=workcell'' @ [NL]) (''.'' @ managedRootMarker @ ''-'') w)
      else w)"

definition canonicalCredentialDestinations :: "(string \<times> (string \<times> string)) list" where
  "canonicalCredentialDestinations =
     [(''codex_auth'', (''codex'', ''auth.json'')), (''copilot_github_token'', (''copilot'', ''github-token.txt'')),
      (''claude_api_key'', (''claude'', ''api-key.txt'')), (''claude_mcp'', (''claude'', ''mcp.json'')),
      (''gemini_env'', (''gemini'', ''gemini.env'')), (''gemini_oauth'', (''gemini'', ''oauth_creds.json'')),
      (''gemini_projects'', (''gemini'', ''projects.json'')), (''gcloud_adc'', (''gemini'', ''gcloud-adc.json'')),
      (''github_hosts'', (''shared'', ''github-hosts.yml'')), (''github_config'', (''shared'', ''github-config.yml''))]"

definition canonicalDestinationPath :: "string \<Rightarrow> string \<Rightarrow> (bundle_error, string) result" where
  "canonicalDestinationPath managedRoot credential =
     (case map_of canonicalCredentialDestinations credential of
        None \<Rightarrow> Inl (HookError credential)
      | Some (dir, leaf) \<Rightarrow> Inr (Join [managedRoot, dir, leaf]))"

definition canonicalDestinationPathPart :: "string \<Rightarrow> string" where
  "canonicalDestinationPathPart credential =
     (case map_of canonicalCredentialDestinations credential of None \<Rightarrow> Join [[], []] | Some (dir, leaf) \<Rightarrow> Join [dir, leaf])"

definition RelativePathWithin :: "string \<Rightarrow> string \<Rightarrow> string \<Rightarrow> (bundle_error, string) result" where
  "RelativePathWithin root target_path label =
     (case filepath_Rel root target_path of
        None \<Rightarrow> Inl (HookError label)
      | Some rel \<Rightarrow> if rel = ''..'' \<or> HasPrefix rel ''../'' then Inl (HookError label) else Inr rel)"

definition managedRelativePath :: "string \<Rightarrow> string option \<Rightarrow> string \<Rightarrow> (bundle_error, string option) result" where
  "managedRelativePath managedRoot path label =
     (case path of
        None \<Rightarrow> Inr None
      | Some p \<Rightarrow> (case RelativePathWithin managedRoot p label of Inl e \<Rightarrow> Inl e | Inr rel \<Rightarrow> Inr (Some rel)))"

definition validateManagedPath :: "command_env \<Rightarrow> string \<Rightarrow> string \<Rightarrow> string \<Rightarrow> bundle_error option" where
  "validateManagedPath env managedRoot path label =
     (case requireNoSymlinkInPathChain (path_env.truncate env) path label of
        Some e \<Rightarrow> Some e
      | None \<Rightarrow> requirePathWithin (path_env.truncate env) managedRoot path label)"

section \<open>The entry of a credential\<close>

text \<open>
  The reader joins and wraps its errors, and \<open>os.IsNotExist\<close> does not look through that: a policy file that does not exist is
  an error here, and the branch of \<open>loadRawPolicy\<close> for it is not taken.
\<close>

definition loadMutablePolicy :: "command_env \<Rightarrow> string \<Rightarrow> world \<Rightarrow> (bundle_error, table) result" where
  "loadMutablePolicy env policyPath w =
     (case (if ce_io env ReadPolicy then loadRawPolicy CredentialKeys (w_policy w) False policyPath else Inl (HookError policyPath)) of
        Inl e \<Rightarrow> Inl e
      | Inr policy \<Rightarrow>
          Inr (if map_of policy ''version'' = None then AList.update ''version'' (TInt 1) policy else policy))"

definition ensureCredentialNotOnlyInIncludes ::
  "command_env \<Rightarrow> string \<Rightarrow> table \<Rightarrow> string \<Rightarrow> world \<Rightarrow> bundle_error option" where
  "ensureCredentialNotOnlyInIncludes env policyPath credentials credential w =
     (if map_of credentials credential \<noteq> None \<or> policyPath = [] then None
      else
        (case ce_loads env (w_policy w) of
           Inl e \<Rightarrow> Some e
         | Inr (merged, sources) \<Rightarrow>
             if map_of (get_table merged ''credentials'') credential = None then None
             else Some (HookError (credential_label credential))))"

definition entry_source :: "tval option \<Rightarrow> string option" where
  "entry_source existingEntry =
     (case existingEntry of
        Some (TTable m) \<Rightarrow> (case map_of m ''source'' of Some (TString s) \<Rightarrow> Some s | _ \<Rightarrow> None)
      | Some (TString s) \<Rightarrow> Some s
      | _ \<Rightarrow> None)"

definition pathsEquivalent :: "path_env \<Rightarrow> string \<Rightarrow> string \<Rightarrow> bool" where
  "pathsEquivalent env left right =
     (case (resolveAbsPath env left, resolveAbsPath env right) of (Some l, Some r) \<Rightarrow> l = r | _ \<Rightarrow> left = right)"

definition managedSourcePathForEntry ::
  "command_env \<Rightarrow> string \<Rightarrow> string \<Rightarrow> string \<Rightarrow> tval option \<Rightarrow> (bundle_error, string option) result" where
  "managedSourcePathForEntry env policyPath managedRoot credential existingEntry =
     (case canonicalDestinationPath managedRoot credential of
        Inl e \<Rightarrow> Inr None
      | Inr candidate \<Rightarrow>
          (case entry_source existingEntry of
             None \<Rightarrow> Inr None
           | Some s \<Rightarrow>
               if s = candidate then Inr (Some candidate)
               else
                 (case expandHostPath (path_env.truncate env) s (Dir policyPath) of
                    None \<Rightarrow> Inl (HookError s)
                  | Some existingPath \<Rightarrow>
                      Inr (if pathsEquivalent (path_env.truncate env) existingPath candidate then Some candidate else None))))"

definition foreignManagedSourcePathForEntry ::
  "command_env \<Rightarrow> string \<Rightarrow> string \<Rightarrow> string \<Rightarrow> tval option \<Rightarrow> (bundle_error, string option) result" where
  "foreignManagedSourcePathForEntry env policyPath managedRoot credential existingEntry =
     (case map_of canonicalCredentialDestinations credential of
        None \<Rightarrow> Inr None
      | Some (dir, leaf) \<Rightarrow>
          (case entry_source existingEntry of
             None \<Rightarrow> Inr None
           | Some s \<Rightarrow>
               (case expandHostPath (path_env.truncate env) s (Dir policyPath) of
                  None \<Rightarrow> Inl (HookError s)
                | Some existingPath \<Rightarrow>
                    if pathsEquivalent (path_env.truncate env) existingPath (Join [managedRoot, dir, leaf]) then Inr None
                    else if Base existingPath \<noteq> leaf \<or> Base (Dir existingPath) \<noteq> dir then Inr None
                    else if ce_marker env (Dir (Dir existingPath)) then Inr (Some existingPath)
                    else Inr None)))"

definition ensureNoForeignManagedSource ::
  "command_env \<Rightarrow> string \<Rightarrow> string \<Rightarrow> string \<Rightarrow> tval option \<Rightarrow> bundle_error option" where
  "ensureNoForeignManagedSource env policyPath managedRoot credential existingEntry =
     (case foreignManagedSourcePathForEntry env policyPath managedRoot credential existingEntry of
        Inl e \<Rightarrow> Some e
      | Inr None \<Rightarrow> None
      | Inr (Some p) \<Rightarrow> Some (HookError (credential_label credential)))"

definition named_selector :: "string \<Rightarrow> string \<Rightarrow> table" where
  "named_selector credential agent =
     (if credential \<in> set sharedCredentialKeys then [(''providers'', TArr [TString agent])] else [])"

definition desiredSelectors :: "table \<Rightarrow> string \<Rightarrow> string \<Rightarrow> (bundle_error, table) result" where
  "desiredSelectors credentials credential agent =
     (case map_of credentials credential of
        Some (TTable existing) \<Rightarrow>
          (case validateAllowedKeys existing entryAllowedKeys (credential_label credential) of
             Some e \<Rightarrow> Inl e
           | None \<Rightarrow>
               Inr ((case map_of existing ''modes'' of None \<Rightarrow> [] | Some modes \<Rightarrow> [(''modes'', modes)]) @
                    (case map_of existing ''providers'' of
                       None \<Rightarrow> named_selector credential agent | Some ps \<Rightarrow> [(''providers'', ps)])))
      | _ \<Rightarrow> Inr (named_selector credential agent))"

definition mergeSelectors :: "table \<Rightarrow> table \<Rightarrow> table" where
  "mergeSelectors selectors extra = fold (\<lambda>(k, v). AList.update k v) extra selectors"

definition validateAgentCredential :: "string \<Rightarrow> string \<Rightarrow> bundle_error option" where
  "validateAgentCredential agent credential =
     (if credentialAllowedForAgent agent credential then None else Some (HookError credential))"

section \<open>The policy file\<close>

text \<open>
  \<open>writeVerifiedPolicy\<close>: the rendered policy is written to a temporary file beside the policy, loaded from there, and renamed.
  \<open>PrepareTemp\<close> stands for the calls up to the closed temporary file, \<open>WriteTemp\<close> for the atomic write of its content.
\<close>

definition writeVerifiedPolicy :: "command_env \<Rightarrow> table \<Rightarrow> world \<Rightarrow> unit outcome" where
  "writeVerifiedPolicy env policy w =
     (if \<not> ce_io env PrepareTemp then (Inl (HookError []), w)
      else
        (case renderPolicyTOML CredentialKeys policy of
           Inl e \<Rightarrow> (Inl (HookError ''policy''), w)
         | Inr rendered \<Rightarrow>
             if \<not> ce_io env WriteTemp then (Inl (HookError []), w)
             else
               (case ce_loads env (Some rendered) of
                  Inl e \<Rightarrow> (Inl e, w)
                | Inr _ \<Rightarrow>
                    if \<not> ce_io env RenamePolicy then (Inl (HookError []), w)
                    else
                      (if ce_io env ChmodPolicy then Inr () else Inl (HookError []), w\<lparr>w_policy := Some rendered\<rparr>))))"

section \<open>The commands\<close>

record setOptions =
  so_policyPath :: string
  so_managedRoot :: string
  so_agent :: string
  so_credential :: string
  so_sourceRaw :: string
  so_sourceBaseRaw :: string
  so_resolver :: string
  so_ackHostResolver :: bool

definition resolveInputPath :: "path_env \<Rightarrow> string \<Rightarrow> string" where
  "resolveInputPath env raw =
     (case ExpandUserPathStrictRequireNonEmpty env raw of
        None \<Rightarrow> raw
      | Some expanded \<Rightarrow>
          if IsAbs expanded then Clean expanded
          else (case filepath_Abs (pe_cwd env) expanded of None \<Rightarrow> raw | Some p \<Rightarrow> Clean p))"

definition managed_label :: "string \<Rightarrow> string" where
  "managed_label credential = ''managed credential path for '' @ credential"

text \<open>The checks of \<open>commandSet\<close> that both kinds of entry share: the policy, the selectors and the existing entry.\<close>

definition set_checks :: "command_env \<Rightarrow> setOptions \<Rightarrow> world \<Rightarrow> (bundle_error, table \<times> table) result" where
  "set_checks env opts w =
     (let credential = so_credential opts in
      case validateAgentCredential (so_agent opts) credential of
        Some e \<Rightarrow> Inl e
      | None \<Rightarrow>
          if (so_sourceRaw opts = []) = (so_resolver opts = []) then Inl (HookError ''--source'')
          else
            (case validateManagedPath env (so_managedRoot opts) (so_managedRoot opts) ''managed_root'' of
               Some e \<Rightarrow> Inl e
             | None \<Rightarrow>
                 (case loadMutablePolicy env (so_policyPath opts) w of
                    Inl e \<Rightarrow> Inl e
                  | Inr policy \<Rightarrow>
                      (let credentials = get_table policy ''credentials'' in
                       case ensureCredentialNotOnlyInIncludes env (so_policyPath opts) credentials credential w of
                         Some e \<Rightarrow> Inl e
                       | None \<Rightarrow>
                           (case ensureNoForeignManagedSource env (so_policyPath opts) (so_managedRoot opts) credential
                                   (map_of credentials credential) of
                              Some e \<Rightarrow> Inl e
                            | None \<Rightarrow>
                                (case desiredSelectors credentials credential (so_agent opts) of
                                   Inl e \<Rightarrow> Inl e
                                 | Inr selectors \<Rightarrow> Inr (policy, selectors)))))))"

definition existing_entry :: "table \<Rightarrow> string \<Rightarrow> tval option" where
  "existing_entry policy credential = map_of (get_table policy ''credentials'') credential"

definition set_entry :: "table \<Rightarrow> string \<Rightarrow> table \<Rightarrow> table" where
  "set_entry policy credential entry =
     AList.update ''credentials'' (TTable (AList.update credential (TTable entry) (get_table policy ''credentials''))) policy"

text \<open>The checks of a source: the path of the secret and the path it is copied to.\<close>

definition source_checks :: "command_env \<Rightarrow> setOptions \<Rightarrow> (bundle_error, string \<times> string) result" where
  "source_checks env opts =
     (let host = path_env.truncate env; label = credential_label (so_credential opts) in
      case (if so_sourceBaseRaw opts \<noteq> [] then Some (resolveInputPath host (so_sourceBaseRaw opts)) else filepath_Abs (pe_cwd env) ''.'') of
        None \<Rightarrow> Inl (HookError label)
      | Some sourceBase \<Rightarrow>
          (case validateSourcePath host (TString (so_sourceRaw opts)) label sourceBase of
             Inl e \<Rightarrow> Inl e
           | Inr source \<Rightarrow>
               (case RejectCredentialSource (ce_text env) host source label of
                  Some e \<Rightarrow> Inl e
                | None \<Rightarrow>
                    if ce_secret env source = None then Inl (HookError label)
                    else
                      (case canonicalDestinationPath (so_managedRoot opts) (so_credential opts) of
                         Inl e \<Rightarrow> Inl e
                       | Inr destination \<Rightarrow>
                           (case validateManagedPath env (so_managedRoot opts) destination (managed_label (so_credential opts)) of
                              Some e \<Rightarrow> Inl e
                            | None \<Rightarrow> Inr (source, destination))))))"

text \<open>
  The steps with roll back of an entry with a source. \<open>prior\<close> is a managed file of the existing entry at another place, with
  its path below the root.
\<close>

definition install_source ::
  "command_env \<Rightarrow> string \<Rightarrow> string \<Rightarrow> string option \<Rightarrow> table \<Rightarrow> world \<Rightarrow> unit outcome" where
  "install_source env source destinationRel prior policy w =
     (case stageExistingFile env (Some destinationRel) w of
        (Inl e, w1) \<Rightarrow> (Inl e, w1)
      | (Inr previousDestination, w1) \<Rightarrow>
          (case stageExistingFile env prior w1 of
             (Inl e, w2) \<Rightarrow> (Inl e, restoreStagedFile env previousDestination (Some destinationRel) w2)
           | (Inr priorBackup, w2) \<Rightarrow>
               (case writeSourceFile env source destinationRel w2 of
                  (Inl e, w3) \<Rightarrow>
                    (Inl e, restoreStagedFile env priorBackup prior
                              (restoreStagedFile env previousDestination (Some destinationRel) w3))
                | (Inr _, w3) \<Rightarrow>
                    (case writeVerifiedPolicy env policy w3 of
                       (Inl e, w4) \<Rightarrow>
                         (Inl e, restoreStagedFile env priorBackup prior
                                   (restoreStagedFile env previousDestination (Some destinationRel)
                                      (cleanupStagedFile env (Some destinationRel) w4)))
                     | (Inr _, w4) \<Rightarrow>
                         (Inr (), cleanupStagedFile env priorBackup
                                    (cleanupStagedFile env previousDestination (writeManagedRootMarker env w4)))))))"

definition set_source :: "command_env \<Rightarrow> setOptions \<Rightarrow> table \<Rightarrow> table \<Rightarrow> world \<Rightarrow> unit outcome" where
  "set_source env opts policy selectors w =
     (case source_checks env opts of
        Inl e \<Rightarrow> (Inl e, w)
      | Inr (source, destination) \<Rightarrow>
          if \<not> ce_io env OpenRoot then (Inl (HookError (so_managedRoot opts)), w)
          else
            (case managedSourcePathForEntry env (so_policyPath opts) (so_managedRoot opts) (so_credential opts)
                    (existing_entry policy (so_credential opts)) of
               Inl e \<Rightarrow> (Inl e, w)
             | Inr priorPath \<Rightarrow>
                 (case managedRelativePath (so_managedRoot opts) priorPath (managed_label (so_credential opts)) of
                    Inl e \<Rightarrow> (Inl e, w)
                  | Inr priorRel \<Rightarrow>
                      (let separate = (priorPath \<noteq> None \<and> priorPath \<noteq> Some destination) in
                       if separate \<and> requireNoSymlinkInPathChain (path_env.truncate env) (the priorPath) (managed_label (so_credential opts)) \<noteq> None
                       then (Inl (HookError (managed_label (so_credential opts))), w)
                       else install_source env source (canonicalDestinationPathPart (so_credential opts)) (if separate then priorRel else None)
                              (set_entry policy (so_credential opts) (mergeSelectors selectors [(''source'', TString destination)])) w))))"

text \<open>A managed file is moved away, the policy is written, and the file is dropped or put back.\<close>

definition drop_managed :: "command_env \<Rightarrow> setOptions \<Rightarrow> tval option \<Rightarrow> table \<Rightarrow> world \<Rightarrow> unit outcome" where
  "drop_managed env opts existingEntry policy w =
     (case managedSourcePathForEntry env (so_policyPath opts) (so_managedRoot opts) (so_credential opts) existingEntry of
        Inl e \<Rightarrow> (Inl e, w)
      | Inr managedPath \<Rightarrow>
          if managedPath \<noteq> None \<and>
             requireNoSymlinkInPathChain (path_env.truncate env) (the managedPath) (managed_label (so_credential opts)) \<noteq> None
          then (Inl (HookError (managed_label (so_credential opts))), w)
          else if \<not> ce_io env OpenRoot then (Inl (HookError (so_managedRoot opts)), w)
          else
            (case managedRelativePath (so_managedRoot opts) managedPath (managed_label (so_credential opts)) of
               Inl e \<Rightarrow> (Inl e, w)
             | Inr rel \<Rightarrow>
                 (case stageExistingFile env rel w of
                    (Inl e, w1) \<Rightarrow> (Inl e, w1)
                  | (Inr staged, w1) \<Rightarrow>
                      (case writeVerifiedPolicy env policy w1 of
                         (Inl e, w2) \<Rightarrow> (Inl e, restoreStagedFile env staged rel w2)
                       | (Inr _, w2) \<Rightarrow> (Inr (), cleanupStagedFile env staged w2)))))"

definition set_resolver :: "command_env \<Rightarrow> setOptions \<Rightarrow> table \<Rightarrow> table \<Rightarrow> world \<Rightarrow> unit outcome" where
  "set_resolver env opts policy selectors w =
     (if \<not> ResolverSupported (so_credential opts) (so_resolver opts) then (Inl (HookError (so_credential opts)), w)
      else if \<not> so_ackHostResolver opts then (Inl (HookError ''--ack-host-resolver''), w)
      else drop_managed env opts (existing_entry policy (so_credential opts))
             (set_entry policy (so_credential opts)
                (mergeSelectors selectors [(''resolver'', TString (so_resolver opts)), (''materialization'', TString ''ephemeral'')])) w)"

definition commandSet :: "command_env \<Rightarrow> setOptions \<Rightarrow> world \<Rightarrow> unit outcome" where
  "commandSet env opts w =
     (case set_checks env opts w of
        Inl e \<Rightarrow> (Inl e, w)
      | Inr (policy, selectors) \<Rightarrow>
          if so_sourceRaw opts \<noteq> [] then set_source env opts policy selectors w else set_resolver env opts policy selectors w)"

text \<open>The result is the number of entries that were removed. Of the options only the paths and the credential are used.\<close>

definition unset_entry :: "table \<Rightarrow> string \<Rightarrow> table" where
  "unset_entry policy credential =
     (let credentials = AList.delete credential (get_table policy ''credentials'') in
      if credentials = [] then AList.delete ''credentials'' policy else AList.update ''credentials'' (TTable credentials) policy)"

definition commandUnset :: "command_env \<Rightarrow> setOptions \<Rightarrow> world \<Rightarrow> nat outcome" where
  "commandUnset env opts w =
     (case validateManagedPath env (so_managedRoot opts) (so_managedRoot opts) ''managed_root'' of
        Some e \<Rightarrow> (Inl e, w)
      | None \<Rightarrow>
          (case loadMutablePolicy env (so_policyPath opts) w of
             Inl e \<Rightarrow> (Inl e, w)
           | Inr policy \<Rightarrow>
               (case ensureCredentialNotOnlyInIncludes env (so_policyPath opts) (get_table policy ''credentials'') (so_credential opts) w of
                  Some e \<Rightarrow> (Inl e, w)
                | None \<Rightarrow>
                    (case ensureNoForeignManagedSource env (so_policyPath opts) (so_managedRoot opts) (so_credential opts)
                            (existing_entry policy (so_credential opts)) of
                       Some e \<Rightarrow> (Inl e, w)
                     | None \<Rightarrow>
                         if existing_entry policy (so_credential opts) = None then (Inr 0, w)
                         else
                           (case drop_managed env opts (existing_entry policy (so_credential opts)) (unset_entry policy (so_credential opts)) w of
                              (Inl e, w1) \<Rightarrow> (Inl e, w1)
                            | (Inr _, w1) \<Rightarrow> (Inr 1, w1))))))"

section \<open>Roll back\<close>

text \<open>
  What the roll back relies on: removals succeed, a staged file can be moved back, and no change of permissions fails after a
  rename.
\<close>

definition rollback_ok :: "command_env \<Rightarrow> bool" where
  "rollback_ok env \<longleftrightarrow>
     (\<forall>p. ce_io env (RemoveFile p)) \<and> (\<forall>parent s d. s \<in> set (temp_candidates env parent stagePrefix) \<longrightarrow> ce_io env (RenameFile s d)) \<and>
     (\<forall>p. ce_io env (ChmodFile p)) \<and> ce_io env ChmodPolicy"

lemma create_temp_Inr: "create_temp io w ps = Inr p \<Longrightarrow> w_managed w p = None \<and> p \<in> set ps"
  by (induction ps) (auto split: if_splits)

lemma undo_put: "w_managed w p = None \<Longrightarrow> remove_file p (put_file p c w) = w"
  by (simp add: remove_file_def put_file_def fun_upd_idem)

lemma reserve_rollback:
  assumes "\<forall>p. ce_io env (RemoveFile p)" "reserveRootTempPath env parent prefx w = (r, w')"
  shows "w' = w" "r = Inr p \<Longrightarrow> w_managed w p = None \<and> p \<in> set (temp_candidates env parent prefx)"
  using assms create_temp_Inr [of "ce_io env" w "temp_candidates env parent prefx"]
  by (cases "create_temp (ce_io env) w (temp_candidates env parent prefx)";
      auto simp: reserveRootTempPath_def try_remove_def Let_def undo_put split: if_splits)+

lemma stage_Inl:
  assumes "\<forall>p. ce_io env (RemoveFile p)" "stageExistingFile env path w = (Inl e, w')"
  shows "w' = w"
  using assms reserve_rollback(1) [OF assms(1)]
  by (auto simp: stageExistingFile_def split: option.splits sum.splits if_splits prod.splits)

lemma undo_stage: "w_managed w s = None \<Longrightarrow> w_managed w p \<noteq> None \<Longrightarrow> rename_file s p (rename_file p s w) = w"
  by (auto simp: rename_file_def fun_eq_iff)

text \<open>A staged file is at a name that was free, and moving it back restores the state.\<close>

lemma stage_Inr:
  assumes "\<forall>p. ce_io env (RemoveFile p)" "stageExistingFile env path w = (Inr staged, w')"
  obtains "staged = None" "w' = w" "path = None \<or> (\<exists>p c. path = Some p \<and> normalizeRootRelativePath p = Inr c \<and> w_managed w c = None)"
  | p c s where "path = Some p" "normalizeRootRelativePath p = Inr c" "staged = Some s" "s \<in> set (temp_candidates env (Dir c) stagePrefix)"
      "w_managed w s = None" "w_managed w c \<noteq> None" "w' = rename_file c s w"
proof (cases path)
  case None
  then show thesis using assms that(1) by (simp add: stageExistingFile_def)
next
  case (Some p)
  then obtain c where c: "normalizeRootRelativePath p = Inr c" using assms by (auto simp: stageExistingFile_def split: sum.splits)
  show thesis
  proof (cases "w_managed w c")
    case None
    then show thesis using assms Some c that(1) by (auto simp: stageExistingFile_def split: if_splits)
  next
    case (Some content)
    then obtain s v where sv: "reserveRootTempPath env (Dir c) stagePrefix w = (Inr s, v)" "staged = Some s" "w' = rename_file c s v"
      using assms c \<open>path = Some p\<close> by (auto simp: stageExistingFile_def split: if_splits sum.splits prod.splits)
    have "v = w" using reserve_rollback(1) [OF assms(1) sv(1)] .
    then have r: "reserveRootTempPath env (Dir c) stagePrefix w = (Inr s, w)" "staged = Some s" "w' = rename_file c s w"
      using sv by simp_all
    then show thesis using that(2) [OF \<open>path = Some p\<close> c] reserve_rollback(2) [OF assms(1) r(1)] Some by simp
  qed
qed

lemma restore_staged:
  assumes "rollback_ok env" "stageExistingFile env path w = (Inr staged, w')"
  shows "restoreStagedFile env staged path w' = w"
proof -
  have rm: "\<forall>p. ce_io env (RemoveFile p)" using assms(1) by (simp add: rollback_ok_def)
  from rm assms(2) show ?thesis
  proof (cases rule: stage_Inr)
    case (2 p c s)
    then have "ce_io env (RenameFile s c)" using assms(1) by (auto simp: rollback_ok_def)
    then show ?thesis using 2 by (simp add: restoreStagedFile_def undo_stage)
  qed (auto simp: restoreStagedFile_def)
qed

lemma write_Inl:
  assumes "\<forall>p. ce_io env (RemoveFile p)" "\<forall>p. ce_io env (ChmodFile p)"
    "WriteFileAtomicFromReader env rel content prefx w = (Inl e, w')"
  shows "w' = w"
  using assms
  by (auto simp: WriteFileAtomicFromReader_def try_remove_def undo_put split: sum.splits if_splits dest!: create_temp_Inr)

lemma write_Inr:
  assumes "WriteFileAtomicFromReader env rel content prefx w = (Inr u, w')"
  obtains c where "normalizeRootRelativePath rel = Inr c" "w' = put_file c content w"
  using assms by (auto simp: WriteFileAtomicFromReader_def split: sum.splits if_splits)

lemma writeSource_Inl:
  "rollback_ok env \<Longrightarrow> writeSourceFile env source rel w = (Inl e, w') \<Longrightarrow> w' = w"
  by (auto simp: writeSourceFile_def rollback_ok_def split: option.splits if_splits dest: write_Inl)

lemma writePolicy_Inl: "ce_io env ChmodPolicy \<Longrightarrow> writeVerifiedPolicy env policy w = (Inl e, w') \<Longrightarrow> w' = w"
  by (auto simp: writeVerifiedPolicy_def split: sum.splits if_splits)

section \<open>All or nothing\<close>

lemma prior_is_destination:
  assumes "managedSourcePathForEntry env policyPath root credential entry = Inr (Some p)"
  shows "canonicalDestinationPath root credential = Inr p"
  using assms by (auto simp: managedSourcePathForEntry_def split: sum.splits option.splits if_splits)

lemma stage_None [simp]: "stageExistingFile env None w = (Inr None, w)" "restoreStagedFile env staged None w = w"
  "restoreStagedFile env None path w = w" "cleanupStagedFile env None w = w"
  by (simp_all add: stageExistingFile_def restoreStagedFile_def cleanupStagedFile_def split: option.splits)

lemma source_checks_destination:
  "source_checks env opts = Inr (source, destination) \<Longrightarrow> canonicalDestinationPath (so_managedRoot opts) (so_credential opts) = Inr destination"
  by (auto simp: source_checks_def Let_def split: option.splits sum.splits if_splits)

text \<open>The managed file of an entry is the destination itself, so there never is a second file to stage.\<close>

lemma set_source_install:
  assumes "set_source env opts policy selectors w = (r, w')"
  obtains e where "r = Inl e" "w' = w"
  | source destination where "source_checks env opts = Inr (source, destination)"
      "install_source env source (canonicalDestinationPathPart (so_credential opts)) None
         (set_entry policy (so_credential opts) (mergeSelectors selectors [(''source'', TString destination)])) w = (r, w')"
proof (cases "source_checks env opts")
  case (Inr sd)
  obtain source destination where sd: "sd = (source, destination)" by force
  have "priorPath = None \<or> priorPath = Some destination"
    if "managedSourcePathForEntry env (so_policyPath opts) (so_managedRoot opts) (so_credential opts) entry = Inr priorPath" for entry priorPath
    using prior_is_destination source_checks_destination [OF Inr [unfolded sd]] that by (cases priorPath) fastforce+
  then show thesis using assms Inr sd that
    by (auto simp: set_source_def Let_def split: sum.splits if_splits)
qed (use assms that in \<open>auto simp: set_source_def\<close>)

lemma install_source_Inl:
  assumes "rollback_ok env" "normalizeRootRelativePath d = Inr d" "install_source env source d None policy w = (Inl e, w')"
  shows "w' = w"
proof -
  have ok: "\<forall>p. ce_io env (RemoveFile p)" "ce_io env ChmodPolicy" using assms(1) by (simp_all add: rollback_ok_def)
  obtain staged w1 where st: "stageExistingFile env (Some d) w = (staged, w1)" by force
  show ?thesis
  proof (cases staged)
    case (Inl x)
    then show ?thesis using assms(3) st stage_Inl [OF ok(1)] by (simp add: install_source_def)
  next
    case (Inr previous)
    note staged = st [unfolded Inr] and restore = restore_staged [OF assms(1) st [unfolded Inr]]
    obtain r w3 where wr: "writeSourceFile env source d w1 = (r, w3)" by force
    show ?thesis
    proof (cases r)
      case (Inl x)
      then have "w3 = w1" using writeSource_Inl [OF assms(1)] wr by blast
      then show ?thesis using assms(3) staged wr restore Inl by (simp add: install_source_def)
    next
      case (Inr u)
      then obtain content where w3: "w3 = put_file d content w1"
        using wr assms(2) by (auto simp: writeSourceFile_def split: option.splits elim!: write_Inr)
      obtain x w4 where po: "writeVerifiedPolicy env policy w3 = (Inl x, w4)"
          "w' = restoreStagedFile env previous (Some d) (cleanupStagedFile env (Some d) w4)"
        using assms(3) staged wr Inr by (auto simp: install_source_def split: prod.splits sum.splits)
      then have w': "w' = restoreStagedFile env previous (Some d) (remove_file d w3)"
        using writePolicy_Inl [OF ok(2) po(1)] ok(1) by (simp add: cleanupStagedFile_def try_remove_def)
      have "w_managed w1 d = None" using ok(1) staged assms(2) by (cases rule: stage_Inr) (auto simp: rename_file_def)
      then show ?thesis using w' restore w3 by (simp add: undo_put)
    qed
  qed
qed

lemma drop_managed_Inl:
  assumes "rollback_ok env" "drop_managed env opts entry policy w = (Inl e, w')"
  shows "w' = w"
proof -
  have ok: "\<forall>p. ce_io env (RemoveFile p)" "ce_io env ChmodPolicy" using assms(1) by (simp_all add: rollback_ok_def)
  consider "w' = w" | rel x where "stageExistingFile env rel w = (Inl x, w')"
    | rel staged w1 x w2 where "stageExistingFile env rel w = (Inr staged, w1)" "writeVerifiedPolicy env policy w1 = (Inl x, w2)"
        "w' = restoreStagedFile env staged rel w2"
    using assms(2) by (auto simp: drop_managed_def split: sum.splits if_splits prod.splits)
  then show ?thesis
  proof cases
    case 2
    then show ?thesis by (rule stage_Inl [OF ok(1)])
  next
    case 3
    then show ?thesis using writePolicy_Inl [OF ok(2) 3(2)] restore_staged [OF assms(1) 3(1)] by simp
  qed
qed

lemma canonical_parts:
  "canonicalDestinationPath root credential = Inr destination \<Longrightarrow>
   normalizeRootRelativePath (canonicalDestinationPathPart credential) = Inr (canonicalDestinationPathPart credential) \<and>
   canonicalDestinationPathPart credential \<noteq> managedRootMarker"
proof -
  have "list_all (\<lambda>(c, _). normalizeRootRelativePath (canonicalDestinationPathPart c) = Inr (canonicalDestinationPathPart c) \<and>
      canonicalDestinationPathPart c \<noteq> managedRootMarker) canonicalCredentialDestinations"
    by code_simp
  moreover assume "canonicalDestinationPath root credential = Inr destination"
  ultimately show ?thesis
    by (cases "map_of canonicalCredentialDestinations credential")
      (auto simp: canonicalDestinationPath_def list_all_iff dest!: map_of_SomeD)
qed

section \<open>The effect of a command\<close>

lemma writePolicy_Inr:
  "writeVerifiedPolicy env policy w = (Inr u, w') \<Longrightarrow>
   \<exists>rendered. renderPolicyTOML CredentialKeys policy = Inr rendered \<and> w' = w\<lparr>w_policy := Some rendered\<rparr>"
  by (auto simp: writeVerifiedPolicy_def split: sum.splits if_splits)

lemma frame_policy [simp]:
  "w_policy (put_file p c w) = w_policy w" "w_policy (remove_file p w) = w_policy w" "w_policy (rename_file p q w) = w_policy w"
  "w_policy (try_remove io p w) = w_policy w" "w_policy (cleanupStagedFile env path w) = w_policy w"
  by (simp_all add: put_file_def remove_file_def rename_file_def try_remove_def cleanupStagedFile_def split: option.splits)

lemma marker_frame:
  assumes "w_managed w d \<noteq> None" "d \<noteq> managedRootMarker"
  shows "w_managed (writeManagedRootMarker env w) d = w_managed w d" "w_policy (writeManagedRootMarker env w) = w_policy w"
proof -
  have m: "normalizeRootRelativePath managedRootMarker = Inr managedRootMarker" by code_simp
  show "w_managed (writeManagedRootMarker env w) d = w_managed w d" "w_policy (writeManagedRootMarker env w) = w_policy w"
    using assms m
    by (auto simp: writeManagedRootMarker_def WriteFileAtomicFromReader_def try_remove_def put_file_def remove_file_def
        split: sum.splits if_splits dest!: create_temp_Inr)
qed

lemma install_source_Inr:
  assumes "\<forall>p. ce_io env (RemoveFile p)" "normalizeRootRelativePath d = Inr d" "d \<noteq> managedRootMarker"
    "install_source env source d None policy w = (Inr u, w')"
  shows "\<exists>rendered. renderPolicyTOML CredentialKeys policy = Inr rendered \<and> w_policy w' = Some rendered"
    and "w_managed w' d = ce_secret env source"
proof -
  obtain previous w1 w3 w4 where st: "stageExistingFile env (Some d) w = (Inr previous, w1)"
    and wr: "writeSourceFile env source d w1 = (Inr (), w3)" and po: "writeVerifiedPolicy env policy w3 = (Inr (), w4)"
    and w': "w' = cleanupStagedFile env previous (writeManagedRootMarker env w4)"
    using assms(4) by (auto simp: install_source_def split: prod.splits sum.splits)
  obtain content where w3: "w3 = put_file d content w1" "ce_secret env source = Some content"
    using wr assms(2) by (auto simp: writeSourceFile_def split: option.splits if_splits elim!: write_Inr)
  obtain rendered where r: "renderPolicyTOML CredentialKeys policy = Inr rendered" "w4 = w3\<lparr>w_policy := Some rendered\<rparr>"
    using writePolicy_Inr [OF po] by blast
  then have d: "w_managed w4 d = Some content" using w3 by (simp add: put_file_def)
  have p: "previous \<noteq> Some d" using assms(1) st by (cases rule: stage_Inr) (use assms(2) in auto)
  show "\<exists>rendered. renderPolicyTOML CredentialKeys policy = Inr rendered \<and> w_policy w' = Some rendered"
    using r w' marker_frame(2) [of w4 d env] d assms(3) by simp
  show "w_managed w' d = ce_secret env source"
    using p w' w3(2) d marker_frame(1) [of w4 d env] assms(3)
    by (cases previous) (auto simp: cleanupStagedFile_def try_remove_def remove_file_def)
qed

lemma drop_managed_Inr:
  assumes "\<forall>p. ce_io env (RemoveFile p)" "drop_managed env opts entry policy w = (Inr u, w')"
  shows "\<exists>rendered. renderPolicyTOML CredentialKeys policy = Inr rendered \<and> w_policy w' = Some rendered"
  using assms by (auto simp: drop_managed_def split: sum.splits if_splits prod.splits dest!: writePolicy_Inr)

lemma desiredSelectors_shared:
  assumes "desiredSelectors credentials credential agent = Inr selectors" "credential \<in> set sharedCredentialKeys"
  shows "map_of selectors ''providers'' \<noteq> None"
  using assms
  by (auto simp: desiredSelectors_def named_selector_def split: option.splits tval.splits)

lemma set_checks_shared:
  "set_checks env opts w = Inr (policy, selectors) \<Longrightarrow> so_credential opts \<in> set sharedCredentialKeys \<Longrightarrow>
   map_of selectors ''providers'' \<noteq> None"
  by (auto simp: set_checks_def Let_def split: option.splits sum.splits if_splits dest: desiredSelectors_shared)

lemma mergeSelectors_providers:
  "''providers'' \<notin> fst ` set extra \<Longrightarrow> map_of (mergeSelectors selectors extra) ''providers'' = map_of selectors ''providers''"
  unfolding mergeSelectors_def by (induction extra arbitrary: selectors) (auto simp: update_conv')

section \<open>Properties\<close>

text \<open>
  C18: the commands that edit a policy are all or nothing. Whatever system calls fail, a \<open>set\<close> or \<open>unset\<close> that reports an
  error leaves the policy file and the managed files as they were, provided that removals and the renames of the roll back
  succeed and that no change of permissions fails after a rename.
\<close>

theorem commands_all_or_nothing:
  assumes "rollback_ok env"
  shows "(case commandSet env opts w of (Inl _, w') \<Rightarrow> w' = w | (Inr _, _) \<Rightarrow> True) \<and>
    (case commandUnset env opts w of (Inl _, w') \<Rightarrow> w' = w | (Inr _, _) \<Rightarrow> True)"
proof -
  have source: "w' = w" if s: "set_source env opts policy selectors w = (Inl e, w')" for policy selectors e w'
    using s
  proof (cases rule: set_source_install)
    case (2 source destination)
    then show ?thesis
      using install_source_Inl [OF assms] canonical_parts [OF source_checks_destination [OF 2(1)]] by blast
  qed
  have resolver: "w' = w" if "set_resolver env opts policy selectors w = (Inl e, w')" for policy selectors e w'
    using that drop_managed_Inl [OF assms] by (auto simp: set_resolver_def split: if_splits)
  have "w' = w" if "commandSet env opts w = (Inl e, w')" for e w'
    using that source resolver by (auto simp: commandSet_def split: sum.splits if_splits)
  moreover have "w' = w" if "commandUnset env opts w = (Inl e, w')" for e w'
    using that drop_managed_Inl [OF assms]
    by (auto simp: commandUnset_def split: option.splits sum.splits if_splits prod.splits)
  ultimately show ?thesis by (auto split: prod.splits sum.splits)
qed

text \<open>
  C22: a successful \<open>set\<close> writes exactly the edit, where removals work. The new policy file is the rendering of the loaded policy with the entry of the
  credential replaced; for a source the managed file holds the secret; the entry of a shared credential names providers.
\<close>

theorem commandSet_effect:
  assumes "commandSet env opts w = (Inr u, w')" "rollback_ok env"
  shows "\<exists>policy selectors entry rendered.
    set_checks env opts w = Inr (policy, selectors) \<and>
    renderPolicyTOML CredentialKeys (set_entry policy (so_credential opts) entry) = Inr rendered \<and> w_policy w' = Some rendered \<and>
    (if so_sourceRaw opts \<noteq> []
     then \<exists>source destination. source_checks env opts = Inr (source, destination) \<and>
            entry = mergeSelectors selectors [(''source'', TString destination)] \<and>
            w_managed w' (canonicalDestinationPathPart (so_credential opts)) = ce_secret env source
     else entry = mergeSelectors selectors [(''resolver'', TString (so_resolver opts)), (''materialization'', TString ''ephemeral'')]) \<and>
    (so_credential opts \<in> set sharedCredentialKeys \<longrightarrow> map_of entry ''providers'' \<noteq> None)"
proof -
  have rm: "\<forall>p. ce_io env (RemoveFile p)" using assms(2) by (simp add: rollback_ok_def)
  obtain policy selectors where c: "set_checks env opts w = Inr (policy, selectors)"
    using assms(1) by (auto simp: commandSet_def split: sum.splits)
  have shared: "so_credential opts \<in> set sharedCredentialKeys \<longrightarrow> map_of (mergeSelectors selectors extra) ''providers'' \<noteq> None"
    if "''providers'' \<notin> fst ` set extra" for extra
    using set_checks_shared [OF c] mergeSelectors_providers [OF that] by simp
  show ?thesis
  proof (cases "so_sourceRaw opts = []")
    case True
    then have "set_resolver env opts policy selectors w = (Inr u, w')" using assms(1) c by (simp add: commandSet_def)
    then have "drop_managed env opts (existing_entry policy (so_credential opts))
        (set_entry policy (so_credential opts)
          (mergeSelectors selectors [(''resolver'', TString (so_resolver opts)), (''materialization'', TString ''ephemeral'')])) w = (Inr u, w')"
      by (auto simp: set_resolver_def split: if_splits)
    from drop_managed_Inr [OF rm this] show ?thesis using c True shared by fastforce
  next
    case False
    then have "set_source env opts policy selectors w = (Inr u, w')" using assms(1) c by (simp add: commandSet_def)
    then show ?thesis
    proof (cases rule: set_source_install)
      case (2 source destination)
      note d = canonical_parts [OF source_checks_destination [OF 2(1)]]
      from install_source_Inr [OF rm conjunct1 [OF d] conjunct2 [OF d] 2(2)] show ?thesis using c False shared 2(1) by fastforce
    qed simp
  qed
qed

section \<open>Concrete runs\<close>

definition command_host :: "(syscall \<Rightarrow> bool) \<Rightarrow> command_env" where
  "command_host io =
     \<lparr>pe_home = Some ''/home/u'', pe_user = (\<lambda>_. None), pe_cwd = Some ''/w'', pe_darwin = False, pe_lstat = (\<lambda>_. Some False),
      pe_stat = (\<lambda>_. Some True), pe_eval = Some, ce_text = \<lparr>nfc = (\<lambda>s. s), foldCase = (\<lambda>s. s)\<rparr>, ce_io = io, ce_random = (\<lambda>_. [''00'']),
      ce_secret = (\<lambda>_. Some ''key''), ce_marker = (\<lambda>_. False), ce_loads = (\<lambda>_. Inr ([], []))\<rparr>"

definition command_opts :: setOptions where
  "command_opts =
     \<lparr>so_policyPath = ''/p/policy.toml'', so_managedRoot = ''/m'', so_agent = ''codex'', so_credential = ''codex_auth'',
      so_sourceRaw = ''/s/auth.json'', so_sourceBaseRaw = ''/s'', so_resolver = [], so_ackHostResolver = False\<rparr>"

definition old_world :: world where
  "old_world = \<lparr>w_managed = (\<lambda>p. if p = ''codex/auth.json'' then Some ''old'' else None), w_policy = Some (''version = 1'' @ [NL])\<rparr>"

definition new_policy :: string where
  "new_policy =
     ''version = 1'' @ [NL, NL] @ ''[credentials.codex_auth]'' @ [NL] @ ''source = '' @ [DQUOTE] @ ''/m/codex/auth.json'' @ [DQUOTE, NL]"

definition rename_fails :: "syscall \<Rightarrow> bool" where
  "rename_fails c = (c \<noteq> RenamePolicy)"

theorem commands_all_or_nothing_witness:
  "\<not> is_ok (fst (commandSet (command_host rename_fails) command_opts old_world)) \<and>
   snd (commandSet (command_host rename_fails) command_opts old_world) = old_world"
proof -
  have "rollback_ok (command_host rename_fails)" by (simp add: rollback_ok_def command_host_def rename_fails_def)
  moreover have "\<not> is_ok (fst (commandSet (command_host rename_fails) command_opts old_world))" by code_simp
  ultimately show ?thesis
    using commands_all_or_nothing [where env = "command_host rename_fails" and opts = command_opts and w = old_world]
    by (auto simp: is_ok_def split: prod.splits sum.splits)
qed

theorem commandSet_effect_witness:
  "\<exists>w'. commandSet (command_host (\<lambda>_. True)) command_opts old_world = (Inr (), w') \<and> w_policy w' = Some new_policy \<and>
     w_managed w' ''codex/auth.json'' = Some ''key'' \<and>
     (\<exists>policy selectors. set_checks (command_host (\<lambda>_. True)) command_opts old_world = Inr (policy, selectors))"
proof -
  let ?r = "commandSet (command_host (\<lambda>_. True)) command_opts old_world"
  have ok: "is_ok (fst ?r)" "w_policy (snd ?r) = Some new_policy" by code_simp+
  then have r: "?r = (Inr (), snd ?r)" by (cases ?r; cases "fst ?r") auto
  have "rollback_ok (command_host (\<lambda>_. True))" by (simp add: rollback_ok_def command_host_def)
  note e = commandSet_effect [OF r this]
  have "canonicalDestinationPathPart (so_credential command_opts) = ''codex/auth.json''" "so_sourceRaw command_opts \<noteq> []" by code_simp+
  then have "w_managed (snd ?r) ''codex/auth.json'' = Some ''key''" using e by (auto simp: command_host_def)
  then show ?thesis using r ok(2) e by (intro exI [of _ "snd ?r"]) blast
qed

text \<open>
  A change of permissions that fails after the rename: the command reports an error and rolls the managed file back to the old
  secret, but the new policy is in place.
\<close>

theorem chmod_failure_keeps_new_policy:
  "\<not> is_ok (fst (commandSet (command_host (\<lambda>c. c \<noteq> ChmodPolicy)) command_opts old_world)) \<and>
   w_policy (snd (commandSet (command_host (\<lambda>c. c \<noteq> ChmodPolicy)) command_opts old_world)) = Some new_policy \<and>
   w_managed (snd (commandSet (command_host (\<lambda>c. c \<noteq> ChmodPolicy)) command_opts old_world)) ''codex/auth.json'' = Some ''old''"
  by code_simp

text \<open>
  The same in the write of the managed file: without a file at the destination before, the copy of the secret stays although the
  command reports an error.
\<close>

definition empty_world :: world where
  "empty_world = \<lparr>w_managed = (\<lambda>_. None), w_policy = Some (''version = 1'' @ [NL])\<rparr>"

theorem chmod_failure_leaves_secret:
  "\<not> is_ok (fst (commandSet (command_host (\<lambda>c. c \<noteq> ChmodFile ''codex/auth.json'')) command_opts empty_world)) \<and>
   w_managed (snd (commandSet (command_host (\<lambda>c. c \<noteq> ChmodFile ''codex/auth.json'')) command_opts empty_world)) ''codex/auth.json'' = Some ''key''"
  by code_simp

end
