(* ===== verification/Spec2Isabelle.thy ===== *)
theory Spec2Isabelle
  imports Shellproto Policy_Writer Audit_Append Session_Record Apt_Server
    Credbroker_Ledger Egress_Denylog Ocsf_Export Network_Render Policy_Commands
begin

text \<open>
  Workcell runs a coding agent in a container. On the host, Go programs under \<open>src/internal\<close> and the
  launcher \<open>src/scripts/workcell\<close> prepare a session from a policy, answer the agent's requests
  through brokers, filter its network traffic, and keep a signed audit trail of what it did. This
  development models the Go code that carries those promises.

  \<^bold>\<open>Language and library.\<close> A Go string is a list of bytes (HOL \<^typ>\<open>string\<close>). \<open>Go_Prelude\<close> has the functions of
  \<open>strings\<close> and \<open>strconv\<close> that the packages call, \<open>Go_Runes\<close> UTF-8 decoding and encoding, \<open>Go_Filepath\<close>
  the lexical functions of \<open>path/filepath\<close>, \<open>Go_Json\<close> the scanner, string codec and struct decoder of
  \<open>encoding/json\<close>, \<open>Go_Netip\<close> IP addresses and prefixes, and \<open>Go_Sort\<close> stable sorting by a strict weak
  order. A fallible function returns a sum whose left side is the error; Go maps are association lists
  or functions; state that a mutex guards is a record passed through.

  \<^bold>\<open>Configuration.\<close>
  \<^item> \<open>Tomlsubset\<close> is \<open>tomlsubset/tomlsubset.go\<close> and \<open>Toml_Document\<close> is \<open>tomlsubset/ast.go\<close>: the TOML subset in
    which policies are written, once as nested maps and once as an ordered document. A document that
    is accepted has distinct tables and keys in increasing line order.
  \<^item> \<open>Policy_Reader\<close> is \<open>injectionpolicy/reader.go\<close>: a policy file is opened component by component without following
    links, read twice and compared, within limits on files and bytes. What it returns comes from a file that no
    other user could change.
  \<^item> \<open>Policy_Bundle\<close> is \<open>injectionpolicy/bundle_load.go\<close>: the parser of a policy file with its \<open>[[copies]]\<close> blocks, the
    merge of fragments and the walk over the includes. \<open>Bundle_Union\<close> shows that the walk ends and that the
    loaded policy is the union of the fragments of its files.
  \<^item> \<open>Policy_Value\<close>, \<open>Policy_File\<close> and \<open>Policy_Render\<close> are \<open>authpolicy/policy.go\<close>: the value renderer, the validators with
    the hooks of the bundle loader, and the writer of a policy. A loaded bundle is well typed and its includes
    stay below the directory of the root policy. \<open>Policy_Writer\<close> shows that a written policy is read back as
    the same map of maps.
  \<^item> \<open>Shellproto\<close> is \<open>shellproto/shellproto.go\<close> and the bash reader of \<open>scripts/lib/shellproto.sh\<close>: a writer
    that fails closed and a reader that recovers exactly the values.

  \<^bold>\<open>The audit trail.\<close>
  \<^item> \<open>Audit_Line\<close> has the two encodings of a record (\<open>publishpr/host_exec.go\<close>, \<open>applecontainer/audit.go\<close>) and the
    decoders of \<open>ocsf/auditline.go\<close> and \<open>ocsf/decode.go\<close>, with round trips.
  \<^item> \<open>Audit_Seal\<close> has the bounded log reader \<open>host/auditlog/read.go\<close> and the signed chain of
    \<open>host/auditseal/auditseal.go\<close>. A seal that verifies on another log fixes the records of the session,
    or the two logs hold a hash collision or the signature is a forgery.
  \<^item> \<open>Audit_Append\<close> is the writer of \<open>applecontainer/audit.go\<close>: an append is all or nothing whatever system
    call fails, and what was appended can be sealed and verified.
  \<^item> \<open>Session_Record\<close> is \<open>host/sessions/sessions.go\<close>: merge, validation, listing and grouping of the session
    records. A terminal status is never left.
  \<^item> \<open>Ocsf_Export\<close> is \<open>ocsf/ocsf.go\<close> with the tables of \<open>ocsf/auditline.go\<close>: a session and its audit records as OCSF
    events. Free-form text and unknown fields are withheld, and every string of an event is fixed by the code,
    redacted, or a placeholder.

  \<^bold>\<open>Credentials.\<close>
  \<^item> \<open>Adapters\<close> has the tables of \<open>adapters/data.go\<close> and \<open>data_gen.go\<close>: the agents, the credentials each may use and
    where they are mounted.
  \<^item> \<open>Credential_Select\<close> is the selection for an agent and a mode in \<open>authpolicy/manage_helpers.go\<close>, with the
    selectors of the resolver and of the renderer. The selection is exact, and a shared credential must name its agents.
  \<^item> \<open>Authstate\<close> is \<open>host/authstate/authstate.go\<close> and \<open>pathutil/identity.go\<close>: the guard that refuses credential
    sources below the protected directories of the home, as an equivalence.
  \<^item> \<open>Policy_Commands\<close> is \<open>authpolicy/manage_mutate.go\<close>, \<open>staging.go\<close> and \<open>rootio/rootio.go\<close>: the commands \<open>set\<close> and
    \<open>unset\<close>, with each system call as an outcome of the environment. A command that fails leaves the policy and
    the managed files as they were, except where a change of permissions fails after a rename.
  \<^item> \<open>Credential_Resolve\<close> is the loop of \<open>authresolve/resolve_credential_sources.go\<close> with its resolvers: entries with a
    resolver are replaced by files, a brokered key by a placeholder, and the metadata records what was done.
  \<^item> \<open>Credential_Render\<close> is \<open>injection/render_credentials.go\<close> with its path checks and limits, \<open>Gemini_Env\<close> the env file
    parser of the same file, and \<open>Network_Render\<close> is \<open>injection/render_network.go\<close>. What is injected has the keys that the
    status shows; a session that brokers credentials gives the agent placeholders; the rendered endpoints are
    those of the policy. \<open>broker_check_admits_gemini_key\<close> is a Gemini file with a key that the broker check lets through.

  \<^bold>\<open>The brokers.\<close>
  \<^item> \<open>Apt_Protocol\<close> and \<open>Apt_Server\<close> are \<open>aptbroker\<close>: the wire format, the limits that every decoded request
    satisfies, admission of handlers as a step relation, and a request end to end.
  \<^item> \<open>Credbroker\<close> is \<open>credbroker/server.go\<close> and \<open>client.go\<close>: the handlers interleave their steps (\<open>sys_step\<close>); every
    credential that was released has a durable record, the log grows at a bounded rate, and an entitled
    client gets its answer. \<open>Credbroker_Ledger\<close> is \<open>ledger.go\<close>: the summary that is read back from the bytes of
    the log states what the broker recorded.

  \<^bold>\<open>Network egress.\<close>
  \<^item> \<open>Egress_Allowlist\<close> is the endpoint grammar of \<open>injectionpolicy/endpoint.go\<close> and \<open>egressproxy/allowlist.go\<close>.
  \<^item> \<open>Egress_Proxy\<close> is the decision of \<open>egressproxy/proxy.go\<close> about one connection: only allowlisted names, only
    public addresses, and the filter equals a reference table of special-purpose blocks. The upstream dial of a
    terminated connection (\<open>egressproxy/terminate.go\<close>) is there too.
  \<^item> \<open>Egress_Denylog\<close> is the deny log, its writer in \<open>proxy.go\<close> and its reader in \<open>denylog.go\<close>: the reader's fold
    simulates the writer's counters for hosts that are UTF-8, and loses denials for others.

  \<^bold>\<open>Parameters.\<close> SHA-256, ECDSA and the key store of the seal; the session record's JSON codec; time
  formatting and parsing; \<open>unicode.ToLower\<close> beyond ASCII; the resolver, dialling and the TLS parser; the
  outcomes of file system calls; the host's home directories and symbolic links; the credential keys in
  the loader of bundles; the redactor of the export; NFC and case folding of paths; the content of secret files and the
  outcome of a bundle load in the policy commands. Each is an argument of the definitions that use it, and what a theorem
  needs of it is among its hypotheses.

  \<^bold>\<open>Bounds.\<close> The walk over the ancestors of a socket path takes fuel, one unit per directory; the length of
  the path is enough, and \<open>validateSocketAncestry_iff\<close> shows that the walk then always returns. The walks of
  \<open>Policy_File\<close> over the ancestors of a path use the same bound. Loading a bundle takes fuel for its depth;
  4097 is enough for the reader's limit of 4096 files (\<open>LoadBundle_terminates\<close>). The JSON
  functions recurse on input that every step shortens; the guard that says so never fails
  (\<open>json_shorter\<close>). Counters that the code keeps as \<open>uint64\<close> wrap in the model too.

  \<^bold>\<open>Not modelled.\<close> Socket binding, signals, process supervision and other operating system calls without
  logic of their own; the session CA and the header swap of terminated connections; of the injection bundle the documents, copies, SSH files and their
  staging, which are walks over directory trees; of \<open>authpolicy\<close> the command \<open>init\<close> and the printed output of \<open>set\<close>,
  \<open>status\<close> and \<open>inspect\<close>; the writing of the resolved policy; the safe opening of secret files; the launcher script; the checkers of the repository itself (\<open>metadatautil\<close>,
  \<open>workcellhardening\<close>), which are lint tools of its continuous integration.
\<close>

end
